(* ===== verification/Prelude.thy ===== *)
theory Prelude
  imports Main "HOL-Library.Word" "HOL-Library.Char_ord" "HOL-Library.List_Lexorder"
    "HOL-Library.Monad_Syntax"
begin

text \<open>
  Shared vocabulary of the development: the machine types of the program, the
  correspondence between bytes and characters, checked buffer access, joining of
  labels, and the generic list lemmas that the component theories use.

  A C++ expression that reads outside its buffer has undefined behaviour. Functions
  that index a buffer return an \<open>option\<close>: \<open>None\<close> stands for that undefined
  behaviour, and the memory safety theorems state that it never arises. Where such a
  function also has a boolean result, the value inside is again an option:
  \<open>Some None\<close> is ``returned false'' and \<open>Some (Some x)\<close> is ``returned true
  with the output parameters \<open>x\<close>''.
\<close>

unbundle bit_operations_syntax

subsection \<open>Machine types\<close>

type_synonym byte = "8 word"
type_synonym u16 = "16 word"
type_synonym u32 = "32 word"
type_synonym u64 = "64 word"
type_synonym bytes = "byte list"

abbreviation returns_false :: "'a option option" where
  "returns_false \<equiv> Some None"

abbreviation returns_true :: "'a \<Rightarrow> 'a option option" where
  "returns_true x \<equiv> Some (Some x)"

text \<open>Facts that evaluate or decompose the wire format, and facts that say a read is in bounds.\<close>

named_theorems wire_simps
named_theorems in_bounds

subsection \<open>Bytes and characters\<close>

definition byte_of_char :: "char \<Rightarrow> byte" where
  "byte_of_char c = word_of_nat (of_char c)"

definition char_of_byte :: "byte \<Rightarrow> char" where
  "char_of_byte b = char_of (unat b)"

lemma unat_byte_of_char [simp]: "unat (byte_of_char c) = of_char c"
  by (simp add: byte_of_char_def unat_of_nat)

lemma of_char_of_byte [simp]: "of_char (char_of_byte b) = unat b"
  using unsigned_less [of b, where ?'a = nat] by (simp add: char_of_byte_def)

lemma char_of_byte_of_char [simp]: "char_of_byte (byte_of_char c) = c"
  by (simp add: char_of_byte_def)

lemma byte_of_char_of_byte [simp]: "byte_of_char (char_of_byte b) = b"
  by (rule word_unat_eq_iff [THEN iffD2]) simp

lemma char_byte_comp [simp]: "char_of_byte \<circ> byte_of_char = id"
  by (simp add: fun_eq_iff)

lemma byte_char_comp [simp]: "byte_of_char \<circ> char_of_byte = id"
  by (simp add: fun_eq_iff)

lemma map_char_byte [simp]: "map char_of_byte (map byte_of_char s) = s"
  by (induction s) auto

lemma map_byte_char [simp]: "map byte_of_char (map char_of_byte s) = s"
  by (induction s) auto

lemma char_of_byte_inject [simp]: "char_of_byte a = char_of_byte b \<longleftrightarrow> a = b"
  by (metis byte_of_char_of_byte)

lemma byte_of_char_inject [simp]: "byte_of_char a = byte_of_char b \<longleftrightarrow> a = b"
  by (metis char_of_byte_of_char)

subsection \<open>Checked buffer access\<close>

definition byte_at :: "bytes \<Rightarrow> nat \<Rightarrow> byte option" where
  "byte_at buf i = (if i < length buf then Some (buf ! i) else None)"

text \<open>The bytes \<open>[off, off + n)\<close> of a buffer, all of them in range.\<close>

definition slice :: "bytes \<Rightarrow> nat \<Rightarrow> nat \<Rightarrow> bytes option" where
  "slice buf off n = (if off + n \<le> length buf then Some (take n (drop off buf)) else None)"

lemma byte_at_Some [in_bounds]: "i < length buf \<Longrightarrow> byte_at buf i = Some (buf ! i)"
  by (simp add: byte_at_def)

lemma byte_at_eq_None [simp]: "byte_at buf i = None \<longleftrightarrow> length buf \<le> i"
  by (auto simp: byte_at_def)

lemma byte_at_append1: "i < length xs \<Longrightarrow> byte_at (xs @ ys) i = byte_at xs i"
  by (simp add: byte_at_def nth_append)

lemma byte_at_append2 [simp]: "byte_at (xs @ ys) (length xs + i) = byte_at ys i"
  by (simp add: byte_at_def)

lemma byte_at_append_hd [simp]: "byte_at (xs @ y # ys) (length xs) = Some y"
  by (simp add: byte_at_def)

lemma slice_Some [in_bounds]: "off + n \<le> length buf \<Longrightarrow> slice buf off n = Some (take n (drop off buf))"
  by (simp add: slice_def)

lemma slice_append2 [simp]: "slice (xs @ ys) (length xs + i) n = slice ys i n"
  by (auto simp: slice_def)

lemma slice_prefix [simp]: "slice (xs @ ys) 0 (length xs) = Some xs"
  by (simp add: slice_def)

lemma slice_middle: "slice (xs @ ys @ zs) (length xs) (length ys) = Some ys"
  by (simp add: slice_def)

subsection \<open>Joining parts with a separator\<close>

fun join_with :: "char \<Rightarrow> string list \<Rightarrow> string" where
  "join_with d [] = []"
| "join_with d [x] = x"
| "join_with d (x # y # zs) = x @ d # join_with d (y # zs)"

lemma join_with_Cons: "xs \<noteq> [] \<Longrightarrow> join_with d (x # xs) = x @ d # join_with d xs"
  by (cases xs) auto

lemma join_with_append:
  "xs \<noteq> [] \<Longrightarrow> ys \<noteq> [] \<Longrightarrow> join_with d (xs @ ys) = join_with d xs @ d # join_with d ys"
  by (induction d xs rule: join_with.induct) (auto simp: join_with_Cons)

lemma join_with_eq_Nil: "join_with d xs = [] \<longleftrightarrow> xs = [] \<or> xs = [[]]"
  by (induction d xs rule: join_with.induct) auto

lemma join_with_first: "join_with d ((x @ d # y) # zs) = x @ d # join_with d (y # zs)"
  by (cases zs) auto

lemma length_join_with:
  "xs \<noteq> [] \<Longrightarrow> length (join_with d xs) + 1 = sum_list (map length xs) + length xs"
  by (induction d xs rule: join_with.induct) auto

subsection \<open>Lists\<close>

lemma takeWhile_append_stop:
  "\<forall>x\<in>set xs. P x \<Longrightarrow> \<not> P y \<Longrightarrow> takeWhile P (xs @ y # ys) = xs"
  by (induction xs) auto

lemma dropWhile_append_stop:
  "\<forall>x\<in>set xs. P x \<Longrightarrow> \<not> P y \<Longrightarrow> dropWhile P (xs @ y # ys) = y # ys"
  by (induction xs) auto

lemma takeWhile_all: "\<forall>x\<in>set xs. P x \<Longrightarrow> takeWhile P xs = xs"
  by (induction xs) auto

lemma dropWhile_all: "\<forall>x\<in>set xs. P x \<Longrightarrow> dropWhile P xs = []"
  by (induction xs) auto

lemma dropWhile_id: "xs = [] \<or> \<not> P (hd xs) \<Longrightarrow> dropWhile P xs = xs"
  by (cases xs) auto

lemma length_drop_Suc_less: "xs \<noteq> [] \<Longrightarrow> length (drop (Suc n) xs) < length xs"
  by (cases xs) auto

end
