(* ===== verification/CLib.thy ===== *)
theory CLib
  imports Prelude
begin

text \<open>
  The C and C++ standard library functions that the program calls on strings, in the C
  locale (the program never calls \<open>setlocale\<close>): character classification,
  \<open>strtoul\<close>, decimal printing, formatted extraction from a string stream, and
  \<open>getline\<close>. \<open>unsigned long\<close> and \<open>size_t\<close> are 64 bits wide, \<open>int\<close> is 32
  bits wide, as on the LP64 systems the program is built for.
\<close>

subsection \<open>Characters\<close>

abbreviation newline :: char where
  "newline \<equiv> CHR 0x0A"

abbreviation carriage_return :: char where
  "carriage_return \<equiv> CHR 0x0D"

abbreviation quote_char :: char where
  "quote_char \<equiv> CHR 0x22"

definition isspace :: "char \<Rightarrow> bool" where
  "isspace c \<longleftrightarrow> c \<in> {CHR 0x20, CHR 0x09, CHR 0x0A, CHR 0x0B, CHR 0x0C, CHR 0x0D}"

definition isdigit :: "char \<Rightarrow> bool" where
  "isdigit c \<longleftrightarrow> (48::nat) \<le> of_char c \<and> of_char c \<le> (57::nat)"

definition tolower :: "char \<Rightarrow> char" where
  "tolower c = (if (65::nat) \<le> of_char c \<and> of_char c \<le> (90::nat)
                then char_of (of_char c + (32::nat)) else c)"

lemma tolower_idem [simp]: "tolower (tolower c) = tolower c"
  by (auto simp: tolower_def)

lemma tolower_eq_iff_nonletter:
  assumes "of_char d < (65::nat) \<or> (122::nat) < of_char d"
  shows "tolower c = d \<longleftrightarrow> c = d"
  using assms by (auto simp: tolower_def)

lemma tolower_nonletter:
  "of_char d < (65::nat) \<or> (90::nat) < of_char d \<Longrightarrow> tolower d = d"
  by (auto simp: tolower_def)

lemma tolower_dot [simp]: "tolower c = CHR ''.'' \<longleftrightarrow> c = CHR ''.''"
  by (rule tolower_eq_iff_nonletter) simp

lemma tolower_bar [simp]: "tolower c = CHR ''|'' \<longleftrightarrow> c = CHR ''|''"
  by (rule tolower_eq_iff_nonletter) simp

lemma isspace_not_digit: "isdigit c \<Longrightarrow> \<not> isspace c"
  by (auto simp: isspace_def isdigit_def)

subsection \<open>Decimal printing\<close>

definition digit_char :: "nat \<Rightarrow> char" where
  "digit_char d = char_of (48 + d)"

definition digit_value :: "char \<Rightarrow> nat" where
  "digit_value c = of_char c - 48"

fun decimal :: "nat \<Rightarrow> string" where
  "decimal n = (if n < 10 then [digit_char n] else decimal (n div 10) @ [digit_char (n mod 10)])"

declare decimal.simps [simp del]

definition decimal_value :: "string \<Rightarrow> nat" where
  "decimal_value s = foldl (\<lambda>v c. 10 * v + digit_value c) 0 s"

lemma digit_value_digit_char [simp]: "d < 10 \<Longrightarrow> digit_value (digit_char d) = d"
  by (simp add: digit_value_def digit_char_def)

lemma isdigit_digit_char [simp]: "d < 10 \<Longrightarrow> isdigit (digit_char d)"
  by (simp add: isdigit_def digit_char_def)

lemma decimal_digits: "\<forall>c\<in>set (decimal n). isdigit c"
proof (induction n rule: decimal.induct)
  case (1 n)
  then show ?case by (subst decimal.simps) auto
qed

lemma decimal_nonempty [simp]: "decimal n \<noteq> []"
  by (subst decimal.simps) simp

lemma decimal_value_append:
  "decimal_value (s @ [c]) = 10 * decimal_value s + digit_value c"
  by (simp add: decimal_value_def)

lemma decimal_value_decimal [simp]: "decimal_value (decimal n) = n"
proof (induction n rule: decimal.induct)
  case (1 n)
  show ?case
  proof (cases "n < 10")
    case True
    then show ?thesis by (subst decimal.simps) (simp add: decimal_value_def)
  next
    case False
    with 1 show ?thesis by (subst decimal.simps) (simp add: decimal_value_append)
  qed
qed

lemma decimal_inject [simp]: "decimal m = decimal n \<longleftrightarrow> m = n"
  by (metis decimal_value_decimal)

lemma bar_not_in_decimal [simp]: "CHR ''|'' \<notin> set (decimal n)"
  using decimal_digits [of n] by (auto simp: isdigit_def)

subsection \<open>C strings and \<open>strtoul\<close>\<close>

text \<open>\<open>c_str\<close> is read by C functions up to the first NUL byte.\<close>

definition c_str :: "string \<Rightarrow> string" where
  "c_str s = takeWhile (\<lambda>c. c \<noteq> CHR 0x00) s"

text \<open>An optional sign, as \<open>strtoul\<close> and the stream extractors read it.\<close>

fun read_sign :: "string \<Rightarrow> bool \<times> string" where
  "read_sign [] = (False, [])"
| "read_sign (c # r) =
     (if c = CHR ''-'' then (True, r) else if c = CHR ''+'' then (False, r) else (False, c # r))"

text \<open>A decimal is read whole: no white space or sign before it, and all of its digits.\<close>

lemma read_decimal:
  assumes "\<not> (\<exists>c s. t = c # s \<and> isdigit c)"
  shows "read_sign (dropWhile isspace (decimal n @ t)) = (False, decimal n @ t) \<and>
    takeWhile isdigit (decimal n @ t) = decimal n \<and> dropWhile isdigit (decimal n @ t) = t"
proof -
  obtain c s where d: "decimal n = c # s" by (cases "decimal n") simp_all
  then have c: "isdigit c" using decimal_digits [of n] by simp
  have "dropWhile isspace (decimal n @ t) = c # s @ t" using isspace_not_digit [OF c] by (simp add: d)
  moreover have "read_sign (c # s @ t) = (False, decimal n @ t)" using c by (auto simp: d isdigit_def)
  moreover have "takeWhile isdigit (decimal n @ t) = decimal n" "dropWhile isdigit (decimal n @ t) = t"
    using decimal_digits [of n] assms by (cases t; simp add: takeWhile_append2 dropWhile_append2)+
  ultimately show ?thesis by simp
qed

text \<open>
  \<open>strtoul(s, &endptr, 10)\<close>: the value and the rest of the string. With no digits the
  value is 0 and \<open>endptr\<close> is the start of the string; a value above \<open>ULONG_MAX\<close> is
  clamped to it; a minus sign negates modulo \<open>2 ^ 64\<close>.
\<close>

definition strtoul :: "string \<Rightarrow> u64 \<times> string" where
  "strtoul s =
     (let (neg, u) = read_sign (dropWhile isspace s);
          ds = takeWhile isdigit u;
          n = decimal_value ds
      in if ds = [] then (0, s)
         else (if 2 ^ 64 \<le> n then - 1
               else if neg then - word_of_nat n else word_of_nat n,
               dropWhile isdigit u))"

subsection \<open>Formatted extraction from a string stream\<close>

text \<open>
  \<open>iss >> p\<close> for a signed integer of the given width: \<open>None\<close> is \<open>failbit\<close> (no digits, or
  a value out of range). The rest of the stream is returned in both cases.
\<close>

definition extract_signed :: "nat \<Rightarrow> string \<Rightarrow> int option \<times> string" where
  "extract_signed w s =
     (let (neg, u) = read_sign (dropWhile isspace s);
          ds = takeWhile isdigit u;
          v = (if neg then - int (decimal_value ds) else int (decimal_value ds))
      in (if ds = [] \<or> v < - (2 ^ (w - 1)) \<or> 2 ^ (w - 1) \<le> v then None else Some v,
          dropWhile isdigit u))"

text \<open>\<open>iss >> v\<close> for an \<open>unsigned long\<close>: a minus sign negates modulo \<open>2 ^ 64\<close>.\<close>

definition extract_ulong :: "string \<Rightarrow> u64 option \<times> string" where
  "extract_ulong s =
     (let (neg, u) = read_sign (dropWhile isspace s);
          ds = takeWhile isdigit u;
          n = decimal_value ds
      in (if ds = [] \<or> 2 ^ 64 \<le> n then None
          else Some (if neg then - word_of_nat n else word_of_nat n),
          dropWhile isdigit u))"

text \<open>\<open>iss >> str\<close>: a maximal run of non-space characters; it fails when there is none.\<close>

definition extract_word :: "string \<Rightarrow> string option \<times> string" where
  "extract_word s =
     (let t = dropWhile isspace s; w = takeWhile (\<lambda>c. \<not> isspace c) t
      in (if w = [] then None else Some w, dropWhile (\<lambda>c. \<not> isspace c) t))"

subsection \<open>\<open>getline\<close>\<close>

text \<open>
  The lines that a \<open>while (std::getline(in, line))\<close> loop reads: the text between newlines,
  without an empty last line when the text ends with a newline.
\<close>

fun getlines_from :: "string \<Rightarrow> string \<Rightarrow> string list" where
  "getlines_from cur [] = (if cur = [] then [] else [cur])"
| "getlines_from cur (c # s) =
     (if c = newline then cur # getlines_from [] s else getlines_from (cur @ [c]) s)"

definition getlines :: "string \<Rightarrow> string list" where
  "getlines s = getlines_from [] s"

lemma getlines_from_line:
  "newline \<notin> set l \<Longrightarrow> getlines_from cur (l @ newline # s) = (cur @ l) # getlines_from [] s"
  by (induction l arbitrary: cur) auto

lemma getlines_line: "newline \<notin> set l \<Longrightarrow> getlines (l @ newline # s) = l # getlines s"
  by (simp add: getlines_def getlines_from_line)

lemma getlines_Nil [simp]: "getlines [] = []"
  by (simp add: getlines_def)

lemma getlines_concat:
  "\<forall>l\<in>set ls. newline \<notin> set l \<Longrightarrow> getlines (concat (map (\<lambda>l. l @ [newline]) ls)) = ls"
  by (induction ls) (auto simp: getlines_line)

lemma getlines_from_no_newline:
  "newline \<notin> set cur \<Longrightarrow> l \<in> set (getlines_from cur s) \<Longrightarrow> newline \<notin> set l"
  by (induction cur s rule: getlines_from.induct) (auto split: if_splits)

lemma getlines_no_newline: "l \<in> set (getlines s) \<Longrightarrow> newline \<notin> set l"
  using getlines_from_no_newline [of "[]"] by (auto simp: getlines_def)

end
