(* ===== verification/Util.thy ===== *)
theory Util
  imports CLib
begin

text \<open>
  \<open>src/util.cpp\<close>: the string helpers every other component uses (\<open>Trim\<close>,
  \<open>ToLower\<close>, \<open>Split\<close>, \<open>StartsWith\<close>) and the process-wide logging front end with its
  level filter. The logging globals are the record \<open>log_globals\<close>; the calls it makes on the
  attached \<open>ControllerLogger\<close> and the lines it writes to standard error are recorded in
  order. The last part gives the facts about canonical names (lower case, no final dot)
  that the blocklist, the local records and the cache keys share.
\<close>

subsection \<open>String helpers\<close>

text \<open>The two index loops of \<open>Trim\<close>: \<open>start\<close> moves right, then \<open>end\<close> moves left.\<close>

definition Trim :: "string \<Rightarrow> string" where
  "Trim s = (let t = dropWhile isspace s in rev (dropWhile isspace (rev t)))"

definition ToLower :: "string \<Rightarrow> string" where
  "ToLower s = map tolower s"

fun split_loop :: "char \<Rightarrow> string \<Rightarrow> string \<Rightarrow> string list" where
  "split_loop delim cur [] = [cur]"
| "split_loop delim cur (c # s) =
     (if c = delim then cur # split_loop delim [] s else split_loop delim (cur @ [c]) s)"

definition Split :: "string \<Rightarrow> char \<Rightarrow> string list" where
  "Split s delim = split_loop delim [] s"

fun starts_loop :: "string \<Rightarrow> string \<Rightarrow> bool" where
  "starts_loop s [] = True"
| "starts_loop [] (p # ps) = False"
| "starts_loop (c # s) (p # ps) = (if c \<noteq> p then False else starts_loop s ps)"

definition StartsWith :: "string \<Rightarrow> string \<Rightarrow> bool" where
  "StartsWith s prefix = (if length s < length prefix then False else starts_loop s prefix)"

subsection \<open>Log levels and the logging globals\<close>

datatype log_level = LOG_DEBUG | LOG_INFO | LOG_WARN | LOG_ERROR

fun level_code :: "log_level \<Rightarrow> nat" where
  "level_code LOG_DEBUG = 0"
| "level_code LOG_INFO = 1"
| "level_code LOG_WARN = 2"
| "level_code LOG_ERROR = 3"

lemma level_code_inject [simp]: "level_code a = level_code b \<longleftrightarrow> a = b"
  by (cases a; cases b) auto

text \<open>The enumerators are compared by their values.\<close>

instantiation log_level :: linorder
begin

definition less_eq_log_level :: "log_level \<Rightarrow> log_level \<Rightarrow> bool" where
  "less_eq_log_level a b \<longleftrightarrow> level_code a \<le> level_code b"

definition less_log_level :: "log_level \<Rightarrow> log_level \<Rightarrow> bool" where
  "less_log_level a b \<longleftrightarrow> level_code a < level_code b"

instance
  by standard (auto simp: less_eq_log_level_def less_log_level_def)

end

lemmas level_order_simps = less_eq_log_level_def less_log_level_def

record log_globals =
  g_debug_enabled :: bool
  g_log_level :: log_level
  g_controller_attached :: bool
  controller_calls :: "(log_level \<times> string) list"
  stderr_lines :: "string list"

text \<open>The static initialisers of \<open>util.cpp\<close>.\<close>

definition initial_log_globals :: log_globals where
  "initial_log_globals =
     \<lparr>g_debug_enabled = False, g_log_level = LOG_DEBUG, g_controller_attached = False,
      controller_calls = [], stderr_lines = []\<rparr>"

definition SetDebugEnabled :: "log_globals \<Rightarrow> bool \<Rightarrow> log_globals" where
  "SetDebugEnabled g enabled =
     (let g1 = g\<lparr>g_debug_enabled := enabled\<rparr>
      in if enabled then g1\<lparr>g_log_level := LOG_DEBUG\<rparr> else g1)"

definition DebugEnabled :: "log_globals \<Rightarrow> bool" where
  "DebugEnabled g \<longleftrightarrow> g_log_level g = LOG_DEBUG"

definition SetLogLevel :: "log_globals \<Rightarrow> log_level \<Rightarrow> log_globals" where
  "SetLogLevel g level = g\<lparr>g_log_level := level, g_debug_enabled := (level = LOG_DEBUG)\<rparr>"

definition GetLogLevel :: "log_globals \<Rightarrow> log_level" where
  "GetLogLevel g = g_log_level g"

definition SetLogLevelFromString :: "log_globals \<Rightarrow> string \<Rightarrow> bool \<times> log_globals" where
  "SetLogLevelFromString g level =
     (let lowered = ToLower level;
          finish = (\<lambda>l. (True, g\<lparr>g_log_level := l, g_debug_enabled := (l = LOG_DEBUG)\<rparr>))
      in if lowered = ''debug'' then finish LOG_DEBUG
         else if lowered = ''info'' then finish LOG_INFO
         else if lowered = ''warn'' then finish LOG_WARN
         else if lowered = ''error'' then finish LOG_ERROR
         else (False, g))"

definition SetControllerLogger :: "log_globals \<Rightarrow> bool \<Rightarrow> log_globals" where
  "SetControllerLogger g attached = g\<lparr>g_controller_attached := attached\<rparr>"

definition EscapeLogMessage :: "string \<Rightarrow> string" where
  "EscapeLogMessage msg =
     map (\<lambda>c. if c = newline \<or> c = carriage_return then CHR '' '' else c) msg"

definition LogInternal :: "log_globals \<Rightarrow> log_level \<Rightarrow> string \<Rightarrow> log_globals" where
  "LogInternal g level msg =
     (if level < g_log_level g then g
      else let safe = EscapeLogMessage msg
           in if g_controller_attached g
              then g\<lparr>controller_calls := controller_calls g @ [(level, safe)]\<rparr>
              else g\<lparr>stderr_lines := stderr_lines g @ [safe @ [newline]]\<rparr>)"

definition DebugLog :: "log_globals \<Rightarrow> string \<Rightarrow> log_globals" where
  "DebugLog g msg =
     (if g_log_level g \<noteq> LOG_DEBUG then g
      else LogInternal g LOG_DEBUG (''[debug] '' @ msg))"

definition LogInfo :: "log_globals \<Rightarrow> string \<Rightarrow> log_globals" where
  "LogInfo g msg = LogInternal g LOG_INFO msg"

definition LogWarn :: "log_globals \<Rightarrow> string \<Rightarrow> log_globals" where
  "LogWarn g msg = LogInternal g LOG_WARN msg"

definition LogError :: "log_globals \<Rightarrow> string \<Rightarrow> log_globals" where
  "LogError g msg = LogInternal g LOG_ERROR msg"

subsection \<open>Facts on \<open>Trim\<close>\<close>

lemma Trim_Nil [simp]: "Trim [] = []"
  by (simp add: Trim_def)

lemma Trim_id:
  assumes "s = [] \<or> (\<not> isspace (hd s) \<and> \<not> isspace (last s))"
  shows "Trim s = s"
proof -
  from assms have "dropWhile isspace s = s" by (auto intro: dropWhile_id)
  moreover from assms have "dropWhile isspace (rev s) = rev s"
    by (auto intro: dropWhile_id simp: hd_rev)
  ultimately show ?thesis by (simp add: Trim_def)
qed

lemma last_Trim: "Trim s \<noteq> [] \<Longrightarrow> \<not> isspace (last (Trim s))"
  using hd_dropWhile [of isspace "rev (dropWhile isspace s)"] by (simp add: Trim_def last_rev)

lemma hd_Trim:
  assumes "Trim s \<noteq> []"
  shows "\<not> isspace (hd (Trim s))"
proof -
  let ?t = "dropWhile isspace s"
  obtain v where v: "rev ?t = takeWhile isspace (rev ?t) @ v" and vd: "v = dropWhile isspace (rev ?t)"
    by (metis takeWhile_dropWhile_id)
  then have "?t = rev v @ rev (takeWhile isspace (rev ?t))" by (metis rev_append rev_rev_ident)
  moreover from assms vd have "rev v \<noteq> []" by (simp add: Trim_def)
  ultimately have "hd ?t = hd (rev v)" by (metis hd_append2)
  moreover have "?t \<noteq> []"
  proof
    assume "?t = []"
    then have "Trim s = []" unfolding Trim_def Let_def by (simp only: rev.simps dropWhile.simps)
    with assms show False by simp
  qed
  ultimately show ?thesis using vd hd_dropWhile [of isspace s] by (simp add: Trim_def)
qed

lemma Trim_idem [simp]: "Trim (Trim s) = Trim s"
  by (rule Trim_id) (auto simp: last_Trim hd_Trim)

lemma set_Trim: "set (Trim s) \<subseteq> set s"
  by (auto simp: Trim_def) (metis set_dropWhileD set_rev)

lemma Trim_spaces_left: "\<forall>c\<in>set w. isspace c \<Longrightarrow> Trim (w @ s) = Trim s"
  by (induction w) (auto simp: Trim_def)

lemma Trim_spaces_right:
  assumes "\<forall>c\<in>set w. isspace c"
  shows "Trim (s @ w) = Trim s"
proof (cases "dropWhile isspace s = []")
  case True
  then have "\<forall>c\<in>set s. isspace c" by (simp add: dropWhile_eq_Nil_conv)
  with assms have "dropWhile isspace (s @ w) = []" by (simp add: dropWhile_eq_Nil_conv)
  with True show ?thesis by (simp only: Trim_def Let_def)
next
  case False
  then obtain x where "x \<in> set s" "\<not> isspace x" by (auto simp: dropWhile_eq_Nil_conv)
  then have "dropWhile isspace (s @ w) = dropWhile isspace s @ w" by (rule dropWhile_append1)
  moreover have "dropWhile isspace (rev (t @ w)) = dropWhile isspace (rev t)" for t
    using dropWhile_append2 [of "rev w" isspace "rev t"] assms by simp
  ultimately show ?thesis by (simp only: Trim_def Let_def)
qed

subsection \<open>Facts on \<open>Split\<close>\<close>

lemma split_loop_nonempty [simp]: "split_loop d cur s \<noteq> []"
  by (induction d cur s rule: split_loop.induct) auto

lemma Split_nonempty [simp]: "Split s d \<noteq> []"
  by (simp add: Split_def)

lemma split_loop_no_delim:
  "d \<notin> set l \<Longrightarrow> split_loop d cur (l @ d # s) = (cur @ l) # split_loop d [] s"
  by (induction l arbitrary: cur) auto

lemma split_loop_last: "d \<notin> set l \<Longrightarrow> split_loop d cur l = [cur @ l]"
  by (induction l arbitrary: cur) auto

lemma join_split_loop: "join_with d (split_loop d cur s) = cur @ s"
  by (induction d cur s rule: split_loop.induct) (auto simp: join_with_Cons)

theorem join_Split [simp]: "join_with d (Split s d) = s"
  by (simp add: Split_def join_split_loop)

lemma split_loop_parts:
  "d \<notin> set cur \<Longrightarrow> p \<in> set (split_loop d cur s) \<Longrightarrow> d \<notin> set p"
  by (induction d cur s rule: split_loop.induct) (auto split: if_splits)

lemma Split_parts: "p \<in> set (Split s d) \<Longrightarrow> d \<notin> set p"
  using split_loop_parts [of d "[]"] by (auto simp: Split_def)

theorem Split_join:
  "ls \<noteq> [] \<Longrightarrow> \<forall>l\<in>set ls. d \<notin> set l \<Longrightarrow> Split (join_with d ls) d = ls"
  by (induction d ls rule: join_with.induct)
    (auto simp: Split_def split_loop_no_delim split_loop_last)

lemma Split_map:
  assumes "\<And>c. f c = d \<longleftrightarrow> c = d"
  shows "Split (map f s) d = map (map f) (Split s d)"
proof -
  have "split_loop d (map f cur) (map f s) = map (map f) (split_loop d cur s)" for cur
  proof (induction s arbitrary: cur)
    case (Cons c s)
    from Cons.IH [of "[]"] Cons.IH [of "cur @ [c]"] assms show ?case by simp
  qed simp
  from this [of "[]"] show ?thesis by (simp add: Split_def)
qed

subsection \<open>Facts on \<open>StartsWith\<close>, \<open>ToLower\<close> and the log filter\<close>

lemma starts_loop_iff: "starts_loop s p \<longleftrightarrow> (\<exists>t. s = p @ t)"
  by (induction s p rule: starts_loop.induct) auto

lemma StartsWith_iff: "StartsWith s p \<longleftrightarrow> (\<exists>t. s = p @ t)"
  by (auto simp: StartsWith_def starts_loop_iff)

lemma ToLower_idem [simp]: "ToLower (ToLower s) = ToLower s"
  by (simp add: ToLower_def o_def)

lemma length_ToLower [simp]: "length (ToLower s) = length s"
  by (simp add: ToLower_def)

lemma ToLower_eq_Nil [simp]: "ToLower s = [] \<longleftrightarrow> s = []"
  by (simp add: ToLower_def)

lemma ToLower_append [simp]: "ToLower (s @ t) = ToLower s @ ToLower t"
  by (simp add: ToLower_def)

lemma set_EscapeLogMessage:
  "newline \<notin> set (EscapeLogMessage m)" "carriage_return \<notin> set (EscapeLogMessage m)"
  by (auto simp: EscapeLogMessage_def)

lemma LogInternal_level [simp]: "g_log_level (LogInternal g l m) = g_log_level g"
  by (simp add: LogInternal_def Let_def)

lemma DebugLog_level [simp]: "g_log_level (DebugLog g m) = g_log_level g"
  by (simp add: DebugLog_def)

lemma LogInfo_level [simp]: "g_log_level (LogInfo g m) = g_log_level g"
  by (simp add: LogInfo_def)

lemma LogWarn_level [simp]: "g_log_level (LogWarn g m) = g_log_level g"
  by (simp add: LogWarn_def)

lemma LogError_level [simp]: "g_log_level (LogError g m) = g_log_level g"
  by (simp add: LogError_def)

subsection \<open>Canonical names\<close>

text \<open>
  \<open>if (!name.empty() && name[name.size() - 1] == '.') name.resize(name.size() - 1)\<close>, which
  \<open>CanonicalName\<close>, \<open>IsBlocked\<close>, \<open>MakeKey\<close>, \<open>MakeCacheKey\<close> and \<open>NormalizeDomain\<close> apply to the lowered name.
\<close>

definition strip_final_dot :: "string \<Rightarrow> string" where
  "strip_final_dot s = (if s \<noteq> [] \<and> last s = CHR ''.'' then butlast s else s)"

lemma strip_final_dot_ToLower: "strip_final_dot (ToLower s) = ToLower (strip_final_dot s)"
  by (auto simp: strip_final_dot_def ToLower_def map_butlast last_map)

lemma strip_final_dot_snoc [simp]: "strip_final_dot (s @ [CHR ''.'']) = s"
  by (simp add: strip_final_dot_def)

lemma set_strip_final_dot: "set (strip_final_dot s) \<subseteq> set s"
  by (auto simp: strip_final_dot_def dest: in_set_butlastD)

subsection \<open>Canonical names and lookup keys\<close>

text \<open>
  Names that the program takes for the same domain: equal up to the case of letters and one
  final dot.
\<close>

definition canonical :: "string \<Rightarrow> string" where
  "canonical name = strip_final_dot (ToLower name)"

lemma canonical_label:
  "s \<noteq> [] \<Longrightarrow> canonical (p @ CHR ''.'' # s) = ToLower p @ CHR ''.'' # canonical s"
  by (simp add: canonical_def strip_final_dot_def ToLower_def tolower_def butlast_append)

lemma canonical_final_dot: "last s \<noteq> CHR ''.'' \<Longrightarrow> canonical (s @ ''.'') = canonical s"
proof -
  assume l: "last s \<noteq> CHR ''.''"
  have "canonical (s @ ''.'') = ToLower s"
    by (simp add: canonical_def ToLower_def tolower_def)
  moreover have "strip_final_dot (ToLower s) = ToLower s"
    using l by (cases s rule: rev_cases) (simp_all add: strip_final_dot_def ToLower_def tolower_eq_iff_nonletter)
  ultimately show ?thesis by (simp add: canonical_def)
qed

lemma bar_key_inject:
  "a @ ''|'' @ decimal i = b @ ''|'' @ decimal j \<longleftrightarrow> a = b \<and> i = j"
proof
  assume eq: "a @ ''|'' @ decimal i = b @ ''|'' @ decimal j"
  have split: "takeWhile (\<lambda>c. c \<noteq> CHR ''|'') (rev (s @ ''|'' @ decimal n)) = rev (decimal n)" for s n
    using bar_not_in_decimal [of n] by (auto simp: intro!: takeWhile_append_stop)
  have "rev (decimal i) = rev (decimal j)"
    using split [of a i] split [of b j] eq by metis
  with eq show "a = b \<and> i = j" by (simp add: decimal_inject)
qed simp

text \<open>
  The contract of a lookup key: it stands for the domain and the query type, and for nothing
  else. The local records and the response cache are addressed through such keys.
\<close>

locale lookup_key =
  fixes key :: "string \<Rightarrow> u16 \<Rightarrow> string"
  assumes key_eq: "key n q = key m r \<longleftrightarrow> canonical n = canonical m \<and> q = r"
begin

lemma key_other_type: "q \<noteq> r \<Longrightarrow> key n q \<noteq> key m r"
  by (simp add: key_eq)

lemma key_lower: "key (ToLower n) q = key n q"
  by (simp add: key_eq canonical_def)

lemma key_final_dot: "last n \<noteq> CHR ''.'' \<Longrightarrow> key (n @ ''.'') q = key n q"
  by (simp add: key_eq canonical_final_dot)

lemma lookup_update:
  "(m(key n q \<mapsto> v)) (key k r) = (if canonical k = canonical n \<and> r = q then Some v else m (key k r))"
  by (simp add: key_eq)

end

end
