(* ===== verification/Dns_Wire.thy ===== *)
theory Dns_Wire
  imports Util
begin

text \<open>
  The wire primitives of \<open>src/dns_packet.cpp\<close>: 16- and 32-bit integers in network byte
  order, names without compression (\<open>ParseQName\<close>, \<open>WriteQName\<close>) and names with compression
  pointers (\<open>ReadName\<close>). Offsets are \<open>nat\<close>: packets are at most 65535 bytes long, so the
  sums of offsets and lengths in the code stay far below \<open>2 ^ 64\<close>.

  The lemmas show that no read leaves the packet, that \<open>ReadName\<close> ends on every packet
  (cyclic compression pointers included), that \<open>ParseQName\<close> and \<open>ReadName\<close> invert
  \<open>WriteQName\<close> on well-formed names, and that the end offset of a name depends on its own
  bytes only (\<open>skip_name\<close>).
\<close>

subsection \<open>Record types\<close>

definition DNS_TYPE_A :: u16 where [wire_simps]: "DNS_TYPE_A = 1"
definition DNS_TYPE_CNAME :: u16 where [wire_simps]: "DNS_TYPE_CNAME = 5"
definition DNS_TYPE_PTR :: u16 where [wire_simps]: "DNS_TYPE_PTR = 12"
definition DNS_TYPE_MX :: u16 where [wire_simps]: "DNS_TYPE_MX = 15"
definition DNS_TYPE_TXT :: u16 where [wire_simps]: "DNS_TYPE_TXT = 16"
definition DNS_TYPE_AAAA :: u16 where [wire_simps]: "DNS_TYPE_AAAA = 28"

subsection \<open>Integers\<close>

definition ReadU16 :: "bytes \<Rightarrow> nat \<Rightarrow> u16 option" where
  "ReadU16 buf offset = do {
     hi \<leftarrow> byte_at buf offset;
     lo \<leftarrow> byte_at buf (offset + 1);
     Some (push_bit 8 (ucast hi) OR ucast lo)
   }"

definition WriteU16 :: "bytes \<Rightarrow> u16 \<Rightarrow> bytes" where
  "WriteU16 buf value = buf @ [ucast (drop_bit 8 value AND 0xFF), ucast (value AND 0xFF)]"

definition WriteU32 :: "bytes \<Rightarrow> u32 \<Rightarrow> bytes" where
  "WriteU32 buf value =
     buf @ [ucast (drop_bit 24 value AND 0xFF), ucast (drop_bit 16 value AND 0xFF),
            ucast (drop_bit 8 value AND 0xFF), ucast (value AND 0xFF)]"

lemma ReadU16_safe [in_bounds]: "offset + 2 \<le> length buf \<Longrightarrow> \<exists>v. ReadU16 buf offset = Some v"
  by (simp add: ReadU16_def byte_at_def)

lemma ReadU16_eq_None [simp]: "ReadU16 buf offset = None \<longleftrightarrow> length buf \<le> offset + 1"
  by (auto simp: ReadU16_def byte_at_def)

lemma byte_mask: "(0xFF :: 'a::len word) = mask 8"
  by (simp add: mask_eq_exp_minus_1)

lemma u16_split_join:
  "push_bit 8 (ucast (ucast (drop_bit 8 v AND 0xFF) :: byte)) OR
   ucast (ucast (v AND 0xFF) :: byte) = (v :: u16)"
  unfolding byte_mask by (rule bit_word_eqI) (auto simp: bit_simps)

lemma u16_join_high: "ucast (drop_bit 8 (push_bit 8 (ucast hi :: u16) OR ucast lo) AND 0xFF) = (hi :: byte)"
  for lo :: byte
  unfolding byte_mask by (rule bit_word_eqI) (auto simp: bit_simps dest: bit_imp_le_length)

lemma u16_join_low: "ucast ((push_bit 8 (ucast hi :: u16) OR ucast lo) AND 0xFF) = (lo :: byte)"
  for hi :: byte
  unfolding byte_mask by (rule bit_word_eqI) (auto simp: bit_simps)

lemmas u16_join_split = u16_join_high u16_join_low

lemma ReadU16_WriteU16 [wire_simps]: "ReadU16 (WriteU16 buf v @ rest) (length buf) = Some v"
  by (simp add: ReadU16_def WriteU16_def byte_at_def nth_append u16_split_join)

lemma ReadU16_Cons2: "ReadU16 (a # b # rest) 0 = Some (push_bit 8 (ucast a) OR ucast b)"
  by (simp add: ReadU16_def byte_at_def)

lemma ReadU16_append2 [simp]: "ReadU16 (xs @ ys) (length xs + i) = ReadU16 ys i"
  using byte_at_append2 [of xs ys i] byte_at_append2 [of xs ys "i + 1"]
  by (simp only: ReadU16_def add.assoc)

lemma WriteU16_append: "NO_MATCH [] buf \<Longrightarrow> WriteU16 buf v = buf @ WriteU16 [] v"
  by (simp add: WriteU16_def)

lemma WriteU32_append: "NO_MATCH [] buf \<Longrightarrow> WriteU32 buf v = buf @ WriteU32 [] v"
  by (simp add: WriteU32_def)

lemma length_WriteU16 [simp]: "length (WriteU16 buf v) = length buf + 2"
  by (simp add: WriteU16_def)

lemma length_WriteU32 [simp]: "length (WriteU32 buf v) = length buf + 4"
  by (simp add: WriteU32_def)

lemma ReadU16_frame:
  assumes "length q = length p" "q ! i = p ! i" "q ! (i + 1) = p ! (i + 1)"
  shows "ReadU16 q i = ReadU16 p i"
  using assms by (auto simp: ReadU16_def byte_at_def)

subsection \<open>Names\<close>

text \<open>\<open>if (!name.empty()) name.append("."); name.append(label)\<close>\<close>

definition append_label :: "string \<Rightarrow> bytes \<Rightarrow> string" where
  "append_label name label =
     (if name \<noteq> [] then name @ ''.'' else name) @ map char_of_byte label"

function ParseQName_loop :: "bytes \<Rightarrow> nat \<Rightarrow> string \<Rightarrow> (string \<times> nat) option option" where
  "ParseQName_loop packet pos name =
     (if pos < length packet then do {
        len \<leftarrow> byte_at packet pos;
        if len = 0 then returns_true (name, pos + 1)
        else if len AND 0xC0 \<noteq> 0 then returns_false
        else if length packet < pos + 1 + unat len then returns_false
        else do {
          label \<leftarrow> slice packet (pos + 1) (unat len);
          ParseQName_loop packet (pos + 1 + unat len) (append_label name label)
        }
      }
      else if length packet < pos then returns_false
      else returns_true (name, pos))"
  by pat_completeness auto
termination
  by (relation "measure (\<lambda>(packet, pos, name). length packet - pos)") auto

declare ParseQName_loop.simps [simp del]

definition ParseQName :: "bytes \<Rightarrow> nat \<Rightarrow> (string \<times> nat) option option" where
  "ParseQName packet offset = ParseQName_loop packet offset []"

text \<open>The loop of \<open>WriteQName\<close> on the rest of the name from \<open>start\<close> on.\<close>

function WriteLabels :: "string \<Rightarrow> bytes" where
  "WriteLabels s =
     (if s = [] then []
      else let label = takeWhile (\<lambda>c. c \<noteq> CHR ''.'') s
           in word_of_nat (length label) # map byte_of_char label @
              WriteLabels (drop (length label + 1) s))"
  by pat_completeness auto
termination
  by (relation "measure length") (auto simp: length_drop_Suc_less)

declare WriteLabels.simps [simp del]

definition WriteQName :: "bytes \<Rightarrow> string \<Rightarrow> bytes" where
  "WriteQName buf name = (if name = [] then buf @ [0] else buf @ WriteLabels name @ [0])"

function ReadName_loop ::
    "bytes \<Rightarrow> nat \<Rightarrow> nat \<Rightarrow> bool \<Rightarrow> string \<Rightarrow> nat \<Rightarrow> (string \<times> nat) option option" where
  "ReadName_loop packet pos jump_end jumped name depth =
     (if pos < length packet then do {
        len \<leftarrow> byte_at packet pos;
        if len = 0 then returns_true (name, if \<not> jumped then pos + 1 else jump_end)
        else if len AND 0xC0 = 0xC0 then
          if length packet \<le> pos + 1 then returns_false
          else do {
            lo \<leftarrow> byte_at packet (pos + 1);
            let ptr = (push_bit 8 (ucast (len AND 0x3F)) OR ucast lo :: u16);
            let jump_end = (if \<not> jumped then pos + 2 else jump_end);
            if 16 < depth + 1 then returns_false
            else ReadName_loop packet (unat ptr) jump_end True name (depth + 1)
          }
        else if len AND 0xC0 \<noteq> 0 then returns_false
        else if length packet < pos + 1 + unat len then returns_false
        else do {
          label \<leftarrow> slice packet (pos + 1) (unat len);
          ReadName_loop packet (pos + 1 + unat len) jump_end jumped (append_label name label) depth
        }
      }
      else returns_false)"
  by pat_completeness auto
termination
  by (relation "measures [\<lambda>(packet, pos, jump_end, jumped, name, depth). 17 - depth,
                          \<lambda>(packet, pos, jump_end, jumped, name, depth). length packet - pos]")
    auto

declare ReadName_loop.simps [simp del]

definition ReadName :: "bytes \<Rightarrow> nat \<Rightarrow> nat \<Rightarrow> (string \<times> nat) option option" where
  "ReadName packet offset depth =
     (if 16 < depth then returns_false
      else ReadName_loop packet offset offset False [] depth)"

subsection \<open>No read leaves the packet, and where a name ends\<close>

lemma ParseQName_loop_safe: "ParseQName_loop packet pos name \<noteq> None"
proof (induction packet pos name rule: ParseQName_loop.induct)
  case (1 packet pos name)
  then show ?case by (subst ParseQName_loop.simps) (auto simp: byte_at_def slice_def)
qed

lemma ReadName_loop_safe: "ReadName_loop packet pos je jumped name depth \<noteq> None"
proof (induction packet pos je jumped name depth rule: ReadName_loop.induct)
  case (1 packet pos je jumped name depth)
  then show ?case by (subst ReadName_loop.simps) (auto simp: byte_at_def slice_def Let_def)
qed

lemma ParseQName_safe [simp]: "ParseQName packet offset \<noteq> None"
  using ParseQName_loop_safe by (simp add: ParseQName_def)

lemma ReadName_safe [simp]: "ReadName packet offset depth \<noteq> None"
  using ReadName_loop_safe [of packet offset offset False "[]" depth] by (simp add: ReadName_def)

text \<open>
  A successful run of either loop is a sequence of labels (and, for \<open>ReadName\<close>, pointers)
  up to a stop: rule inductions over successful runs.
\<close>

definition plain_label :: "bytes \<Rightarrow> nat \<Rightarrow> bool" where
  "plain_label p pos \<longleftrightarrow>
     pos < length p \<and> p ! pos \<noteq> 0 \<and> p ! pos AND 0xC0 = 0 \<and> pos + 1 + unat (p ! pos) \<le> length p"

definition label_bytes :: "bytes \<Rightarrow> nat \<Rightarrow> bytes" where
  "label_bytes p pos = take (unat (p ! pos)) (drop (pos + 1) p)"

definition pointer_target :: "bytes \<Rightarrow> nat \<Rightarrow> nat" where
  "pointer_target p pos =
     unat (push_bit 8 (ucast (p ! pos AND 0x3F)) OR ucast (p ! (pos + 1)) :: u16)"

lemma ParseQName_loop_stop:
  "pos < length p \<Longrightarrow> p ! pos = 0 \<Longrightarrow> ParseQName_loop p pos name = returns_true (name, pos + 1)"
  by (subst ParseQName_loop.simps) (auto simp: byte_at_def)

lemma ParseQName_loop_label:
  "plain_label p pos \<Longrightarrow>
   ParseQName_loop p pos name =
     ParseQName_loop p (pos + 1 + unat (p ! pos)) (append_label name (label_bytes p pos))"
  by (subst ParseQName_loop.simps)
    (auto simp: plain_label_def label_bytes_def byte_at_def slice_def)

lemma ReadName_loop_stop:
  "pos < length p \<Longrightarrow> p ! pos = 0 \<Longrightarrow>
   ReadName_loop p pos je j name d = returns_true (name, if \<not> j then pos + 1 else je)"
  by (subst ReadName_loop.simps) (auto simp: byte_at_def)

lemma ReadName_loop_label:
  "plain_label p pos \<Longrightarrow>
   ReadName_loop p pos je j name d =
     ReadName_loop p (pos + 1 + unat (p ! pos)) je j (append_label name (label_bytes p pos)) d"
  by (subst ReadName_loop.simps)
    (auto simp: plain_label_def label_bytes_def byte_at_def slice_def)

lemma ParseQName_loop_cases:
  assumes "ParseQName_loop p pos name = returns_true (n, e)"
  obtains (stop) "pos < length p" "p ! pos = 0" "n = name" "e = pos + 1"
  | (label) "plain_label p pos"
      "ParseQName_loop p (pos + 1 + unat (p ! pos)) (append_label name (label_bytes p pos)) =
         returns_true (n, e)"
  | (at_end) "pos = length p" "n = name" "e = pos"
  using assms
  by (subst (asm) ParseQName_loop.simps)
    (auto simp: plain_label_def label_bytes_def byte_at_def slice_def split: if_splits)

lemma ReadName_loop_cases:
  assumes "ReadName_loop p pos je j name d = returns_true (n, e)"
  obtains (stop) "pos < length p" "p ! pos = 0" "n = name" "e = (if \<not> j then pos + 1 else je)"
  | (pointer) "pos + 1 < length p" "p ! pos AND 0xC0 = 0xC0" "p ! pos \<noteq> 0" "d < 16"
      "ReadName_loop p (pointer_target p pos) (if \<not> j then pos + 2 else je) True name (d + 1) =
         returns_true (n, e)"
  | (label) "plain_label p pos"
      "ReadName_loop p (pos + 1 + unat (p ! pos)) je j (append_label name (label_bytes p pos)) d =
         returns_true (n, e)"
  using assms
  by (subst (asm) ReadName_loop.simps)
    (auto simp: plain_label_def label_bytes_def pointer_target_def byte_at_def slice_def Let_def
      split: if_splits)

lemma ParseQName_loop_induct [consumes 1, case_names stop label at_end]:
  assumes "ParseQName_loop p pos name = returns_true (n, e)"
    and "\<And>pos name. pos < length p \<Longrightarrow> p ! pos = 0 \<Longrightarrow> P pos name name (pos + 1)"
    and "\<And>pos name n e. plain_label p pos \<Longrightarrow>
      P (pos + 1 + unat (p ! pos)) (append_label name (label_bytes p pos)) n e \<Longrightarrow> P pos name n e"
    and "\<And>pos name. pos = length p \<Longrightarrow> P pos name name pos"
  shows "P pos name n e"
  using assms(1)
proof (induction "length p - pos" arbitrary: pos name rule: less_induct)
  case less
  from less.prems show ?case
  proof (cases rule: ParseQName_loop_cases)
    case label
    then have "length p - (pos + 1 + unat (p ! pos)) < length p - pos"
      by (auto simp: plain_label_def)
    with less.hyps label assms(3) show ?thesis by blast
  qed (use assms(2,4) in auto)
qed

lemma ReadName_loop_induct [consumes 1, case_names stop pointer label]:
  assumes "ReadName_loop p pos je j name d = returns_true (n, e)"
    and "\<And>pos je j name d. pos < length p \<Longrightarrow> p ! pos = 0 \<Longrightarrow>
      P pos je j name d name (if \<not> j then pos + 1 else je)"
    and "\<And>pos je j name d n e. pos + 1 < length p \<Longrightarrow> p ! pos AND 0xC0 = 0xC0 \<Longrightarrow> p ! pos \<noteq> 0 \<Longrightarrow>
      d < 16 \<Longrightarrow> P (pointer_target p pos) (if \<not> j then pos + 2 else je) True name (d + 1) n e \<Longrightarrow>
      P pos je j name d n e"
    and "\<And>pos je j name d n e. plain_label p pos \<Longrightarrow>
      P (pos + 1 + unat (p ! pos)) je j (append_label name (label_bytes p pos)) d n e \<Longrightarrow>
      P pos je j name d n e"
  shows "P pos je j name d n e"
  using assms(1)
proof (induction "17 - d" arbitrary: pos je j name d rule: less_induct)
  case outer: less
  from outer.prems show ?case
  proof (induction "length p - pos" arbitrary: pos je j name rule: less_induct)
    case inner: less
    from inner.prems show ?case
    proof (cases rule: ReadName_loop_cases)
      case pointer
      then have "17 - (d + 1) < 17 - d" by simp
      with outer.hyps pointer assms(3) show ?thesis by blast
    next
      case label
      then have "length p - (pos + 1 + unat (p ! pos)) < length p - pos"
        by (auto simp: plain_label_def)
      with inner.hyps label assms(4) show ?thesis by blast
    qed (use assms(2) in auto)
  qed
qed

lemma ParseQName_loop_end:
  "ParseQName_loop p pos name = returns_true (n, e) \<Longrightarrow> pos \<le> e \<and> e \<le> length p"
  by (induction rule: ParseQName_loop_induct) auto

text \<open>
  \<open>skip_name\<close> is the extent of a name: its labels up to the terminator or up to the first
  compression pointer. It looks at no byte outside that extent.
\<close>

function skip_name :: "bytes \<Rightarrow> nat \<Rightarrow> nat option" where
  "skip_name p pos =
     (if pos < length p \<and> p ! pos = 0 then Some (pos + 1)
      else if pos + 1 < length p \<and> p ! pos AND 0xC0 = 0xC0 then Some (pos + 2)
      else if plain_label p pos then skip_name p (pos + 1 + unat (p ! pos))
      else None)"
  by pat_completeness auto
termination
  by (relation "measure (\<lambda>(p, pos). length p - pos)") (auto simp: plain_label_def)

declare skip_name.simps [simp del]

lemma skip_name_stop: "pos < length p \<Longrightarrow> p ! pos = 0 \<Longrightarrow> skip_name p pos = Some (pos + 1)"
  by (subst skip_name.simps) simp

lemma skip_name_pointer:
  "pos + 1 < length p \<Longrightarrow> p ! pos AND 0xC0 = 0xC0 \<Longrightarrow> skip_name p pos = Some (pos + 2)"
  by (subst skip_name.simps) auto

lemma skip_name_label: "plain_label p pos \<Longrightarrow> skip_name p pos = skip_name p (pos + 1 + unat (p ! pos))"
  by (subst skip_name.simps) (auto simp: plain_label_def)

lemma ReadName_loop_skip:
  "ReadName_loop p pos je j name d = returns_true (n, e) \<Longrightarrow>
   if j then e = je else skip_name p pos = Some e"
  by (induction rule: ReadName_loop_induct)
    (auto simp: skip_name_stop skip_name_pointer skip_name_label split: if_splits)

lemma ReadName_skip:
  "ReadName p offset d = returns_true (n, e) \<Longrightarrow> skip_name p offset = Some e"
  using ReadName_loop_skip [of p offset offset False "[]" d n e]
  by (auto simp: ReadName_def split: if_splits)

lemma skip_name_cases:
  assumes "skip_name p pos = Some e"
  obtains (stop) "pos < length p" "p ! pos = 0" "e = pos + 1"
  | (pointer) "pos + 1 < length p" "p ! pos AND 0xC0 = 0xC0" "e = pos + 2"
  | (label) "plain_label p pos" "skip_name p (pos + 1 + unat (p ! pos)) = Some e"
  using assms by (subst (asm) skip_name.simps) (auto split: if_splits)

lemma skip_name_bounds: "skip_name p pos = Some e \<Longrightarrow> pos < e \<and> e \<le> length p"
proof (induction p pos rule: skip_name.induct)
  case (1 p pos)
  from 1(2) show ?case
  proof (cases rule: skip_name_cases)
    case label
    moreover from label have "p ! pos \<noteq> 0" "p ! pos AND 0xC0 \<noteq> 0xC0"
      by (auto simp: plain_label_def)
    ultimately show ?thesis using 1(1) by auto
  qed auto
qed

lemma skip_name_frame:
  "skip_name p pos = Some e \<Longrightarrow> length q = length p \<Longrightarrow>
   (\<And>i. pos \<le> i \<Longrightarrow> i < e \<Longrightarrow> q ! i = p ! i) \<Longrightarrow> skip_name q pos = Some e"
proof (induction p pos rule: skip_name.induct)
  case (1 p pos)
  have "pos < e" using skip_name_bounds [OF 1(2)] by simp
  then have qp: "q ! pos = p ! pos" using 1(4) by simp
  from 1(2) show ?case
  proof (cases rule: skip_name_cases)
    case label
    then have "p ! pos \<noteq> 0" "p ! pos AND 0xC0 \<noteq> 0xC0" by (auto simp: plain_label_def)
    with 1(1) label 1(3,4) have "skip_name q (pos + 1 + unat (p ! pos)) = Some e" by simp
    moreover from label have "plain_label q pos" using qp 1(3) by (simp add: plain_label_def)
    ultimately show ?thesis by (simp add: skip_name_label qp)
  next
    case stop
    with qp 1(3) show ?thesis by (metis skip_name_stop)
  next
    case pointer
    with qp 1(3) show ?thesis by (metis skip_name_pointer)
  qed
qed

subsection \<open>Well-formed names survive a round trip\<close>

text \<open>A name whose labels are 1 to 63 characters long, or the empty (root) name.\<close>

definition wf_label :: "string \<Rightarrow> bool" where
  "wf_label l \<longleftrightarrow> l \<noteq> [] \<and> length l \<le> 63 \<and> CHR ''.'' \<notin> set l"

definition wf_name :: "string \<Rightarrow> bool" where
  "wf_name s \<longleftrightarrow> s = [] \<or> list_all wf_label (Split s CHR ''.'')"

definition encode_label :: "string \<Rightarrow> bytes" where
  "encode_label l = word_of_nat (length l) # map byte_of_char l"

definition encode_labels :: "string list \<Rightarrow> bytes" where
  "encode_labels ls = concat (map encode_label ls)"

lemma length_encode_label [simp]: "length (encode_label l) = Suc (length l)"
  by (simp add: encode_label_def)

lemma encode_labels_simps [simp]:
  "encode_labels [] = []"
  "encode_labels (l # ls) = encode_label l @ encode_labels ls"
  by (simp_all add: encode_labels_def)

lemma wf_name_labels:
  assumes "wf_name s" "s \<noteq> []"
  obtains ls where "ls \<noteq> []" "list_all wf_label ls" "s = join_with CHR ''.'' ls"
proof (rule that)
  show "list_all wf_label (Split s CHR ''.'')" using assms by (simp add: wf_name_def)
qed simp_all

lemma wf_name_join: "ls \<noteq> [] \<Longrightarrow> list_all wf_label ls \<Longrightarrow> wf_name (join_with CHR ''.'' ls)"
  by (auto simp: wf_name_def Split_join list_all_iff wf_label_def)

lemma WriteLabels_Nil [simp]: "WriteLabels [] = []"
  by (subst WriteLabels.simps) simp

lemma WriteLabels_join:
  "ls \<noteq> [] \<Longrightarrow> list_all wf_label ls \<Longrightarrow> WriteLabels (join_with CHR ''.'' ls) = encode_labels ls"
proof (induction ls rule: induct_list012)
  case (2 x)
  then have x: "x \<noteq> []" "CHR ''.'' \<notin> set x" by (simp_all add: wf_label_def)
  have "takeWhile (\<lambda>c. c \<noteq> CHR ''.'') x = x"
    using x by (intro takeWhile_all) auto
  then have "WriteLabels x = encode_label x @ WriteLabels []"
    using x(1) by (subst WriteLabels.simps) (simp only: Let_def encode_label_def, simp)
  then show ?case by simp
next
  case (3 x y zs)
  let ?t = "join_with CHR ''.'' (y # zs)"
  from 3 have x: "CHR ''.'' \<notin> set x" by (simp add: wf_label_def)
  have "takeWhile (\<lambda>c. c \<noteq> CHR ''.'') (x @ CHR ''.'' # ?t) = x"
    using x by (intro takeWhile_append_stop) auto
  then have "WriteLabels (x @ CHR ''.'' # ?t) = encode_label x @ WriteLabels ?t"
    by (subst WriteLabels.simps) (simp only: Let_def encode_label_def, simp)
  moreover from 3 have "WriteLabels ?t = encode_labels (y # zs)" by simp
  ultimately show ?case by (simp only: join_with.simps encode_labels_simps)
qed simp

lemma WriteQName_wf:
  assumes "wf_name s" "s \<noteq> []"
  shows "WriteQName buf s = buf @ encode_labels (Split s CHR ''.'') @ [0]"
  using assms WriteLabels_join [of "Split s CHR ''.''"] by (simp add: WriteQName_def wf_name_def)

lemma flag_bits: "(0xC0 :: byte) = NOT (mask 6)"
  by (simp add: mask_eq_exp_minus_1)

lemma length_encode_labels: "length (encode_labels ls) = sum_list (map length ls) + length ls"
  by (induction ls) auto

lemma length_WriteQName_wf: "wf_name s \<Longrightarrow> length (WriteQName [] s) \<le> length s + 2"
  using length_join_with [of "Split s CHR ''.''" "CHR ''.''"]
  by (cases "s = []") (simp add: WriteQName_def, simp add: WriteQName_wf length_encode_labels)

lemma small_byte_no_flags:
  assumes "n \<le> 63"
  shows "(word_of_nat n :: byte) AND 0xC0 = 0"
proof -
  have "n = take_bit 6 n" using assms by (simp add: take_bit_nat_eq_self)
  then have "(word_of_nat n :: byte) = take_bit 6 (word_of_nat n)"
    by (metis take_bit_of_nat)
  also have "\<dots> AND 0xC0 = 0"
    unfolding flag_bits by (rule bit_word_eqI) (auto simp: bit_simps)
  finally show ?thesis .
qed

lemma encoded_label:
  assumes "wf_label l"
  shows "plain_label (pre @ encode_label l @ rest) (length pre)"
    and "label_bytes (pre @ encode_label l @ rest) (length pre) = map byte_of_char l"
    and "unat ((pre @ encode_label l @ rest) ! length pre) = length l"
proof -
  have n: "length l < 256" "0 < length l" using assms by (auto simp: wf_label_def)
  then have u: "unat (word_of_nat (length l) :: byte) = length l" by (simp add: unat_of_nat)
  then show "unat ((pre @ encode_label l @ rest) ! length pre) = length l"
    by (simp add: encode_label_def)
  from u n have "(word_of_nat (length l) :: byte) \<noteq> 0" by (metis less_irrefl unat_0)
  with u assms show "plain_label (pre @ encode_label l @ rest) (length pre)"
    by (simp add: plain_label_def encode_label_def wf_label_def small_byte_no_flags)
  from u show "label_bytes (pre @ encode_label l @ rest) (length pre) = map byte_of_char l"
    by (simp add: label_bytes_def encode_label_def)
qed

lemma ParseQName_loop_labels:
  "list_all wf_label ls \<Longrightarrow>
   ParseQName_loop (pre @ encode_labels ls @ 0 # post) (length pre) name =
     returns_true (foldl (\<lambda>n l. append_label n (map byte_of_char l)) name ls,
                   length pre + length (encode_labels ls) + 1)"
proof (induction ls arbitrary: pre name)
  case Nil
  show ?case by (simp add: ParseQName_loop_stop)
next
  case (Cons l ls)
  then have l: "wf_label l" by simp
  note e = encoded_label [OF l, of pre "encode_labels ls @ 0 # post"]
  show ?case
    using Cons.IH [of "pre @ encode_label l" "append_label name (map byte_of_char l)"] Cons.prems
    by (simp add: ParseQName_loop_label [OF e(1)] e(2,3) add.assoc)
qed

lemma ReadName_loop_labels:
  "list_all wf_label ls \<Longrightarrow>
   ReadName_loop (pre @ encode_labels ls @ 0 # post) (length pre) je j name d =
     returns_true (foldl (\<lambda>n l. append_label n (map byte_of_char l)) name ls,
                   if \<not> j then length pre + length (encode_labels ls) + 1 else je)"
proof (induction ls arbitrary: pre name)
  case Nil
  show ?case by (simp add: ReadName_loop_stop)
next
  case (Cons l ls)
  then have l: "wf_label l" by simp
  note e = encoded_label [OF l, of pre "encode_labels ls @ 0 # post"]
  show ?case
    using Cons.IH [of "pre @ encode_label l" "append_label name (map byte_of_char l)"] Cons.prems
    by (simp add: ReadName_loop_label [OF e(1)] e(2,3) add.assoc)
qed

lemma foldl_append_label:
  "list_all wf_label ls \<Longrightarrow>
   foldl (\<lambda>n l. append_label n (map byte_of_char l)) name ls =
     (if name = [] then join_with CHR ''.'' ls else join_with CHR ''.'' (name # ls))"
proof (induction ls arbitrary: name)
  case (Cons l ls)
  let ?n = "append_label name (map byte_of_char l)"
  have n: "?n = (if name = [] then l else name @ CHR ''.'' # l)" by (simp add: append_label_def)
  have "l \<noteq> []" using Cons.prems by (simp add: wf_label_def)
  with n have "?n \<noteq> []" by auto
  with Cons have "foldl (\<lambda>n l. append_label n (map byte_of_char l)) name (l # ls) =
    join_with CHR ''.'' (?n # ls)" by simp
  also have "\<dots> = (if name = [] then join_with CHR ''.'' (l # ls) else join_with CHR ''.'' (name # l # ls))"
    by (cases ls) (simp_all add: n)
  finally show ?case .
qed simp

lemma ParseQName_WriteQName:
  assumes "wf_name s"
  shows "ParseQName (WriteQName buf s @ post) (length buf) =
    returns_true (s, length (WriteQName buf s))"
proof (cases "s = []")
  case True
  then show ?thesis by (simp add: ParseQName_def WriteQName_def ParseQName_loop_stop)
next
  case False
  with assms have "list_all wf_label (Split s CHR ''.'')" by (simp add: wf_name_def)
  then show ?thesis
    using ParseQName_loop_labels [of "Split s CHR ''.''" buf post "[]"]
    by (simp add: ParseQName_def WriteQName_wf [OF assms False] foldl_append_label)
qed

lemma ReadName_WriteQName:
  assumes "wf_name s"
  shows "ReadName (WriteQName buf s @ post) (length buf) 0 =
    returns_true (s, length (WriteQName buf s))"
proof (cases "s = []")
  case True
  then show ?thesis by (simp add: ReadName_def WriteQName_def ReadName_loop_stop)
next
  case False
  with assms have "list_all wf_label (Split s CHR ''.'')" by (simp add: wf_name_def)
  then show ?thesis
    using ReadName_loop_labels [of "Split s CHR ''.''" buf post "length buf" False "[]" 0]
    by (simp add: ReadName_def WriteQName_wf [OF assms False] foldl_append_label)
qed

end
