(* ===== verification/Dns_Packet.thy ===== *)
theory Dns_Packet
  imports Dns_Wire
begin

text \<open>
  The packet operations of \<open>src/dns_packet.cpp\<close> other than rebind protection: parsing a
  query, building the responses (empty, A, AAAA, CNAME, PTR, TXT, MX), patching the
  transaction id, and finding the first PTR target.

  \<open>inet_pton\<close> is a POSIX call: the address builders take its two uses as parameters
  (\<open>pton4\<close>, \<open>pton6\<close>), \<open>None\<close> standing for a return value other than 1.

  The abstract view is \<open>encode_response\<close> (a response is the header, the question and the
  encoded answers) and \<open>record_layout\<close> (the type, the rdata offset and the rdata length of
  every resource record of a packet).
\<close>

subsection \<open>Headers and questions\<close>

record DnsHeader =
  hdr_id :: u16
  hdr_flags :: u16
  hdr_qdcount :: u16
  hdr_ancount :: u16
  hdr_nscount :: u16
  hdr_arcount :: u16

record DnsQuestion =
  qname :: string
  qtype :: u16
  qclass :: u16
  raw_offset :: nat
  raw_length :: nat

definition ReadHeader :: "bytes \<Rightarrow> DnsHeader option" where
  "ReadHeader packet = do {
     i \<leftarrow> ReadU16 packet 0;
     f \<leftarrow> ReadU16 packet 2;
     qd \<leftarrow> ReadU16 packet 4;
     an \<leftarrow> ReadU16 packet 6;
     ns \<leftarrow> ReadU16 packet 8;
     ar \<leftarrow> ReadU16 packet 10;
     Some \<lparr>hdr_id = i, hdr_flags = f, hdr_qdcount = qd, hdr_ancount = an, hdr_nscount = ns,
           hdr_arcount = ar\<rparr>
   }"

text \<open>\<open>ParseDnsQuery\<close> as the server calls it, with both output parameters non-null.\<close>

definition ParseDnsQuery :: "bytes \<Rightarrow> (DnsHeader \<times> DnsQuestion) option option" where
  "ParseDnsQuery packet =
     (if length packet < 12 then returns_false
      else do {
        header \<leftarrow> ReadHeader packet;
        qd \<leftarrow> ReadU16 packet 4;
        if qd = 0 then returns_false
        else do {
          r \<leftarrow> ParseQName packet 12;
          case r of
            None \<Rightarrow> returns_false
          | Some (name, end_offset) \<Rightarrow>
              if length packet < end_offset + 4 then returns_false
              else do {
                t \<leftarrow> ReadU16 packet end_offset;
                c \<leftarrow> ReadU16 packet (end_offset + 2);
                returns_true (header,
                  \<lparr>qname = name, qtype = t, qclass = c, raw_offset = 12,
                   raw_length = (end_offset + 4) - 12\<rparr>)
              }
        }
      })"

subsection \<open>Building responses\<close>

definition ResponseFlags :: "DnsHeader \<Rightarrow> u16" where
  "ResponseFlags query_header =
     (0x8000 OR (hdr_flags query_header AND 0x0100)) OR 0x0080"

definition BuildResponseHeader :: "DnsHeader \<Rightarrow> u16 \<Rightarrow> u16 \<Rightarrow> bytes" where
  "BuildResponseHeader query_header qd an =
     WriteU16 (WriteU16 (WriteU16 (WriteU16 (WriteU16 (WriteU16 []
       (hdr_id query_header)) (ResponseFlags query_header)) qd) an) 0) 0"

definition AppendQuestion :: "bytes \<Rightarrow> DnsQuestion \<Rightarrow> bytes" where
  "AppendQuestion buf question =
     WriteU16 (WriteU16 (WriteQName buf (qname question)) (qtype question)) (qclass question)"

definition BuildEmptyResponse :: "DnsHeader \<Rightarrow> DnsQuestion \<Rightarrow> bytes" where
  "BuildEmptyResponse query_header question =
     AppendQuestion (BuildResponseHeader query_header 1 0) question"

definition BuildAResponse ::
    "(string \<Rightarrow> bytes option) \<Rightarrow> DnsHeader \<Rightarrow> DnsQuestion \<Rightarrow> string \<Rightarrow> bytes" where
  "BuildAResponse pton4 query_header question ipv4 =
     (let buf = BuildResponseHeader query_header 1 1;
          buf = AppendQuestion buf question;
          buf = WriteQName buf (qname question);
          buf = WriteU16 buf DNS_TYPE_A;
          buf = WriteU16 buf 1;
          buf = WriteU32 buf 60;
          buf = WriteU16 buf 4;
          addr = (case pton4 ipv4 of Some a \<Rightarrow> a | None \<Rightarrow> replicate 4 0)
      in buf @ addr)"

definition BuildAAAAResponse ::
    "(string \<Rightarrow> bytes option) \<Rightarrow> DnsHeader \<Rightarrow> DnsQuestion \<Rightarrow> string \<Rightarrow> bytes" where
  "BuildAAAAResponse pton6 query_header question ipv6 =
     (let buf = BuildResponseHeader query_header 1 1;
          buf = AppendQuestion buf question;
          buf = WriteQName buf (qname question);
          buf = WriteU16 buf DNS_TYPE_AAAA;
          buf = WriteU16 buf 1;
          buf = WriteU32 buf 60;
          buf = WriteU16 buf 16;
          addr = (case pton6 ipv6 of Some a \<Rightarrow> a | None \<Rightarrow> replicate 16 0)
      in buf @ addr)"

definition BuildCNAMEResponse :: "DnsHeader \<Rightarrow> DnsQuestion \<Rightarrow> string \<Rightarrow> bytes" where
  "BuildCNAMEResponse query_header question target =
     (let buf = BuildResponseHeader query_header 1 1;
          buf = AppendQuestion buf question;
          buf = WriteQName buf (qname question);
          buf = WriteU16 buf DNS_TYPE_CNAME;
          buf = WriteU16 buf 1;
          buf = WriteU32 buf 60;
          cname = WriteQName [] target;
          buf = WriteU16 buf (word_of_nat (length cname))
      in buf @ cname)"

definition BuildPTRResponse :: "DnsHeader \<Rightarrow> DnsQuestion \<Rightarrow> string \<Rightarrow> bytes" where
  "BuildPTRResponse query_header question target =
     (let buf = BuildResponseHeader query_header 1 1;
          buf = AppendQuestion buf question;
          buf = WriteQName buf (qname question);
          buf = WriteU16 buf DNS_TYPE_PTR;
          buf = WriteU16 buf 1;
          buf = WriteU32 buf 60;
          ptr = WriteQName [] target;
          buf = WriteU16 buf (word_of_nat (length ptr))
      in buf @ ptr)"

text \<open>The chunk loop of \<open>BuildTXTResponse\<close>, on the text from \<open>offset\<close> on.\<close>

function txt_chunks :: "string \<Rightarrow> bytes" where
  "txt_chunks text =
     (if text = [] then []
      else let chunk = (if 255 < length text then 255 else length text)
           in word_of_nat chunk # map byte_of_char (take chunk text) @ txt_chunks (drop chunk text))"
  by pat_completeness auto
termination
  by (relation "measure length") auto

declare txt_chunks.simps [simp del]

definition BuildTXTResponse :: "DnsHeader \<Rightarrow> DnsQuestion \<Rightarrow> string \<Rightarrow> bytes" where
  "BuildTXTResponse query_header question text =
     (let buf = BuildResponseHeader query_header 1 1;
          buf = AppendQuestion buf question;
          buf = WriteQName buf (qname question);
          buf = WriteU16 buf DNS_TYPE_TXT;
          buf = WriteU16 buf 1;
          buf = WriteU32 buf 60;
          rdata = (if text = [] then [0] else txt_chunks text);
          buf = WriteU16 buf (word_of_nat (length rdata))
      in buf @ rdata)"

definition BuildMXResponse :: "DnsHeader \<Rightarrow> DnsQuestion \<Rightarrow> u16 \<Rightarrow> string \<Rightarrow> bytes" where
  "BuildMXResponse query_header question preference exchange =
     (let buf = BuildResponseHeader query_header 1 1;
          buf = AppendQuestion buf question;
          buf = WriteQName buf (qname question);
          buf = WriteU16 buf DNS_TYPE_MX;
          buf = WriteU16 buf 1;
          buf = WriteU32 buf 60;
          rdata = WriteU16 [] preference;
          rdata = WriteQName rdata exchange;
          buf = WriteU16 buf (word_of_nat (length rdata))
      in buf @ rdata)"

definition PatchResponseId :: "bytes \<Rightarrow> u16 \<Rightarrow> bytes" where
  "PatchResponseId packet i =
     (if length packet < 2 then packet
      else packet[0 := ucast (drop_bit 8 i AND 0xFF), 1 := ucast (i AND 0xFF)])"

subsection \<open>Walking a packet\<close>

text \<open>
  The question loop that \<open>ExtractFirstPtrTarget\<close> and \<open>RewritePrivateARecordsToZero\<close>
  share: the offset after \<open>n\<close> questions.
\<close>

fun skip_questions :: "bytes \<Rightarrow> nat \<Rightarrow> nat \<Rightarrow> nat option option" where
  "skip_questions packet offset 0 = returns_true offset"
| "skip_questions packet offset (Suc n) = do {
     r \<leftarrow> ReadName packet offset 0;
     case r of
       None \<Rightarrow> returns_false
     | Some (name, end_offset) \<Rightarrow>
         if length packet < end_offset + 4 then returns_false
         else skip_questions packet (end_offset + 4) n
   }"

fun find_ptr :: "bytes \<Rightarrow> nat \<Rightarrow> nat \<Rightarrow> string option option" where
  "find_ptr packet offset 0 = returns_false"
| "find_ptr packet offset (Suc n) = do {
     r \<leftarrow> ReadName packet offset 0;
     case r of
       None \<Rightarrow> returns_false
     | Some (name, end_offset) \<Rightarrow>
         if length packet < end_offset + 10 then returns_false
         else do {
           t \<leftarrow> ReadU16 packet end_offset;
           rdlength \<leftarrow> ReadU16 packet (end_offset + 8);
           let rdata_offset = end_offset + 10;
           if length packet < rdata_offset + unat rdlength then returns_false
           else if t = DNS_TYPE_PTR then do {
             rt \<leftarrow> ReadName packet rdata_offset 0;
             case rt of
               None \<Rightarrow> returns_false
             | Some (target, r_end) \<Rightarrow> returns_true target
           }
           else find_ptr packet (rdata_offset + unat rdlength) n
         }
   }"

definition ExtractFirstPtrTarget :: "bytes \<Rightarrow> string option option" where
  "ExtractFirstPtrTarget packet =
     (if length packet < 12 then returns_false
      else do {
        qd \<leftarrow> ReadU16 packet 4;
        an \<leftarrow> ReadU16 packet 6;
        r \<leftarrow> skip_questions packet 12 (unat qd);
        case r of
          None \<Rightarrow> returns_false
        | Some offset \<Rightarrow> find_ptr packet offset (unat an)
      })"

subsection \<open>Memory safety\<close>

lemma ReadHeader_safe [simp]: "ReadHeader packet = None \<longleftrightarrow> length packet < 12"
  by (auto simp: ReadHeader_def ReadU16_def byte_at_def)

lemma ParseDnsQuery_safe [simp]: "ParseDnsQuery packet \<noteq> None"
  by (auto simp: ParseDnsQuery_def simp del: not_None_eq split: Option.bind_split option.split)

lemma skip_questions_safe [simp]: "skip_questions packet offset n \<noteq> None"
  by (induction n arbitrary: offset) (auto split: Option.bind_split option.split)

lemma find_ptr_safe [simp]: "find_ptr packet offset n \<noteq> None"
  by (induction n arbitrary: offset)
    (auto simp: Let_def simp del: not_None_eq split: Option.bind_split option.split)

lemma ExtractFirstPtrTarget_safe [simp]: "ExtractFirstPtrTarget packet \<noteq> None"
  by (auto simp: ExtractFirstPtrTarget_def simp del: not_None_eq
      split: Option.bind_split option.split)

end
