(* ===== verification/Dns_Layout.thy ===== *)
theory Dns_Layout
  imports Dns_Packet
begin

text \<open>
  The abstract view of packets. \<open>encode_response\<close> is the shape every builder of
  \<open>src/dns_packet.cpp\<close> produces; \<open>record_layout\<close> lists the type, the rdata offset and the
  rdata length of every resource record of a packet, reading only the bytes that delimit the
  records. The lemmas relate the builders and the packet walks to these two.
\<close>

subsection \<open>The shape of a response\<close>

definition encode_question :: "DnsQuestion \<Rightarrow> bytes" where
  "encode_question q =
     WriteQName [] (qname q) @ WriteU16 [] (qtype q) @ WriteU16 [] (qclass q)"

definition encode_rr :: "string \<Rightarrow> u16 \<Rightarrow> bytes \<Rightarrow> bytes" where
  "encode_rr owner t rdata =
     WriteQName [] owner @ WriteU16 [] t @ WriteU16 [] 1 @ WriteU32 [] 60 @
     WriteU16 [] (word_of_nat (length rdata)) @ rdata"

definition encode_response :: "DnsHeader \<Rightarrow> DnsQuestion \<Rightarrow> u16 \<Rightarrow> bytes \<Rightarrow> bytes" where
  "encode_response h q an body = BuildResponseHeader h 1 an @ encode_question q @ body"

definition response_header :: "DnsHeader \<Rightarrow> u16 \<Rightarrow> DnsHeader" where
  "response_header h an =
     \<lparr>hdr_id = hdr_id h, hdr_flags = ResponseFlags h, hdr_qdcount = 1, hdr_ancount = an,
      hdr_nscount = 0, hdr_arcount = 0\<rparr>"

lemma WriteQName_append: "WriteQName buf s = buf @ WriteQName [] s"
  by (simp add: WriteQName_def)

lemma length_WriteQName_ge: "0 < length (WriteQName [] s)"
  by (simp add: WriteQName_def)

lemma AppendQuestion_eq: "AppendQuestion buf q = buf @ encode_question q"
  by (simp add: AppendQuestion_def encode_question_def WriteU16_def WriteQName_append [of buf])

lemma BuildEmptyResponse_eq: "BuildEmptyResponse h q = encode_response h q 0 []"
  by (simp add: BuildEmptyResponse_def encode_response_def AppendQuestion_eq)

lemmas builder_defs =
  BuildAResponse_def BuildAAAAResponse_def BuildCNAMEResponse_def BuildPTRResponse_def
  BuildTXTResponse_def BuildMXResponse_def

lemma answer_shape:
  "WriteU16 (WriteU32 (WriteU16 (WriteU16 (WriteQName (AppendQuestion (BuildResponseHeader h 1 1) q)
     (qname q)) t) 1) 60) (word_of_nat (length rdata)) @ rdata =
   encode_response h q 1 (encode_rr (qname q) t rdata)"
  by (simp add: encode_response_def encode_rr_def AppendQuestion_eq WriteU16_def WriteU32_def
      WriteQName_append [of "BuildResponseHeader h 1 1 @ encode_question q"])

definition address_bytes :: "nat \<Rightarrow> bytes option \<Rightarrow> bytes" where
  "address_bytes n a = (case a of Some b \<Rightarrow> b | None \<Rightarrow> replicate n 0)"

text \<open>What POSIX documents of \<open>inet_pton\<close>: on success it writes an address of fixed size.\<close>

definition pton_writes :: "nat \<Rightarrow> (string \<Rightarrow> bytes option) \<Rightarrow> bool" where
  "pton_writes n pton \<longleftrightarrow> (\<forall>s a. pton s = Some a \<longrightarrow> length a = n)"

lemma length_address_bytes [simp]:
  "pton_writes n pton \<Longrightarrow> length (address_bytes n (pton s)) = n"
  by (auto simp: address_bytes_def pton_writes_def split: option.splits)

lemma BuildAResponse_eq:
  "pton_writes 4 pton4 \<Longrightarrow> BuildAResponse pton4 h q s =
     encode_response h q 1 (encode_rr (qname q) DNS_TYPE_A (address_bytes 4 (pton4 s)))"
  using answer_shape [of h q DNS_TYPE_A "address_bytes 4 (pton4 s)"]
  by (simp add: BuildAResponse_def address_bytes_def [symmetric])

lemma BuildAAAAResponse_eq:
  "pton_writes 16 pton6 \<Longrightarrow> BuildAAAAResponse pton6 h q s =
     encode_response h q 1 (encode_rr (qname q) DNS_TYPE_AAAA (address_bytes 16 (pton6 s)))"
  using answer_shape [of h q DNS_TYPE_AAAA "address_bytes 16 (pton6 s)"]
  by (simp add: BuildAAAAResponse_def address_bytes_def [symmetric])

lemma BuildCNAMEResponse_eq:
  "BuildCNAMEResponse h q s =
     encode_response h q 1 (encode_rr (qname q) DNS_TYPE_CNAME (WriteQName [] s))"
  by (simp add: BuildCNAMEResponse_def Let_def answer_shape)

lemma BuildPTRResponse_eq:
  "BuildPTRResponse h q s =
     encode_response h q 1 (encode_rr (qname q) DNS_TYPE_PTR (WriteQName [] s))"
  by (simp add: BuildPTRResponse_def Let_def answer_shape)

lemma BuildTXTResponse_eq:
  "BuildTXTResponse h q s =
     encode_response h q 1
       (encode_rr (qname q) DNS_TYPE_TXT (if s = [] then [0] else txt_chunks s))"
  by (simp only: BuildTXTResponse_def Let_def answer_shape)

lemma BuildMXResponse_eq:
  "BuildMXResponse h q pref s =
     encode_response h q 1
       (encode_rr (qname q) DNS_TYPE_MX (WriteU16 [] pref @ WriteQName [] s))"
  by (simp only: BuildMXResponse_def Let_def answer_shape WriteQName_append [of "WriteU16 [] pref"])

lemmas builder_eqs =
  BuildEmptyResponse_eq BuildAResponse_eq BuildAAAAResponse_eq BuildCNAMEResponse_eq
  BuildPTRResponse_eq BuildTXTResponse_eq BuildMXResponse_eq

subsection \<open>Reading a response back\<close>

lemma length_BuildResponseHeader [simp]: "length (BuildResponseHeader h qd an) = 12"
  by (simp add: BuildResponseHeader_def)

lemma header_fields [simp]:
  "ReadU16 (BuildResponseHeader h qd an @ rest) 0 = Some (hdr_id h)"
  "ReadU16 (BuildResponseHeader h qd an @ rest) 2 = Some (ResponseFlags h)"
  "ReadU16 (BuildResponseHeader h qd an @ rest) 4 = Some qd"
  "ReadU16 (BuildResponseHeader h qd an @ rest) 6 = Some an"
  "ReadU16 (BuildResponseHeader h qd an @ rest) 8 = Some 0"
  "ReadU16 (BuildResponseHeader h qd an @ rest) 10 = Some 0"
  by (simp_all add: BuildResponseHeader_def WriteU16_def ReadU16_def byte_at_def u16_split_join)

lemma ReadHeader_response [simp]:
  "ReadHeader (BuildResponseHeader h 1 an @ rest) = Some (response_header h an)"
  by (simp add: ReadHeader_def response_header_def)

lemma ParseQName_after:
  assumes "wf_name s"
  shows "ParseQName (pre @ WriteQName [] s @ post) (length pre) =
    returns_true (s, length pre + length (WriteQName [] s))"
  using ParseQName_WriteQName [OF assms, of pre post] by (simp add: WriteQName_append [of pre])

lemma ReadName_after:
  assumes "wf_name s"
  shows "ReadName (pre @ WriteQName [] s @ post) (length pre) 0 =
    returns_true (s, length pre + length (WriteQName [] s))"
  using ReadName_WriteQName [OF assms, of pre post] by (simp add: WriteQName_append [of pre])

lemma ReadU16_after:
  "ReadU16 (pre @ WriteU16 [] v @ post) (length pre) = Some v"
  using ReadU16_WriteU16 [of pre v post] by (simp add: WriteU16_def)

lemma ReadU16_after2:
  "length (pre :: bytes) = n \<Longrightarrow> ReadU16 (pre @ WriteU16 [] v @ post) n = Some v"
  using ReadU16_after by blast

lemma ParseDnsQuery_response:
  assumes "wf_name (qname q)"
  shows "ParseDnsQuery (encode_response h q an body) =
    returns_true (response_header h an,
      q\<lparr>raw_offset := 12, raw_length := length (encode_question q)\<rparr>)"
proof -
  let ?H = "BuildResponseHeader h 1 an" and ?N = "WriteQName [] (qname q)"
  let ?p = "encode_response h q an body"
  have p: "?p = ?H @ ?N @ WriteU16 [] (qtype q) @ WriteU16 [] (qclass q) @ body"
    by (simp add: encode_response_def encode_question_def)
  have "ParseQName ?p 12 = returns_true (qname q, 12 + length ?N)"
    using ParseQName_after [OF assms, of ?H] by (simp add: p)
  moreover have "ReadU16 ?p (12 + length ?N) = Some (qtype q)"
    using ReadU16_after [of "?H @ ?N" "qtype q"] by (simp add: p)
  moreover have "ReadU16 ?p (12 + length ?N + 2) = Some (qclass q)"
    using ReadU16_after [of "?H @ ?N @ WriteU16 [] (qtype q)" "qclass q"] by (simp add: p)
  moreover have "ReadU16 ?p 4 = Some 1" "ReadHeader ?p = Some (response_header h an)"
    by (simp_all add: p)
  moreover have "length ?p = 12 + length ?N + 4 + length body" by (simp add: p)
  ultimately show ?thesis
    by (simp add: ParseDnsQuery_def encode_question_def)
qed

subsection \<open>The records of a packet\<close>

definition u16_at :: "bytes \<Rightarrow> nat \<Rightarrow> u16" where
  "u16_at p i = push_bit 8 (ucast (p ! i)) OR ucast (p ! (i + 1))"

lemma ReadU16_u16_at [in_bounds]: "i + 1 < length p \<Longrightarrow> ReadU16 p i = Some (u16_at p i)"
  by (simp add: ReadU16_def byte_at_def u16_at_def)

lemma ReadU16_SomeD: "ReadU16 p i = Some v \<Longrightarrow> v = u16_at p i \<and> i + 1 < length p"
  by (auto simp: ReadU16_def byte_at_def u16_at_def split: if_splits)

fun question_end :: "bytes \<Rightarrow> nat \<Rightarrow> nat \<Rightarrow> nat option" where
  "question_end p off 0 = Some off"
| "question_end p off (Suc n) =
     (case skip_name p off of
        None \<Rightarrow> None
      | Some e \<Rightarrow> if length p < e + 4 then None else question_end p (e + 4) n)"

fun layout_from :: "bytes \<Rightarrow> nat \<Rightarrow> nat \<Rightarrow> (u16 \<times> nat \<times> nat) list option" where
  "layout_from p off 0 = Some []"
| "layout_from p off (Suc n) =
     (case skip_name p off of
        None \<Rightarrow> None
      | Some e \<Rightarrow>
          if length p < e + 10 then None
          else let len = unat (u16_at p (e + 8)) in
            if length p < e + 10 + len then None
            else map_option (Cons (u16_at p e, e + 10, len)) (layout_from p (e + 10 + len) n))"

definition record_count :: "bytes \<Rightarrow> nat" where
  "record_count p = unat (u16_at p 6) + unat (u16_at p 8) + unat (u16_at p 10)"

definition record_layout :: "bytes \<Rightarrow> (u16 \<times> nat \<times> nat) list option" where
  "record_layout p =
     (if length p < 12 then None
      else case question_end p 12 (unat (u16_at p 4)) of
        None \<Rightarrow> None
      | Some off \<Rightarrow> layout_from p off (record_count p))"

lemma skip_questions_end:
  "skip_questions p off n = returns_true e \<Longrightarrow> question_end p off n = Some e"
  by (induction n arbitrary: off)
    (auto dest: ReadName_skip split: option.splits if_splits prod.splits Option.bind_splits)

lemma skip_name_after:
  "wf_name s \<Longrightarrow> skip_name (pre @ WriteQName [] s @ post) (length pre) =
     Some (length pre + length (WriteQName [] s))"
  by (rule ReadName_skip [OF ReadName_after])

lemma record_layout_response:
  assumes "wf_name (qname q)" "wf_name owner" "length rdata < 65536"
  shows "record_layout (encode_response h q 1 (encode_rr owner t rdata)) =
    Some [(t, 12 + length (encode_question q) + length (WriteQName [] owner) + 10, length rdata)]"
proof -
  let ?H = "BuildResponseHeader h 1 1" and ?N = "WriteQName [] (qname q)"
  let ?Q = "encode_question q" and ?O = "WriteQName [] owner"
  let ?p = "encode_response h q 1 (encode_rr owner t rdata)"
  have p: "?p = ?H @ ?Q @ ?O @ WriteU16 [] t @ WriteU16 [] 1 @ WriteU32 [] 60 @
      WriteU16 [] (word_of_nat (length rdata)) @ rdata"
    by (simp add: encode_response_def encode_rr_def)
  have len: "length ?p = 12 + length ?Q + length ?O + 10 + length rdata" by (simp add: p)
  have "skip_name ?p 12 = Some (12 + length ?N)"
    using skip_name_after [OF assms(1), of ?H] by (simp add: p encode_question_def)
  then have q: "question_end ?p 12 1 = Some (12 + length ?Q)"
    by (simp add: len encode_question_def)
  have o: "skip_name ?p (12 + length ?Q) = Some (12 + length ?Q + length ?O)"
    using skip_name_after [OF assms(2), of "?H @ ?Q"] by (simp add: p)
  have "ReadU16 ?p (12 + length ?Q + length ?O) = Some t"
    using ReadU16_after [of "?H @ ?Q @ ?O" t] by (simp add: p add.assoc)
  then have t: "u16_at ?p (12 + length ?Q + length ?O) = t" by (auto dest: ReadU16_SomeD)
  have "ReadU16 ?p (12 + length ?Q + length ?O + 8) = Some (word_of_nat (length rdata))"
    using ReadU16_after [of "?H @ ?Q @ ?O @ WriteU16 [] t @ WriteU16 [] 1 @ WriteU32 [] 60"]
    by (simp add: p add.assoc)
  then have n: "unat (u16_at ?p (12 + length ?Q + length ?O + 8)) = length rdata"
    using assms(3) by (auto dest!: ReadU16_SomeD [THEN conjunct1, symmetric] simp: unat_of_nat)
  have c: "u16_at ?p 4 = 1" "u16_at ?p 6 = 1" "u16_at ?p 8 = 0" "u16_at ?p 10 = 0"
    using header_fields(3-6) [of h 1 1, THEN ReadU16_SomeD] by (simp_all add: p)
  show ?thesis
    using q o t n c len by (simp add: record_layout_def record_count_def Let_def)
qed

lemma response_rdata:
  "slice (encode_response h q 1 (encode_rr owner t rdata))
     (12 + length (encode_question q) + length (WriteQName [] owner) + 10) (length rdata) = Some rdata"
  by (simp add: slice_def encode_response_def encode_rr_def)

end
