(* ===== verification/Dns_Rebind.thy ===== *)
theory Dns_Rebind
  imports Dns_Layout
begin

text \<open>
  Rebind protection (\<open>IsPrivateIPv4\<close> and \<open>RewritePrivateARecordsToZero\<close> of
  \<open>src/dns_packet.cpp\<close>). The code walks the packet and zeroes private addresses in place
  while it walks, so later names are read from the already modified packet. The
  specification \<open>scrub\<close> zeroes the private addresses of a list of records; the lemmas show
  that a successful run scrubs exactly the records of the packet's layout, keeps that layout,
  and leaves no private address behind.
\<close>

subsection \<open>The code\<close>

text \<open>\<open>addr\<close> is the address of byte \<open>off\<close> of the packet.\<close>

definition IsPrivateIPv4 :: "bytes \<Rightarrow> nat \<Rightarrow> bool option" where
  "IsPrivateIPv4 packet off = do {
     a0 \<leftarrow> byte_at packet off;
     a1 \<leftarrow> byte_at packet (off + 1);
     if a0 = 10 then Some True
     else if a0 = 192 \<and> a1 = 168 then Some True
     else if a0 = 172 \<and> 16 \<le> a1 \<and> a1 \<le> 31 then Some True
     else Some False
   }"

definition zero_address :: "bytes \<Rightarrow> nat \<Rightarrow> bytes" where
  "zero_address packet off =
     packet[off := 0, off + 1 := 0, off + 2 := 0, off + 3 := 0]"

text \<open>The record loop: the result of the function, the packet, and \<open>replaced\<close>.\<close>

fun rewrite_records :: "bytes \<Rightarrow> nat \<Rightarrow> nat \<Rightarrow> bool \<Rightarrow> (bool \<times> bytes \<times> bool) option" where
  "rewrite_records packet offset 0 replaced = Some (True, packet, replaced)"
| "rewrite_records packet offset (Suc n) replaced = do {
     r \<leftarrow> ReadName packet offset 0;
     case r of
       None \<Rightarrow> Some (False, packet, replaced)
     | Some (name, end_offset) \<Rightarrow>
         if length packet < end_offset + 10 then Some (False, packet, replaced)
         else do {
           t \<leftarrow> ReadU16 packet end_offset;
           rdlength \<leftarrow> ReadU16 packet (end_offset + 8);
           let rdata_offset = end_offset + 10;
           if length packet < rdata_offset + unat rdlength then Some (False, packet, replaced)
           else if t = DNS_TYPE_A \<and> rdlength = 4 then do {
             private \<leftarrow> IsPrivateIPv4 packet rdata_offset;
             if private
             then rewrite_records (zero_address packet rdata_offset)
                    (rdata_offset + unat rdlength) n True
             else rewrite_records packet (rdata_offset + unat rdlength) n replaced
           }
           else rewrite_records packet (rdata_offset + unat rdlength) n replaced
         }
   }"

text \<open>\<open>rewritten\<close> is the caller's flag, which only a successful run overwrites.\<close>

definition RewritePrivateARecordsToZero :: "bytes \<Rightarrow> bool \<Rightarrow> (bool \<times> bytes \<times> bool) option" where
  "RewritePrivateARecordsToZero packet rewritten =
     (if length packet < 12 then Some (False, packet, rewritten)
      else do {
        qd \<leftarrow> ReadU16 packet 4;
        an \<leftarrow> ReadU16 packet 6;
        ns \<leftarrow> ReadU16 packet 8;
        ar \<leftarrow> ReadU16 packet 10;
        q \<leftarrow> skip_questions packet 12 (unat qd);
        case q of
          None \<Rightarrow> Some (False, packet, rewritten)
        | Some offset \<Rightarrow> do {
            (ok, packet', replaced) \<leftarrow>
              rewrite_records packet offset (unat an + unat ns + unat ar) False;
            Some (ok, packet', if ok then replaced else rewritten)
          }
      })"

subsection \<open>The specification\<close>

definition private_at :: "bytes \<Rightarrow> nat \<Rightarrow> bool" where
  "private_at p off \<longleftrightarrow>
     p ! off = 10 \<or> (p ! off = 192 \<and> p ! (off + 1) = 168) \<or>
     (p ! off = 172 \<and> 16 \<le> p ! (off + 1) \<and> p ! (off + 1) \<le> 31)"

definition is_address :: "u16 \<times> nat \<times> nat \<Rightarrow> bool" where
  "is_address r \<longleftrightarrow> fst r = DNS_TYPE_A \<and> snd (snd r) = 4"

definition private_record :: "bytes \<Rightarrow> u16 \<times> nat \<times> nat \<Rightarrow> bool" where
  "private_record p r \<longleftrightarrow> is_address r \<and> private_at p (fst (snd r))"

fun scrub :: "bytes \<Rightarrow> (u16 \<times> nat \<times> nat) list \<Rightarrow> bytes" where
  "scrub p [] = p"
| "scrub p (r # rs) = scrub (if private_record p r then zero_address p (fst (snd r)) else p) rs"

subsection \<open>Reads stay inside the packet\<close>

lemma IsPrivateIPv4_eq [in_bounds]:
  "off + 1 < length p \<Longrightarrow> IsPrivateIPv4 p off = Some (private_at p off)"
  by (simp add: IsPrivateIPv4_def byte_at_def private_at_def)

lemma length_zero_address [simp]: "length (zero_address p off) = length p"
  by (simp add: zero_address_def)

lemma zero_address_nth:
  "i < length p \<Longrightarrow> zero_address p off ! i = (if off \<le> i \<and> i < off + 4 then 0 else p ! i)"
proof (cases "off \<le> i \<and> i < off + 4")
  case True
  assume "i < length p"
  from True have "i = off \<or> i = off + 1 \<or> i = off + 2 \<or> i = off + 3" by arith
  with True \<open>i < length p\<close> show ?thesis
    by (elim disjE) (simp_all add: zero_address_def nth_list_update)
qed (auto simp: zero_address_def nth_list_update)

lemma rewrite_records_safe [simp]: "rewrite_records p offset n w \<noteq> None"
proof (induction n arbitrary: p offset w)
  case (Suc n)
  then show ?case
    by (auto simp: Let_def IsPrivateIPv4_eq simp del: not_None_eq
        split: Option.bind_split option.split)
qed simp

lemma RewritePrivateARecordsToZero_safe [simp]: "RewritePrivateARecordsToZero p w \<noteq> None"
  by (auto simp: RewritePrivateARecordsToZero_def simp del: not_None_eq
      split: Option.bind_split option.split)

subsection \<open>A run follows the layout\<close>

lemma layout_from_frame:
  "length q = length p \<Longrightarrow> (\<And>i. off \<le> i \<Longrightarrow> i < length p \<Longrightarrow> q ! i = p ! i) \<Longrightarrow>
   layout_from p off n = Some rs \<Longrightarrow> layout_from q off n = Some rs"
proof (induction n arbitrary: off rs)
  case (Suc n)
  from Suc.prems(3) obtain e where e: "skip_name p off = Some e" "e + 10 \<le> length p"
    by (auto split: option.splits if_splits)
  then have b: "off < e" using skip_name_bounds by blast
  have "skip_name q off = Some e"
    using e b Suc.prems(1,2) by (intro skip_name_frame [OF e(1)]) auto
  moreover have "u16_at q e = u16_at p e" "u16_at q (e + 8) = u16_at p (e + 8)"
    using e b Suc.prems(1,2) by (simp_all add: u16_at_def)
  ultimately show ?case
    using Suc e b by (auto simp: Let_def split: if_splits)
qed simp

text \<open>One step of the layout, with the bounds that make its reads defined.\<close>

lemma layout_from_SucE:
  assumes "layout_from p off (Suc n) = Some rs"
  obtains e rs' where "skip_name p off = Some e" "off < e"
    "e + 10 + unat (u16_at p (e + 8)) \<le> length p"
    "layout_from p (e + 10 + unat (u16_at p (e + 8))) n = Some rs'"
    "rs = (u16_at p e, e + 10, unat (u16_at p (e + 8))) # rs'"
  using assms skip_name_bounds by (auto simp: Let_def split: option.splits if_splits)

lemma layout_from_SucI:
  assumes "skip_name p off = Some e" "e + 10 + unat (u16_at p (e + 8)) \<le> length p"
    and "layout_from p (e + 10 + unat (u16_at p (e + 8))) n = Some rs'"
  shows "layout_from p off (Suc n) =
    Some ((u16_at p e, e + 10, unat (u16_at p (e + 8))) # rs')"
  using assms by (simp add: Let_def)

lemma layout_from_offsets:
  "layout_from p off n = Some rs \<Longrightarrow> r \<in> set rs \<Longrightarrow>
   off + 10 < fst (snd r) \<and> fst (snd r) + snd (snd r) \<le> length p"
proof (induction n arbitrary: off rs)
  case (Suc n)
  from Suc.prems(1) show ?case
  proof (cases rule: layout_from_SucE)
    case (1 e rs')
    with Suc.IH [OF 1(4)] Suc.prems(2) show ?thesis by fastforce
  qed
qed simp

lemma private_record_frame:
  assumes "length q = length p" "\<And>i. off \<le> i \<Longrightarrow> i < length p \<Longrightarrow> q ! i = p ! i"
    and "off \<le> fst (snd r)" "fst (snd r) + snd (snd r) \<le> length p"
  shows "private_record q r \<longleftrightarrow> private_record p r"
  using assms by (auto simp: private_record_def is_address_def private_at_def)

text \<open>The record after a zeroed address is found where it was.\<close>

definition scrub_step :: "bytes \<Rightarrow> u16 \<times> nat \<times> nat \<Rightarrow> bytes" where
  "scrub_step p r = (if private_record p r then zero_address p (fst (snd r)) else p)"

lemma length_scrub_step [simp]: "length (scrub_step p r) = length p"
  by (simp add: scrub_step_def)

lemma scrub_step_nth:
  "i < length p \<Longrightarrow> i < fst (snd r) \<or> fst (snd r) + snd (snd r) \<le> i \<Longrightarrow>
   scrub_step p r ! i = p ! i"
  by (auto simp: scrub_step_def private_record_def is_address_def zero_address_nth)

lemma scrub_Cons: "scrub p (r # rs) = scrub (scrub_step p r) rs"
  by (simp add: scrub_step_def)

declare scrub.simps(2) [simp del]

lemma rdlength_4: "(x :: u16) = 4 \<longleftrightarrow> unat x = 4"
  by (simp add: word_unat_eq_iff)

lemma rewrite_records_step:
  assumes "rewrite_records p off (Suc n) w = Some (True, p', w')"
  obtains e where "skip_name p off = Some e"
    "e + 10 + unat (u16_at p (e + 8)) \<le> length p"
    "rewrite_records (scrub_step p (u16_at p e, e + 10, unat (u16_at p (e + 8))))
       (e + 10 + unat (u16_at p (e + 8))) n
       (w \<or> private_record p (u16_at p e, e + 10, unat (u16_at p (e + 8)))) =
     Some (True, p', w')"
proof -
  from assms obtain name e where "ReadName p off 0 = returns_true (name, e)"
    by (auto split: Option.bind_splits option.splits)
  moreover from this assms have "e + 10 \<le> length p" by (auto split: if_splits)
  ultimately show ?thesis
    using assms ReadName_skip [of p off 0 name e]
    by (intro that [of e])
      (auto simp: Let_def ReadU16_u16_at IsPrivateIPv4_eq scrub_step_def private_record_def
        is_address_def rdlength_4 split: if_splits)
qed

lemma rewrite_records_scrub:
  "rewrite_records p off n w = Some (True, p', w') \<Longrightarrow>
   \<exists>rs. layout_from p off n = Some rs \<and> p' = scrub p rs \<and>
     (w' \<longleftrightarrow> w \<or> (\<exists>r\<in>set rs. private_record p r))"
proof (induction n arbitrary: p off w)
  case (Suc n)
  from Suc.prems show ?case
  proof (cases rule: rewrite_records_step)
    case (1 e)
    let ?r = "(u16_at p e, e + 10, unat (u16_at p (e + 8)))"
    let ?o = "e + 10 + unat (u16_at p (e + 8))"
    let ?q = "scrub_step p ?r"
    have same: "i < length p \<Longrightarrow> ?o \<le> i \<Longrightarrow> ?q ! i = p ! i" for i
      by (rule scrub_step_nth) auto
    from Suc.IH [OF 1(3)] obtain rs where rs: "layout_from ?q ?o n = Some rs" "p' = scrub ?q rs"
      "w' \<longleftrightarrow> w \<or> private_record p ?r \<or> (\<exists>r\<in>set rs. private_record ?q r)" by auto
    have l: "layout_from p ?o n = Some rs"
      using same by (intro layout_from_frame [OF _ _ rs(1)]) auto
    have "private_record ?q r \<longleftrightarrow> private_record p r" if "r \<in> set rs" for r
      using layout_from_offsets [OF l that] same
      by (intro private_record_frame [where off = ?o]) auto
    with rs layout_from_SucI [OF 1(1,2) l] show ?thesis
      by (auto simp: scrub_Cons)
  qed
qed simp

subsection \<open>What scrubbing does to a layout\<close>

lemma length_scrub [simp]: "length (scrub p rs) = length p"
  by (induction rs arbitrary: p) (simp_all add: scrub_Cons)

lemma scrub_nth_outside:
  "i < length p \<Longrightarrow> \<forall>r\<in>set rs. i < fst (snd r) \<or> fst (snd r) + snd (snd r) \<le> i \<Longrightarrow>
   scrub p rs ! i = p ! i"
  by (induction rs arbitrary: p) (simp_all add: scrub_Cons scrub_step_nth)

lemma layout_from_scrub:
  "layout_from p off n = Some rs \<Longrightarrow> layout_from (scrub p rs) off n = Some rs"
proof (induction n arbitrary: p off rs)
  case (Suc n)
  from Suc.prems show ?case
  proof (cases rule: layout_from_SucE)
    case (1 e rs')
    let ?o = "e + 10 + unat (u16_at p (e + 8))"
    let ?r = "(u16_at p e, e + 10, unat (u16_at p (e + 8)))"
    let ?q = "scrub_step p ?r" and ?s = "scrub p rs"
    have s: "?s = scrub ?q rs'" by (simp add: 1(5) scrub_Cons)
    have "layout_from ?q ?o n = Some rs'"
      by (intro layout_from_frame [OF _ _ 1(4)]) (auto intro: scrub_step_nth)
    then have l: "layout_from ?s ?o n = Some rs'" unfolding s by (rule Suc.IH)
    have low: "?s ! i = p ! i" if "i < e + 10" for i
    proof (rule scrub_nth_outside)
      show "i < length p" using that 1(3) by simp
      show "\<forall>r\<in>set rs. i < fst (snd r) \<or> fst (snd r) + snd (snd r) \<le> i"
        using that layout_from_offsets [OF 1(4)] by (fastforce simp: 1(5))
    qed
    have "skip_name ?s off = Some e" using low 1(2) by (intro skip_name_frame [OF 1(1)]) auto
    moreover have "u16_at ?s e = u16_at p e" "u16_at ?s (e + 8) = u16_at p (e + 8)"
      using low by (simp_all add: u16_at_def)
    ultimately show ?thesis using layout_from_SucI [of ?s off e n rs'] l 1(3,5) by simp
  qed
qed simp

lemma scrub_no_private:
  "layout_from p off n = Some rs \<Longrightarrow> r \<in> set rs \<Longrightarrow> \<not> private_record (scrub p rs) r"
proof (induction n arbitrary: p off rs)
  case (Suc n)
  from Suc.prems(1) show ?case
  proof (cases rule: layout_from_SucE)
    case (1 e rs')
    let ?o = "e + 10 + unat (u16_at p (e + 8))"
    let ?r = "(u16_at p e, e + 10, unat (u16_at p (e + 8)))"
    let ?q = "scrub_step p ?r"
    have s: "scrub p rs = scrub ?q rs'" by (simp add: 1(5) scrub_Cons)
    have l: "layout_from ?q ?o n = Some rs'"
      by (intro layout_from_frame [OF _ _ 1(4)]) (auto intro: scrub_step_nth)
    show ?thesis
    proof (cases "r = ?r")
      case True
      have "scrub ?q rs' ! i = ?q ! i" if "i < ?o" for i
        using that 1(3) layout_from_offsets [OF 1(4)] by (intro scrub_nth_outside) fastforce+
      moreover have "\<not> private_record ?q ?r"
        using 1(3) by (auto simp: scrub_step_def private_record_def is_address_def private_at_def
            zero_address_nth)
      ultimately show ?thesis
        by (auto simp: s True private_record_def is_address_def private_at_def)
    next
      case False
      with Suc.prems(2) 1(5) have "r \<in> set rs'" by simp
      from Suc.IH [OF l this] show ?thesis by (simp add: s)
    qed
  qed
qed simp

lemma scrub_nth_changed:
  "layout_from p off n = Some rs \<Longrightarrow> i < length p \<Longrightarrow> scrub p rs ! i \<noteq> p ! i \<Longrightarrow>
   scrub p rs ! i = 0 \<and>
   (\<exists>r\<in>set rs. private_record p r \<and> fst (snd r) \<le> i \<and> i < fst (snd r) + 4)"
proof (induction n arbitrary: p off rs)
  case (Suc n)
  from Suc.prems(1) show ?case
  proof (cases rule: layout_from_SucE)
    case (1 e rs')
    let ?o = "e + 10 + unat (u16_at p (e + 8))"
    let ?r = "(u16_at p e, e + 10, unat (u16_at p (e + 8)))"
    let ?q = "scrub_step p ?r"
    have s: "scrub p rs = scrub ?q rs'" by (simp add: 1(5) scrub_Cons)
    have same: "j < length p \<Longrightarrow> ?o \<le> j \<Longrightarrow> ?q ! j = p ! j" for j
      by (rule scrub_step_nth) auto
    have l: "layout_from ?q ?o n = Some rs'"
      by (intro layout_from_frame [OF _ _ 1(4)]) (auto intro: same)
    have eq: "private_record ?q r \<longleftrightarrow> private_record p r" if "r \<in> set rs'" for r
      using layout_from_offsets [OF 1(4) that] same
      by (intro private_record_frame [where off = ?o]) auto
    show ?thesis
    proof (cases "scrub ?q rs' ! i = ?q ! i")
      case True
      with Suc.prems(2,3) s show ?thesis
        by (auto simp: 1(5) scrub_step_def zero_address_nth split: if_splits)
    next
      case False
      with Suc.IH [OF l] Suc.prems(2) eq show ?thesis by (auto simp: 1(5) scrub_Cons)
    qed
  qed
qed simp

lemma question_end_frame:
  "question_end p off n = Some e \<Longrightarrow> length q = length p \<Longrightarrow>
   (\<And>i. off \<le> i \<Longrightarrow> i < e \<Longrightarrow> q ! i = p ! i) \<Longrightarrow> off \<le> e \<and> question_end q off n = Some e"
proof (induction n arbitrary: off)
  case (Suc n)
  from Suc.prems(1) obtain m where m: "skip_name p off = Some m" "m + 4 \<le> length p"
    "question_end p (m + 4) n = Some e" by (auto split: option.splits if_splits)
  have b: "off < m" using skip_name_bounds [OF m(1)] by simp
  have IH: "m + 4 \<le> e \<and> question_end q (m + 4) n = Some e"
    using b Suc.prems(2,3) by (intro Suc.IH [OF m(3)]) auto
  have "skip_name q off = Some m"
    using IH b Suc.prems(2,3) by (intro skip_name_frame [OF m(1)]) auto
  with IH b m(2) Suc.prems(2) show ?case by simp
qed simp

lemma question_end_bound:
  "question_end p off n = Some e \<Longrightarrow> off \<le> length p \<Longrightarrow> e \<le> length p"
  by (induction n arbitrary: off) (auto split: option.splits if_splits)

subsection \<open>Properties\<close>

lemma RewritePrivateARecordsToZero_cases:
  assumes "RewritePrivateARecordsToZero p w = Some (True, p', w')"
  obtains off where "12 \<le> length p" "question_end p 12 (unat (u16_at p 4)) = Some off"
    "rewrite_records p off (record_count p) False = Some (True, p', w')"
proof -
  from assms have len: "12 \<le> length p"
    by (auto simp: RewritePrivateARecordsToZero_def split: if_splits)
  with assms obtain off where "skip_questions p 12 (unat (u16_at p 4)) = returns_true off"
    by (auto simp: RewritePrivateARecordsToZero_def ReadU16_u16_at
        split: Option.bind_splits option.splits)
  with assms len show ?thesis
    by (intro that [OF len skip_questions_end])
      (auto simp: RewritePrivateARecordsToZero_def ReadU16_u16_at record_count_def
        split: Option.bind_splits)
qed

lemma rewrite_layout:
  assumes "RewritePrivateARecordsToZero p w = Some (True, p', w')"
  obtains rs where "record_layout p = Some rs" "p' = scrub p rs" "record_layout p' = Some rs"
    "\<forall>r\<in>set rs. \<not> private_record p' r" "w' \<longleftrightarrow> (\<exists>r\<in>set rs. private_record p r)"
proof -
  from assms show ?thesis
  proof (cases rule: RewritePrivateARecordsToZero_cases)
    case (1 off)
    from rewrite_records_scrub [OF 1(3)] obtain rs where
      rs: "layout_from p off (record_count p) = Some rs" "p' = scrub p rs"
        "w' \<longleftrightarrow> (\<exists>r\<in>set rs. private_record p r)" by auto
    have off: "12 \<le> off" using question_end_frame [OF 1(2)] by blast
    have low: "p' ! i = p ! i" if "i < length p" "i < off" for i
      unfolding rs(2) using that layout_from_offsets [OF rs(1)] by (intro scrub_nth_outside) fastforce+
    have "length p' = length p" by (simp add: rs(2))
    moreover have "off \<le> length p" using question_end_bound [OF 1(2)] 1(1) by simp
    ultimately have "question_end p' 12 (unat (u16_at p 4)) = Some off"
      using question_end_frame [OF 1(2), of p'] low by auto
    moreover have "u16_at p' i = u16_at p i" if "i < 11" for i
      using that low 1(1) off by (simp add: u16_at_def)
    ultimately have "record_layout p' = Some rs"
      using rs(1,2) 1(1) layout_from_scrub [OF rs(1)]
      by (simp add: record_layout_def record_count_def)
    with rs 1 show ?thesis
      using scrub_no_private [OF rs(1)] by (intro that [of rs]) (auto simp: record_layout_def)
  qed
qed

text \<open>
  C4: Rebind protection is complete. Whenever the rewrite reports success, the packet has a
  record layout, the rewritten packet is the original with exactly the private A addresses of
  that layout zeroed, it still has the same layout, none of its A records holds an RFC 1918
  address, and the \<open>rewritten\<close> flag tells whether there was one.
\<close>

theorem rebind_rewrite_complete:
  assumes "RewritePrivateARecordsToZero p w = Some (True, p', w')"
  shows "\<exists>rs. record_layout p = Some rs \<and> p' = scrub p rs \<and> record_layout p' = Some rs \<and>
    (\<forall>r\<in>set rs. \<not> private_record p' r) \<and> (w' \<longleftrightarrow> (\<exists>r\<in>set rs. private_record p r))"
  using rewrite_layout [OF assms] by metis

definition private_packet :: "byte \<Rightarrow> byte \<Rightarrow> bytes" where
  "private_packet a b = BuildAResponse (\<lambda>_. Some [a, b, 2, 3])
     \<lparr>hdr_id = 7, hdr_flags = 0x0100, hdr_qdcount = 1, hdr_ancount = 0, hdr_nscount = 0,
      hdr_arcount = 0\<rparr>
     \<lparr>qname = ''ab.c'', qtype = 1, qclass = 1, raw_offset = 12, raw_length = 10\<rparr> ''x''"

lemma private_packet_rewrite:
  "RewritePrivateARecordsToZero (private_packet 172 16) False =
     Some (True, take 38 (private_packet 172 16) @ [0, 0, 0, 0], True)"
  by code_simp

theorem rebind_rewrite_complete_witness:
  "\<exists>rs. record_layout (private_packet 172 16) = Some rs \<and>
     (\<exists>r\<in>set rs. private_record (private_packet 172 16) r)"
  using rebind_rewrite_complete [OF private_packet_rewrite] by blast

text \<open>
  Rebind protection changes nothing else. Success keeps the length of the packet, and a
  byte that differs afterwards is zero and lies in the address of a private A record of the
  original packet.
\<close>

lemma rebind_rewrite_only_addresses:
  assumes "RewritePrivateARecordsToZero p w = Some (True, p', w')"
    and "i < length p" "p' ! i \<noteq> p ! i"
  shows "length p' = length p \<and> p' ! i = 0 \<and>
    (\<exists>r\<in>set (the (record_layout p)). private_record p r \<and>
       fst (snd r) \<le> i \<and> i < fst (snd r) + 4)"
  using assms(1)
proof (cases rule: RewritePrivateARecordsToZero_cases)
  case (1 off)
  from rewrite_records_scrub [OF 1(3)] obtain rs where
    rs: "layout_from p off (record_count p) = Some rs" "p' = scrub p rs" by auto
  from scrub_nth_changed [OF rs(1) assms(2)] assms(3) rs 1 show ?thesis
    by (auto simp: record_layout_def)
qed

end
