(* ===== verification/Dns_Responses.thy ===== *)
theory Dns_Responses
  imports Dns_Rebind
begin

text \<open>
  What a client or the server itself reads from packets: memory safety of every packet walk,
  the extent and size of compressed names, the response header, and the round trips of the
  builders with the parsers of \<open>src/dns_packet.cpp\<close>.
\<close>

subsection \<open>Memory safety and bounds\<close>

text \<open>
  C16: Memory safety. On every byte sequence whatever, parsing a query, reading a possibly
  compressed name at any offset, extracting a PTR target and rewriting private addresses
  return: no read leaves the packet, and every loop ends, cyclic compression pointers included.
\<close>

theorem packet_walks_memory_safe:
  "ParseDnsQuery packet \<noteq> None \<and> ParseQName packet off \<noteq> None \<and>
   ReadName packet off depth \<noteq> None \<and> ExtractFirstPtrTarget packet \<noteq> None \<and>
   RewritePrivateARecordsToZero packet w \<noteq> None"
  by (simp del: not_None_eq)

text \<open>Each label that is read costs its own bytes, and at most sixteen jumps are followed.\<close>

lemma length_append_label:
  "length (append_label name l) \<le> length name + length l + 1"
  by (simp add: append_label_def)

lemma length_label_bytes: "plain_label p pos \<Longrightarrow> length (label_bytes p pos) = unat (p ! pos)"
  by (auto simp: plain_label_def label_bytes_def)

lemma ReadName_loop_length:
  "ReadName_loop p pos je j name d = returns_true (n, e) \<Longrightarrow> d \<le> 16 \<Longrightarrow>
   length n + pos \<le> length name + (17 - d) * length p"
proof (induction rule: ReadName_loop_induct)
  case (stop pos je j name d)
  then have "1 * length p \<le> (17 - d) * length p" by (intro mult_le_mono1) simp
  with stop show ?case by linarith
next
  case (pointer pos je j name d n e)
  have "(17 - d) * length p = (17 - (d + 1)) * length p + length p"
  proof -
    have "17 - d = Suc (17 - (d + 1))" using pointer(4) by simp
    then show ?thesis by (metis add.commute mult_Suc)
  qed
  then show ?case using pointer by simp
next
  case (label pos je j name d n e)
  then show ?case
    using length_append_label [of name "label_bytes p pos"] length_label_bytes [of p pos] by simp
qed

text \<open>
  C31: Extent and size of names. A name that \<open>ReadName\<close> accepts ends inside the packet, after
  its start, at the end of its own bytes (not where a pointer led), and is at most seventeen
  times as long as the packet.
\<close>

theorem ReadName_extent:
  assumes "ReadName p off 0 = returns_true (n, e)"
  shows "off < e \<and> e \<le> length p \<and> skip_name p off = Some e \<and> length n + off \<le> 17 * length p"
  using assms ReadName_skip [OF assms] skip_name_bounds [of p off e]
    ReadName_loop_length [of p off off False "[]" 0 n e]
  by (simp add: ReadName_def)

text \<open>Two labels, then a name that is one more label and a pointer back to the first.\<close>

definition compressed_packet :: bytes where
  "compressed_packet = [2, 97, 98, 1, 99, 0, 1, 100, 0xC0, 0, 42]"

theorem ReadName_extent_witness:
  "ReadName compressed_packet 6 0 = returns_true (''d.ab.c'', 10) \<and>
   skip_name compressed_packet 6 = Some 10"
proof -
  have "ReadName compressed_packet 6 0 = returns_true (''d.ab.c'', 10)" by code_simp
  with ReadName_extent [OF this] show ?thesis by simp
qed

subsection \<open>The response header\<close>

text \<open>
  The flag word of every response has the QR and RA bits set, copies the RD bit of the
  query, and has no other bit set: the opcode is 0 and the response code is always NOERROR.
\<close>

lemma response_flags_bits:
  "bit (ResponseFlags h) n \<longleftrightarrow> n = 15 \<or> n = 7 \<or> (n = 8 \<and> bit (hdr_flags h) 8)"
proof -
  have "ResponseFlags h = (2 ^ 15 OR (hdr_flags h AND 2 ^ 8)) OR 2 ^ 7"
    by (simp add: ResponseFlags_def)
  moreover have "bit ((2 :: u16) ^ k) n \<longleftrightarrow> n = k" if "k < 16" for k
    using that by (simp only: bit_exp_iff) (auto simp: possible_bit_word)
  ultimately show ?thesis by (auto simp only: bit_or_iff bit_and_iff)
qed

subsection \<open>Round trips\<close>

text \<open>
  A response to a question with a well-formed name carries that question back: parsing
  any of the seven kinds of response yields the query's id, the response flags, one question,
  the right answer count, and the question's name, type and class.
\<close>

lemma responses_carry_question:
  assumes "wf_name (qname q)" "pton_writes 4 pton4" "pton_writes 16 pton6"
  shows
    "ParseDnsQuery (BuildEmptyResponse h q) =
       returns_true (response_header h 0,
         q\<lparr>raw_offset := 12, raw_length := length (encode_question q)\<rparr>) \<and>
     (\<forall>resp \<in> {BuildAResponse pton4 h q s, BuildAAAAResponse pton6 h q s,
        BuildCNAMEResponse h q s, BuildPTRResponse h q s, BuildTXTResponse h q s,
        BuildMXResponse h q pref s}.
      ParseDnsQuery resp =
        returns_true (response_header h 1,
          q\<lparr>raw_offset := 12, raw_length := length (encode_question q)\<rparr>))"
  using assms by (simp add: builder_eqs ParseDnsQuery_response)

text \<open>A query header, a question, and an \<open>inet_pton\<close> for the concrete instances below.\<close>

definition sample_header :: DnsHeader where
  "sample_header = \<lparr>hdr_id = 0x1234, hdr_flags = 0x0100, hdr_qdcount = 1, hdr_ancount = 0,
     hdr_nscount = 0, hdr_arcount = 0\<rparr>"

definition sample_question :: DnsQuestion where
  "sample_question = \<lparr>qname = ''www.example.com'', qtype = 1, qclass = 1, raw_offset = 12,
     raw_length = 21\<rparr>"

definition sample_pton :: "nat \<Rightarrow> string \<Rightarrow> bytes option" where
  "sample_pton n s = (if s = ''zero'' then Some (replicate n 0) else None)"

lemma sample_pton_writes [simp]: "pton_writes n (sample_pton n)"
  by (simp add: pton_writes_def sample_pton_def)

lemma sample_question_wf: "wf_name (qname sample_question)"
  by code_simp

text \<open>The character strings of a TXT record's rdata, joined.\<close>

function txt_decode :: "bytes \<Rightarrow> string option" where
  "txt_decode [] = Some []"
| "txt_decode (n # r) =
     (if length r < unat n then None
      else map_option ((@) (map char_of_byte (take (unat n) r))) (txt_decode (drop (unat n) r)))"
  by pat_completeness auto
termination
  by (relation "measure length") auto

lemma txt_chunks_Nil [simp]: "txt_chunks [] = []"
  by (subst txt_chunks.simps) simp

lemma txt_decode_chunks: "txt_decode (txt_chunks s) = Some s"
proof (induction s rule: txt_chunks.induct)
  case (1 s)
  show ?case
  proof (cases "s = []")
    case False
    let ?n = "if 255 < length s then 255 else length s"
    have "unat (word_of_nat ?n :: byte) = ?n" by (simp add: unat_of_nat)
    then have "txt_decode (word_of_nat ?n # map byte_of_char (take ?n s) @ txt_chunks (drop ?n s)) =
      map_option ((@) (take ?n s)) (txt_decode (txt_chunks (drop ?n s)))"
      by (simp add: map_idI)
    also have "txt_decode (txt_chunks (drop ?n s)) = Some (drop ?n s)"
      using 1 False by (simp add: Let_def)
    finally show ?thesis using False by (subst txt_chunks.simps) (simp add: Let_def)
  qed simp
qed

lemma length_txt_chunks: "length (txt_chunks s) \<le> 2 * length s"
proof (induction s rule: txt_chunks.induct)
  case (1 s)
  then show ?case by (subst txt_chunks.simps) (auto simp: Let_def neq_Nil_conv)
qed

lemma slice_head: "slice (pre @ ys) 0 (length pre) = Some pre"
  by (simp add: slice_def)

text \<open>
  C30: TXT responses. For a text of at most 32767 characters, the single answer of the TXT
  response is a TXT record whose character strings, joined, are the configured text, however
  the text was cut into chunks of 255.
\<close>

theorem txt_response_roundtrip:
  assumes "wf_name (qname q)" "length text \<le> 32767"
  shows "\<exists>off len rdata.
    record_layout (BuildTXTResponse h q text) = Some [(DNS_TYPE_TXT, off, len)] \<and>
    slice (BuildTXTResponse h q text) off len = Some rdata \<and> txt_decode rdata = Some text"
proof -
  let ?rd = "if text = [] then [0] else txt_chunks text"
  have "length ?rd < 65536" using length_txt_chunks [of "text"] assms(2) by auto
  from record_layout_response [OF assms(1,1) this] response_rdata
  have "record_layout (BuildTXTResponse h q text) = Some [(DNS_TYPE_TXT,
      12 + length (encode_question q) + length (WriteQName [] (qname q)) + 10, length ?rd)]"
    "slice (BuildTXTResponse h q text)
      (12 + length (encode_question q) + length (WriteQName [] (qname q)) + 10) (length ?rd) = Some ?rd"
    unfolding BuildTXTResponse_eq by blast+
  moreover have "txt_decode ?rd = Some text" by (simp add: txt_decode_chunks)
  ultimately show ?thesis by blast
qed

theorem txt_response_roundtrip_witness:
  "\<exists>off len. record_layout (BuildTXTResponse sample_header sample_question ''hello world'') =
     Some [(DNS_TYPE_TXT, off, len)]"
  using txt_response_roundtrip [OF sample_question_wf, of "''hello world''" sample_header] by auto

text \<open>
  PTR responses: the server extracts from a PTR response the very target it was built
  with; this is how a client's name is found when a local PTR record exists.
\<close>

lemma ptr_response_roundtrip:
  assumes "wf_name (qname q)" "wf_name target" "length target < 65000"
  shows "ExtractFirstPtrTarget (BuildPTRResponse h q target) = returns_true target"
proof -
  let ?H = "BuildResponseHeader h 1 1" and ?N = "WriteQName [] (qname q)" and ?Q = "encode_question q"
  let ?T = "WriteQName [] target"
  let ?M = "WriteU16 [] DNS_TYPE_PTR @ WriteU16 [] 1 @ WriteU32 [] 60 @ WriteU16 [] (word_of_nat (length ?T))"
  let ?p = "BuildPTRResponse h q target"
  have p: "?p = ?H @ ?Q @ ?N @ ?M @ ?T"
    by (simp add: BuildPTRResponse_eq encode_response_def encode_rr_def)
  have len: "length ?p = 12 + length ?Q + length ?N + 10 + length ?T" by (simp add: p)
  have T: "length ?T < 65536" using assms(2,3) length_WriteQName_wf [of target] by simp
  have q: "skip_questions ?p 12 1 = returns_true (12 + length ?Q)"
    using ReadName_after [OF assms(1), of ?H "WriteU16 [] (qtype q) @ WriteU16 [] (qclass q) @ ?N @ ?M @ ?T"]
    by (simp add: p encode_question_def)
  have o: "ReadName ?p (12 + length ?Q) 0 = returns_true (qname q, 12 + length ?Q + length ?N)"
    using ReadName_after [OF assms(1), of "?H @ ?Q" "?M @ ?T"] by (simp add: p)
  have t: "ReadU16 ?p (12 + length ?Q + length ?N) = Some DNS_TYPE_PTR"
    using ReadU16_after [of "?H @ ?Q @ ?N" DNS_TYPE_PTR] by (simp add: p add.assoc)
  have n: "ReadU16 ?p (12 + length ?Q + length ?N + 8) = Some (word_of_nat (length ?T))"
    using ReadU16_after [of "?H @ ?Q @ ?N @ WriteU16 [] DNS_TYPE_PTR @ WriteU16 [] 1 @ WriteU32 [] 60"]
    by (simp add: p add.assoc)
  have u: "unat (word_of_nat (length ?T) :: u16) = length ?T"
    using T by (simp add: unat_of_nat)
  have r: "ReadName ?p (12 + length ?Q + length ?N + 10) 0 =
      returns_true (target, 12 + length ?Q + length ?N + 10 + length ?T)"
    using ReadName_after [OF assms(2), of "?H @ ?Q @ ?N @ ?M" "[]"] by (simp add: p add.assoc)
  have "find_ptr ?p (12 + length ?Q) 1 = returns_true target"
    using o t n u r len by (simp add: Let_def)
  moreover have "ReadU16 ?p 4 = Some 1" "ReadU16 ?p 6 = Some 1" by (simp_all add: p)
  ultimately show ?thesis
    using q len by (simp add: ExtractFirstPtrTarget_def)
qed

text \<open>
  Address responses. The single answer of an A (AAAA) response is an A (AAAA) record of
  length 4 (16) that holds what \<open>inet_pton\<close> made of the value, or zeros where it failed.
\<close>

lemma address_responses_carry_address:
  assumes "wf_name (qname q)" "pton_writes 4 pton4" "pton_writes 16 pton6"
  shows "(\<exists>off. record_layout (BuildAResponse pton4 h q s) = Some [(DNS_TYPE_A, off, 4)] \<and>
       slice (BuildAResponse pton4 h q s) off 4 =
         Some (case pton4 s of Some a \<Rightarrow> a | None \<Rightarrow> replicate 4 0)) \<and>
     (\<exists>off. record_layout (BuildAAAAResponse pton6 h q s) = Some [(DNS_TYPE_AAAA, off, 16)] \<and>
       slice (BuildAAAAResponse pton6 h q s) off 16 =
         Some (case pton6 s of Some a \<Rightarrow> a | None \<Rightarrow> replicate 16 0))"
  using record_layout_response [OF assms(1,1), of "address_bytes 4 (pton4 s)" h DNS_TYPE_A]
    record_layout_response [OF assms(1,1), of "address_bytes 16 (pton6 s)" h DNS_TYPE_AAAA]
    response_rdata [of h q "qname q" DNS_TYPE_A "address_bytes 4 (pton4 s)"]
    response_rdata [of h q "qname q" DNS_TYPE_AAAA "address_bytes 16 (pton6 s)"] assms(2,3)
  by (simp add: builder_eqs address_bytes_def [symmetric])

text \<open>
  Patching the id of a cached response. It rewrites exactly the id field: the result is
  the response that would have been built for a query with the new id and the same flags.
\<close>

lemma patch_response_id:
  "PatchResponseId (encode_response h q an body) i = encode_response (h\<lparr>hdr_id := i\<rparr>) q an body"
  by (simp add: PatchResponseId_def encode_response_def BuildResponseHeader_def WriteU16_def
      ResponseFlags_def)

lemma PatchResponseId_short: "length p < 2 \<Longrightarrow> PatchResponseId p i = p"
  by (simp add: PatchResponseId_def)

lemma PatchResponseId_id: "2 \<le> length p \<Longrightarrow> ReadU16 (PatchResponseId p i) 0 = Some i"
  by (cases p) (auto simp: PatchResponseId_def ReadU16_def byte_at_def u16_split_join)

lemma PatchResponseId_rest: "2 \<le> k \<Longrightarrow> PatchResponseId p i ! k = p ! k"
  by (simp add: PatchResponseId_def)

subsection \<open>Echoing the question\<close>

lemma WriteU16_u16_at: "WriteU16 [] (u16_at p i) = [p ! i, p ! (i + 1)]"
  by (simp only: WriteU16_def u16_at_def u16_join_split append_Nil)

lemma take_4: "4 \<le> length xs \<Longrightarrow> take 4 xs = [xs ! 0, xs ! 1, xs ! 2, xs ! 3]"
  by (auto simp: numeral_eq_Suc Suc_le_length_iff)

lemma ParseDnsQuery_labels:
  assumes "length pre = 12" "list_all wf_label ls" "4 \<le> length rest" "ReadU16 pre 4 \<noteq> Some 0"
  obtains h where "ReadHeader pre = Some h"
    "ParseDnsQuery (pre @ encode_labels ls @ 0 # rest) = returns_true (h,
       \<lparr>qname = join_with CHR ''.'' ls, qtype = u16_at rest 0, qclass = u16_at rest 2,
        raw_offset = 12, raw_length = length (encode_labels ls) + 5\<rparr>)"
proof -
  let ?p = "pre @ encode_labels ls @ 0 # rest"
  have same: "ReadU16 ?p i = ReadU16 pre i" if "i < 11" for i
    using that assms(1) by (simp add: ReadU16_def byte_at_append1)
  then have hdr: "ReadHeader ?p = ReadHeader pre" by (simp add: ReadHeader_def)
  obtain h where h: "ReadHeader pre = Some h"
    using assms(1) ReadHeader_safe [of pre] by (metis less_irrefl not_None_eq)
  obtain qd where qd: "ReadU16 pre 4 = Some qd" "qd \<noteq> 0"
    using assms(1,4) ReadU16_eq_None [of pre 4] by (cases "ReadU16 pre 4") auto
  have name: "ParseQName ?p 12 =
      returns_true (join_with CHR ''.'' ls, 12 + length (encode_labels ls) + 1)"
    using ParseQName_loop_labels [OF assms(2), of pre rest "[]"] assms(1,2)
    by (simp add: ParseQName_def foldl_append_label)
  have read: "ReadU16 ?p (12 + length (encode_labels ls) + 1 + i) = Some (u16_at rest i)"
    if "i + 1 < length rest" for i
    using ReadU16_append2 [of "pre @ encode_labels ls @ [0]" rest i] that assms(1)
    by (simp add: ReadU16_u16_at add.assoc)
  have "ParseDnsQuery ?p = returns_true (h,
       \<lparr>qname = join_with CHR ''.'' ls, qtype = u16_at rest 0, qclass = u16_at rest 2,
        raw_offset = 12, raw_length = length (encode_labels ls) + 5\<rparr>)"
    using name read [of 0] read [of 2] hdr h qd same [of 4] assms(1,3)
    by (simp add: ParseDnsQuery_def)
  with h show ?thesis by (rule that)
qed

text \<open>
  C29: The question is echoed byte for byte. For a query whose name consists of labels of 1 to
  63 bytes none of which contains a dot byte, the question section of each of the seven kinds of
  response, whatever its answer holds, is exactly the question section of the query.
\<close>

theorem question_section_echoed:
  assumes "length pre = 12" "list_all wf_label ls" "ls \<noteq> []" "4 \<le> length rest"
    and "ParseDnsQuery (pre @ encode_labels ls @ 0 # rest) = returns_true (h, q)"
    and "pton_writes 4 pton4" "pton_writes 16 pton6"
  shows "\<forall>resp \<in> {BuildEmptyResponse h q, BuildAResponse pton4 h q s, BuildAAAAResponse pton6 h q s,
      BuildCNAMEResponse h q s, BuildPTRResponse h q s, BuildTXTResponse h q s, BuildMXResponse h q pref s}.
    slice resp (raw_offset q) (raw_length q) =
      slice (pre @ encode_labels ls @ 0 # rest) (raw_offset q) (raw_length q)"
proof -
  let ?p = "pre @ encode_labels ls @ 0 # rest"
  have "ReadU16 ?p 4 = ReadU16 pre 4" using assms(1) by (simp add: ReadU16_def byte_at_append1)
  with assms(5) have "ReadU16 pre 4 \<noteq> Some 0"
    by (auto simp: ParseDnsQuery_def split: if_splits Option.bind_splits)
  from ParseDnsQuery_labels [OF assms(1,2,4) this] assms(5) have q:
    "qname q = join_with CHR ''.'' ls" "qtype q = u16_at rest 0" "qclass q = u16_at rest 2"
    "raw_offset q = 12" "raw_length q = length (encode_labels ls) + 5" by force+
  have ne: "qname q \<noteq> []" using assms(2,3) by (auto simp: q(1) join_with_eq_Nil wf_label_def)
  have "Split (qname q) CHR ''.'' = ls"
    using assms(2,3) by (auto simp: q(1) list_all_iff wf_label_def intro!: Split_join)
  then have "encode_question q = encode_labels ls @ 0 # take 4 rest"
    using WriteQName_wf [of "qname q" "[]"] wf_name_join [OF assms(3,2)] ne assms(4)
    by (simp add: encode_question_def q WriteU16_u16_at take_4)
  then have "slice (encode_response h q an body) (raw_offset q) (raw_length q) =
      slice ?p (raw_offset q) (raw_length q)" for an body
    using assms(1,4) by (simp add: encode_response_def slice_def q)
  then show ?thesis using assms(6,7) by (simp add: builder_eqs)
qed

definition sample_prefix :: bytes where
  "sample_prefix = [0x12, 0x34, 1, 0, 0, 1, 0, 0, 0, 0, 0, 0]"

theorem question_section_echoed_witness:
  "\<exists>h q. raw_length q = 11 \<and>
     slice (BuildMXResponse h q 10 ''mail.x'') 12 11 = Some (encode_labels [''ads'', ''x''] @ [0, 0, 1, 0, 1]) \<and>
     slice (BuildEmptyResponse h q) 12 11 = Some (encode_labels [''ads'', ''x''] @ [0, 0, 1, 0, 1])"
proof -
  let ?p = "sample_prefix @ encode_labels [''ads'', ''x''] @ 0 # [0, 1, 0, 1]"
  let ?h = "\<lparr>hdr_id = 0x1234, hdr_flags = 0x0100, hdr_qdcount = 1, hdr_ancount = 0,
     hdr_nscount = 0, hdr_arcount = 0\<rparr>"
  let ?q = "\<lparr>qname = ''ads.x'', qtype = 1, qclass = 1, raw_offset = 12, raw_length = 11\<rparr>"
  have p: "ParseDnsQuery ?p = returns_true (?h, ?q)" by code_simp
  have l: "length sample_prefix = 12" "list_all wf_label [''ads'', ''x'']" by code_simp+
  have "slice ?p 12 11 = Some (encode_labels [''ads'', ''x''] @ [0, 0, 1, 0, 1])" by code_simp
  with question_section_echoed [OF l _ _ p sample_pton_writes sample_pton_writes, where s = "''mail.x''" and pref = 10] show ?thesis
    by (intro exI [of _ ?h] exI [of _ ?q]) simp
qed

text \<open>
  A label may contain the byte 0x2E. The parser joins labels with dots, and the response splits
  the name at every dot: the one-label question \<open>a.b\<close> is answered with a two-label one.
\<close>

lemma dotted_label_not_echoed:
  "\<exists>h q. ParseDnsQuery (sample_prefix @ [3, 97, 46, 98, 0, 0, 1, 0, 1]) = returns_true (h, q) \<and>
     slice (BuildEmptyResponse h q) 12 9 = Some [1, 97, 1, 98, 0, 0, 1, 0, 1]"
proof -
  let ?h = "\<lparr>hdr_id = 0x1234, hdr_flags = 0x0100, hdr_qdcount = 1, hdr_ancount = 0,
     hdr_nscount = 0, hdr_arcount = 0\<rparr>"
  let ?q = "\<lparr>qname = ''a.b'', qtype = 1, qclass = 1, raw_offset = 12, raw_length = 9\<rparr>"
  have "ParseDnsQuery (sample_prefix @ [3, 97, 46, 98, 0, 0, 1, 0, 1]) = returns_true (?h, ?q)"
    "slice (BuildEmptyResponse ?h ?q) 12 9 = Some [1, 97, 1, 98, 0, 0, 1, 0, 1]" by code_simp+
  then show ?thesis by blast
qed

end
