(* ===== verification/Cache.thy ===== *)
theory Cache
  imports Util
begin

text \<open>
  \<open>DnsCache\<close> (\<open>src/cache.h\<close>, \<open>src/cache.cpp\<close>). The \<open>std::list\<close> \<open>lru_\<close> is a list of
  nodes with an identity; an iterator is the identity of its node, so the aliasing between the
  map entries (\<open>lru_it\<close>) and the list is explicit and a dangling iterator would name no node.
  Byte counts are \<open>size_t\<close> values and wrap as in the code. \<open>time(NULL)\<close> is read where the
  code reads it and passed as a parameter.

  The specification of the cache is the list of its entries in eviction order (\<open>contents\<close>)
  with the operations \<open>spec_get\<close>, \<open>spec_put\<close> and \<open>spec_trim\<close>; the code refines it.
\<close>

subsection \<open>State and operations\<close>

record cache_entry =
  ent_response :: bytes
  ent_expiry :: int
  ent_size :: u64
  ent_lru_it :: nat

record dns_cache =
  max_bytes :: u64
  ttl_sec :: u32
  current_bytes :: u64
  lru :: "(nat \<times> string) list"
  entries :: "string \<rightharpoonup> cache_entry"
  next_node :: nat

definition new_cache :: "u64 \<Rightarrow> u32 \<Rightarrow> dns_cache" where
  "new_cache limit ttl =
     \<lparr>max_bytes = limit, ttl_sec = ttl, current_bytes = 0, lru = [], entries = Map.empty,
      next_node = 0\<rparr>"

text \<open>\<open>lru_.erase(it)\<close> removes the node that the iterator names.\<close>

definition erase_node :: "nat \<Rightarrow> (nat \<times> string) list \<Rightarrow> (nat \<times> string) list" where
  "erase_node it l = filter (\<lambda>(n, k). n \<noteq> it) l"

text \<open>The loop of \<open>EvictExpired\<close> over the nodes from \<open>it\<close> on.\<close>

fun expire_loop :: "int \<Rightarrow> (nat \<times> string) list \<Rightarrow> dns_cache \<Rightarrow> dns_cache" where
  "expire_loop now [] c = c"
| "expire_loop now ((it, key) # rest) c =
     (case entries c key of
        None \<Rightarrow> expire_loop now rest (c\<lparr>lru := erase_node it (lru c)\<rparr>)
      | Some e \<Rightarrow>
          if ent_expiry e \<le> now
          then expire_loop now rest
            (c\<lparr>current_bytes := current_bytes c - ent_size e,
               entries := (entries c)(key := None),
               lru := erase_node it (lru c)\<rparr>)
          else expire_loop now rest c)"

definition EvictExpired :: "int \<Rightarrow> dns_cache \<Rightarrow> dns_cache" where
  "EvictExpired now c = expire_loop now (lru c) c"

function EvictIfNeeded :: "dns_cache \<Rightarrow> dns_cache" where
  "EvictIfNeeded c =
     (if max_bytes c < current_bytes c \<and> lru c \<noteq> [] then
        let key = snd (hd (lru c));
            c1 = (case entries c key of
                    None \<Rightarrow> c
                  | Some e \<Rightarrow> c\<lparr>current_bytes := current_bytes c - ent_size e,
                                entries := (entries c)(key := None)\<rparr>)
        in EvictIfNeeded (c1\<lparr>lru := tl (lru c1)\<rparr>)
      else c)"
  by pat_completeness auto
termination
  by (relation "measure (\<lambda>c. length (lru c))") (auto split: option.splits)

declare EvictIfNeeded.simps [simp del]

definition SetLimits :: "dns_cache \<Rightarrow> u64 \<Rightarrow> u32 \<Rightarrow> dns_cache" where
  "SetLimits c limit ttl = EvictIfNeeded (c\<lparr>max_bytes := limit, ttl_sec := ttl\<rparr>)"

definition cache_get :: "int \<Rightarrow> dns_cache \<Rightarrow> string \<Rightarrow> bytes option \<times> dns_cache" where
  "cache_get now c key =
     (let c = EvictExpired now c in
      case entries c key of
        None \<Rightarrow> (None, c)
      | Some e \<Rightarrow>
          let l = erase_node (ent_lru_it e) (lru c);
              node = next_node c
          in (Some (ent_response e),
              c\<lparr>lru := l @ [(node, key)],
                next_node := node + 1,
                entries := (entries c)(key \<mapsto> e\<lparr>ent_lru_it := node\<rparr>)\<rparr>))"

text \<open>\<open>now\<close> is the time \<open>EvictExpired\<close> reads, \<open>now'\<close> the one the expiry is computed from.\<close>

definition cache_put :: "int \<Rightarrow> int \<Rightarrow> dns_cache \<Rightarrow> string \<Rightarrow> bytes \<Rightarrow> dns_cache" where
  "cache_put now now' c key response =
     (let c = EvictExpired now c;
          c = (case entries c key of
                 None \<Rightarrow> c
               | Some e \<Rightarrow> c\<lparr>current_bytes := current_bytes c - ent_size e,
                             lru := erase_node (ent_lru_it e) (lru c),
                             entries := (entries c)(key := None)\<rparr>);
          node = next_node c;
          entry = \<lparr>ent_response = response, ent_expiry = now' + uint (ttl_sec c),
                   ent_size = word_of_nat (length response), ent_lru_it = node\<rparr>
      in EvictIfNeeded
           (c\<lparr>lru := lru c @ [(node, key)],
              next_node := node + 1,
              entries := (entries c)(key \<mapsto> entry),
              current_bytes := current_bytes c + ent_size entry\<rparr>))"

subsection \<open>Specification\<close>

type_synonym spec_entry = "string \<times> bytes \<times> int"

definition total_size :: "spec_entry list \<Rightarrow> nat" where
  "total_size xs = sum_list (map (\<lambda>(k, r, x). length r) xs)"

definition spec_expire :: "int \<Rightarrow> spec_entry list \<Rightarrow> spec_entry list" where
  "spec_expire now xs = filter (\<lambda>(k, r, x). now < x) xs"

definition spec_remove :: "string \<Rightarrow> spec_entry list \<Rightarrow> spec_entry list" where
  "spec_remove key xs = filter (\<lambda>(k, r, x). k \<noteq> key) xs"

fun spec_trim :: "nat \<Rightarrow> spec_entry list \<Rightarrow> spec_entry list" where
  "spec_trim limit [] = []"
| "spec_trim limit (x # xs) = (if limit < total_size (x # xs) then spec_trim limit xs else x # xs)"

definition spec_get :: "int \<Rightarrow> string \<Rightarrow> spec_entry list \<Rightarrow> bytes option \<times> spec_entry list" where
  "spec_get now key xs =
     (let ys = spec_expire now xs in
      case map_of ys key of
        None \<Rightarrow> (None, ys)
      | Some (r, x) \<Rightarrow> (Some r, spec_remove key ys @ [(key, r, x)]))"

definition spec_put ::
    "nat \<Rightarrow> int \<Rightarrow> int \<Rightarrow> int \<Rightarrow> string \<Rightarrow> bytes \<Rightarrow> spec_entry list \<Rightarrow> spec_entry list" where
  "spec_put limit ttl now now' key r xs =
     spec_trim limit (spec_remove key (spec_expire now xs) @ [(key, r, now' + ttl)])"

subsection \<open>Invariant and abstraction\<close>

text \<open>
  Every list node is the \<open>lru_it\<close> of exactly one map entry and conversely: all iterators the
  code dereferences or erases are valid.
\<close>

definition linked :: "dns_cache \<Rightarrow> bool" where
  "linked c \<longleftrightarrow>
     distinct (map fst (lru c)) \<and> distinct (map snd (lru c)) \<and>
     (\<forall>p \<in> set (lru c). fst p < next_node c) \<and>
     (\<forall>n k. (n, k) \<in> set (lru c) \<longleftrightarrow> (\<exists>e. entries c k = Some e \<and> ent_lru_it e = n)) \<and>
     (\<forall>k e. entries c k = Some e \<longrightarrow> ent_size e = word_of_nat (length (ent_response e)))"

definition spec_of :: "(string \<rightharpoonup> cache_entry) \<Rightarrow> string \<Rightarrow> spec_entry" where
  "spec_of m k = (k, ent_response (the (m k)), ent_expiry (the (m k)))"

definition contents :: "dns_cache \<Rightarrow> spec_entry list" where
  "contents c = map (\<lambda>(n, k). spec_of (entries c) k) (lru c)"

definition cache_wf :: "dns_cache \<Rightarrow> bool" where
  "cache_wf c \<longleftrightarrow>
     linked c \<and> current_bytes c = word_of_nat (total_size (contents c)) \<and> total_size (contents c) < 2 ^ 64"

definition cache_inv :: "dns_cache \<Rightarrow> bool" where
  "cache_inv c \<longleftrightarrow> cache_wf c \<and> total_size (contents c) \<le> unat (max_bytes c)"

lemma total_simps [simp]:
  "total_size [] = 0" "total_size (x # xs) = length (fst (snd x)) + total_size xs"
  "total_size (xs @ ys) = total_size xs + total_size ys"
  by (auto simp: total_size_def split: prod.splits)

lemma linkedD:
  assumes "linked c"
  shows "(n, k) \<in> set (lru c) \<longleftrightarrow> (\<exists>e. entries c k = Some e \<and> ent_lru_it e = n)"
    and "entries c k = Some e \<Longrightarrow> ent_size e = word_of_nat (length (ent_response e))"
    and "(n, k) \<in> set (lru c) \<Longrightarrow> n < next_node c"
    and "distinct (map fst (lru c))" "distinct (map snd (lru c))"
  using assms by (fastforce simp: linked_def)+

lemma erase_linked:
  assumes "linked c" "(n, k) \<in> set (lru c)"
  shows "erase_node n (lru c) = filter (\<lambda>(m, j). j \<noteq> k) (lru c)"
proof -
  have "m \<noteq> n \<longleftrightarrow> j \<noteq> k" if "(m, j) \<in> set (lru c)" for m j
    using assms that linkedD(4,5) [OF assms(1)]
    by (metis distinct_map fst_conv inj_onD prod.inject snd_conv)
  then show ?thesis unfolding erase_node_def by (intro filter_cong) auto
qed

lemma map_of_contents:
  assumes "linked c"
  shows "map_of (contents c) k = map_option (\<lambda>e. (ent_response e, ent_expiry e)) (entries c k)"
proof -
  have "map_of (map (\<lambda>(n, k). spec_of m k) l) k =
      (if k \<in> snd ` set l then Some (ent_response (the (m k)), ent_expiry (the (m k))) else None)"
    for m and l :: "(nat \<times> string) list"
    by (induction l) (auto simp: spec_of_def)
  moreover have "k \<in> snd ` set (lru c) \<longleftrightarrow> entries c k \<noteq> None"
    using linkedD(1) [OF assms] by force
  ultimately show ?thesis by (cases "entries c k") (simp_all add: contents_def)
qed

lemma keys_contents: "map fst (contents c) = map snd (lru c)"
  by (auto simp: contents_def spec_of_def)

lemma distinct_contents: "linked c \<Longrightarrow> distinct (map fst (contents c))"
  by (simp add: keys_contents linkedD(5))

subsection \<open>Removing one entry\<close>

definition drop_entry :: "nat \<Rightarrow> string \<Rightarrow> cache_entry \<Rightarrow> dns_cache \<Rightarrow> dns_cache" where
  "drop_entry n k e c =
     c\<lparr>current_bytes := current_bytes c - ent_size e, entries := (entries c)(k := None),
       lru := erase_node n (lru c)\<rparr>"

lemma drop_entry_fields [simp]:
  "max_bytes (drop_entry n k e c) = max_bytes c"
  "ttl_sec (drop_entry n k e c) = ttl_sec c"
  "next_node (drop_entry n k e c) = next_node c"
  "entries (drop_entry n k e c) = (entries c)(k := None)"
  "lru (drop_entry n k e c) = erase_node n (lru c)"
  by (simp_all add: drop_entry_def)

lemma total_remove:
  "distinct (map fst xs) \<Longrightarrow> map_of xs k = Some (r, x) \<Longrightarrow>
   total_size xs = total_size (spec_remove k xs) + length r"
proof (induction xs)
  case (Cons y ys)
  obtain k' r' x' where y: "y = (k', r', x')" by (cases y) auto
  show ?case
  proof (cases "k' = k")
    case True
    with Cons.prems(1) y have "spec_remove k ys = ys"
      by (force simp: spec_remove_def intro: filter_True)
    with True Cons.prems y show ?thesis by (simp add: spec_remove_def)
  next
    case False
    with Cons y show ?thesis by (simp add: spec_remove_def)
  qed
qed simp

lemma contents_drop:
  assumes "linked c" "(n, k) \<in> set (lru c)"
  shows "contents (drop_entry n k e c) = spec_remove k (contents c)"
proof -
  have "map (\<lambda>(n, k). spec_of (m(k0 := None)) k) (filter (\<lambda>(n, j). j \<noteq> k0) l) =
      filter (\<lambda>(j, r, x). j \<noteq> k0) (map (\<lambda>(n, k). spec_of m k) l)" for m k0 l
    by (induction l) (auto simp: spec_of_def)
  then show ?thesis
    using erase_linked [OF assms] by (simp add: contents_def spec_remove_def)
qed

lemma linked_drop:
  assumes "linked c" "(n, k) \<in> set (lru c)"
  shows "linked (drop_entry n k e c)"
proof -
  have "set (erase_node n (lru c)) = {(m, j) \<in> set (lru c). j \<noteq> k}"
    using erase_linked [OF assms] by auto
  moreover have "distinct (map fst (erase_node n (lru c)))" "distinct (map snd (erase_node n (lru c)))"
    using assms(1) by (simp_all add: linked_def erase_node_def distinct_map_filter)
  moreover have "\<forall>p \<in> set (erase_node n (lru c)). fst p < next_node c"
    using assms(1) by (simp add: linked_def erase_node_def)
  ultimately show ?thesis using assms(1) by (simp add: linked_def)
qed

lemma drop_entry_wf:
  assumes "cache_wf c" "(n, k) \<in> set (lru c)" "entries c k = Some e"
  shows "cache_wf (drop_entry n k e c)"
    and "contents (drop_entry n k e c) = spec_remove k (contents c)"
proof -
  from assms(1) have l: "linked c" by (simp add: cache_wf_def)
  show c: "contents (drop_entry n k e c) = spec_remove k (contents c)"
    by (rule contents_drop [OF l assms(2)])
  have t: "total_size (contents c) = total_size (spec_remove k (contents c)) + length (ent_response e)"
    using total_remove [OF distinct_contents [OF l]] map_of_contents [OF l, of k] assms(3) by simp
  with assms show "cache_wf (drop_entry n k e c)"
    using linked_drop [OF l assms(2)] linkedD(2) [OF l assms(3)]
    by (simp add: cache_wf_def c) (simp add: drop_entry_def)
qed

lemma total_filter_le: "total_size (filter P xs) \<le> total_size xs"
  by (induction xs) auto

lemma total_remove_le: "total_size (spec_remove k xs) \<le> total_size xs"
  by (simp add: spec_remove_def total_filter_le)

lemma total_expire_le: "total_size (spec_expire now xs) \<le> total_size xs"
  by (simp add: spec_expire_def total_filter_le)

subsection \<open>The two eviction loops\<close>

lemma expire_loop_refines:
  "cache_wf c \<Longrightarrow> set todo \<subseteq> set (lru c) \<Longrightarrow> distinct (map snd todo) \<Longrightarrow>
   cache_wf (expire_loop now todo c) \<and>
   contents (expire_loop now todo c) =
     filter (\<lambda>(k, r, x). k \<in> snd ` set todo \<longrightarrow> now < x) (contents c) \<and>
   max_bytes (expire_loop now todo c) = max_bytes c \<and> ttl_sec (expire_loop now todo c) = ttl_sec c"
proof (induction todo arbitrary: c)
  case (Cons nk todo)
  obtain n k where nk: "nk = (n, k)" by (cases nk) auto
  from Cons.prems(1) have l: "linked c" by (simp add: cache_wf_def)
  from Cons.prems(2) nk have mem: "(n, k) \<in> set (lru c)" by simp
  with l obtain e where e: "entries c k = Some e" using linkedD(1) by blast
  have val: "(r = ent_response e \<and> x = ent_expiry e) = True" if "(k, r, x) \<in> set (contents c)" for r x
    using that e by (auto simp: contents_def spec_of_def)
  show ?case
  proof (cases "ent_expiry e \<le> now")
    case True
    let ?d = "drop_entry n k e c"
    note d = drop_entry_wf [OF Cons.prems(1) mem e]
    have "set todo \<subseteq> set (lru ?d)"
      using Cons.prems(2,3) erase_linked [OF l mem] by (force simp: nk)
    with Cons.IH [OF d(1)] Cons.prems(3) True e nk d(2) show ?thesis
      by (auto simp: drop_entry_def spec_remove_def intro!: filter_cong dest!: val)
  next
    case False
    with Cons.IH [OF Cons.prems(1)] Cons.prems(2,3) e nk show ?thesis
      by (auto intro!: filter_cong dest!: val)
  qed
qed simp

lemma EvictExpired_refines:
  assumes "cache_wf c"
  shows "cache_wf (EvictExpired now c)"
    and "contents (EvictExpired now c) = spec_expire now (contents c)"
    and "max_bytes (EvictExpired now c) = max_bytes c" "ttl_sec (EvictExpired now c) = ttl_sec c"
proof -
  from assms have "distinct (map snd (lru c))" by (simp add: cache_wf_def linkedD(5))
  note r = expire_loop_refines [OF assms order_refl this]
  have "filter (\<lambda>(k, r, x). k \<in> snd ` set (lru c) \<longrightarrow> now < x) (contents c) = spec_expire now (contents c)"
    unfolding spec_expire_def by (rule filter_cong) (force simp: contents_def spec_of_def)+
  with r show "cache_wf (EvictExpired now c)"
    "contents (EvictExpired now c) = spec_expire now (contents c)"
    "max_bytes (EvictExpired now c) = max_bytes c" "ttl_sec (EvictExpired now c) = ttl_sec c"
    by (simp_all add: EvictExpired_def)
qed

lemma contents_Nil: "contents c = [] \<longleftrightarrow> lru c = []"
  by (simp add: contents_def)

lemma EvictIfNeeded_refines:
  "cache_wf c \<Longrightarrow>
   cache_wf (EvictIfNeeded c) \<and>
   contents (EvictIfNeeded c) = spec_trim (unat (max_bytes c)) (contents c) \<and>
   max_bytes (EvictIfNeeded c) = max_bytes c \<and> ttl_sec (EvictIfNeeded c) = ttl_sec c"
proof (induction c rule: EvictIfNeeded.induct)
  case (1 c)
  from 1(2) have l: "linked c" and cb: "current_bytes c = word_of_nat (total_size (contents c))"
    and tb: "total_size (contents c) < 2 ^ 64" by (simp_all add: cache_wf_def)
  have full: "max_bytes c < current_bytes c \<longleftrightarrow> unat (max_bytes c) < total_size (contents c)"
    using tb by (simp add: cb word_less_nat_alt unat_of_nat)
  show ?case
  proof (cases "max_bytes c < current_bytes c \<and> lru c \<noteq> []")
    case True
    then obtain n k rest where q: "lru c = (n, k) # rest" by (cases "lru c") auto
    then obtain e where e: "entries c k = Some e" using linkedD(1) [OF l, of n k] by auto
    let ?d = "drop_entry n k e c"
    have mem: "(n, k) \<in> set (lru c)" by (simp add: q)
    note d = drop_entry_wf [OF 1(2) mem e]
    have "k \<notin> snd ` set rest" using linkedD(5) [OF l] by (simp add: q)
    then have rest: "erase_node n (lru c) = rest"
      using erase_linked [OF l mem] by (force simp: q intro: filter_True)
    then have step: "EvictIfNeeded c = EvictIfNeeded ?d"
      using True e by (subst EvictIfNeeded.simps) (simp add: q drop_entry_def)
    have "contents ?d = tl (contents c)"
      using \<open>k \<notin> snd ` set rest\<close>
      unfolding d(2) by (force simp: contents_def q spec_of_def spec_remove_def filter_id_conv)
    moreover have "contents c = hd (contents c) # tl (contents c)" by (simp add: contents_def q)
    ultimately have "spec_trim (unat (max_bytes c)) (contents c) =
        spec_trim (unat (max_bytes c)) (contents ?d)"
      using True full by (metis spec_trim.simps(2))
    moreover have "cache_wf (EvictIfNeeded ?d) \<and>
        contents (EvictIfNeeded ?d) = spec_trim (unat (max_bytes ?d)) (contents ?d) \<and>
        max_bytes (EvictIfNeeded ?d) = max_bytes ?d \<and> ttl_sec (EvictIfNeeded ?d) = ttl_sec ?d"
      using 1(1) [OF True refl refl] d(1) e rest by (simp add: q drop_entry_def)
    ultimately show ?thesis by (simp add: step)
  next
    case False
    then have "spec_trim (unat (max_bytes c)) (contents c) = contents c"
      using full by (cases "contents c") (auto simp: contents_Nil [symmetric])
    with False 1(2) show ?thesis by (subst (1 2 3 4) EvictIfNeeded.simps) auto
  qed
qed

lemma total_spec_trim: "total_size (spec_trim limit xs) \<le> limit"
  by (induction xs) auto

subsection \<open>Adding one entry; the operations refine the specification\<close>

definition add_entry :: "string \<Rightarrow> bytes \<Rightarrow> int \<Rightarrow> dns_cache \<Rightarrow> dns_cache" where
  "add_entry k r x c =
     c\<lparr>lru := lru c @ [(next_node c, k)], next_node := next_node c + 1,
       entries := (entries c)(k \<mapsto> \<lparr>ent_response = r, ent_expiry = x,
                     ent_size = word_of_nat (length r), ent_lru_it = next_node c\<rparr>),
       current_bytes := current_bytes c + word_of_nat (length r)\<rparr>"

lemma add_entry_wf:
  assumes "cache_wf c" "entries c k = None" "total_size (contents c) + length r < 2 ^ 64"
  shows "cache_wf (add_entry k r x c)"
    and "contents (add_entry k r x c) = contents c @ [(k, r, x)]"
    and "max_bytes (add_entry k r x c) = max_bytes c" "ttl_sec (add_entry k r x c) = ttl_sec c"
proof -
  from assms(1) have l: "linked c" by (simp add: cache_wf_def)
  have k: "k \<notin> snd ` set (lru c)" using linkedD(1) [OF l] assms(2) by force
  have n: "next_node c \<notin> fst ` set (lru c)" using linkedD(3) [OF l] by force
  have "linked (add_entry k r x c)"
    using l k n linkedD(3) [OF l] assms(2)
    by (auto simp: linked_def add_entry_def less_Suc_eq)
  moreover show con: "contents (add_entry k r x c) = contents c @ [(k, r, x)]"
    using k by (force simp: contents_def add_entry_def spec_of_def)
  ultimately show "cache_wf (add_entry k r x c)"
    using assms by (simp add: cache_wf_def con) (simp add: add_entry_def)
qed (simp_all add: add_entry_def)

text \<open>What \<open>Get\<close> and \<open>Put\<close> do to a key: drop its entry if there is one, then add one.\<close>

definition remove_key :: "string \<Rightarrow> dns_cache \<Rightarrow> dns_cache" where
  "remove_key k c =
     (case entries c k of None \<Rightarrow> c | Some e \<Rightarrow> drop_entry (ent_lru_it e) k e c)"

lemma remove_key_wf:
  assumes "cache_wf c"
  shows "cache_wf (remove_key k c)" "contents (remove_key k c) = spec_remove k (contents c)"
    "entries (remove_key k c) k = None"
    "max_bytes (remove_key k c) = max_bytes c" "ttl_sec (remove_key k c) = ttl_sec c"
proof -
  from assms have l: "linked c" by (simp add: cache_wf_def)
  have "cache_wf (remove_key k c) \<and> contents (remove_key k c) = spec_remove k (contents c)"
  proof (cases "entries c k")
    case None
    then have "map_of (contents c) k = None" by (simp add: map_of_contents [OF l])
    then have "spec_remove k (contents c) = contents c"
      by (force simp: spec_remove_def filter_id_conv map_of_eq_None_iff)
    with None assms show ?thesis by (simp add: remove_key_def)
  next
    case (Some e)
    then have "(ent_lru_it e, k) \<in> set (lru c)" using linkedD(1) [OF l] by blast
    from drop_entry_wf [OF assms this Some] Some show ?thesis by (simp add: remove_key_def)
  qed
  then show "cache_wf (remove_key k c)" "contents (remove_key k c) = spec_remove k (contents c)"
    by simp_all
qed (auto simp: remove_key_def split: option.splits)

lemma cache_get_hit:
  assumes "cache_wf c" "entries c k = Some e"
  shows "c\<lparr>lru := erase_node (ent_lru_it e) (lru c) @ [(next_node c, k)],
           next_node := next_node c + 1, entries := (entries c)(k \<mapsto> e\<lparr>ent_lru_it := next_node c\<rparr>)\<rparr>
    = add_entry k (ent_response e) (ent_expiry e) (remove_key k c)"
proof -
  have s: "ent_size e = word_of_nat (length (ent_response e))"
    using assms linkedD(2) by (auto simp: cache_wf_def)
  with assms(2) show ?thesis
    by (cases e) (simp add: add_entry_def remove_key_def drop_entry_def)
qed

lemma cache_get_refines:
  assumes "cache_wf c"
  shows "cache_wf (snd (cache_get now c k))"
    and "(fst (cache_get now c k), contents (snd (cache_get now c k))) = spec_get now k (contents c)"
    and "max_bytes (snd (cache_get now c k)) = max_bytes c"
      "ttl_sec (snd (cache_get now c k)) = ttl_sec c"
proof -
  let ?c = "EvictExpired now c"
  note ev = EvictExpired_refines [OF assms, of now]
  from ev(1) have l: "linked ?c" by (simp add: cache_wf_def)
  have m: "map_of (spec_expire now (contents c)) k =
      map_option (\<lambda>e. (ent_response e, ent_expiry e)) (entries ?c k)"
    using map_of_contents [OF l, of k] by (simp add: ev(2))
  have "cache_wf (snd (cache_get now c k)) \<and>
    (fst (cache_get now c k), contents (snd (cache_get now c k))) = spec_get now k (contents c) \<and>
    max_bytes (snd (cache_get now c k)) = max_bytes c \<and> ttl_sec (snd (cache_get now c k)) = ttl_sec c"
  proof (cases "entries ?c k")
    case None
    with ev m show ?thesis by (simp add: cache_get_def spec_get_def)
  next
    case (Some e)
    note rk = remove_key_wf [OF ev(1), of k]
    have "total_size (contents ?c) = total_size (spec_remove k (contents ?c)) + length (ent_response e)"
      using total_remove [OF distinct_contents [OF l]] map_of_contents [OF l, of k] Some by simp
    moreover have "total_size (contents ?c) < 2 ^ 64" using ev(1) by (simp add: cache_wf_def)
    ultimately have "total_size (contents (remove_key k ?c)) + length (ent_response e) < 2 ^ 64"
      by (simp add: rk(2))
    note ae = add_entry_wf [OF rk(1,3) this, of "ent_expiry e"]
    have "snd (cache_get now c k) =
        add_entry k (ent_response e) (ent_expiry e) (remove_key k ?c)"
      "fst (cache_get now c k) = Some (ent_response e)"
      using cache_get_hit [OF ev(1) Some] Some by (simp_all add: cache_get_def Let_def)
    with ae rk ev m Some show ?thesis by (simp add: spec_get_def Let_def)
  qed
  then show "cache_wf (snd (cache_get now c k))"
    "(fst (cache_get now c k), contents (snd (cache_get now c k))) = spec_get now k (contents c)"
    "max_bytes (snd (cache_get now c k)) = max_bytes c"
    "ttl_sec (snd (cache_get now c k)) = ttl_sec c" by simp_all
qed

lemma cache_put_eq:
  "cache_put now now' c k r =
     (let d = remove_key k (EvictExpired now c)
      in EvictIfNeeded (add_entry k r (now' + uint (ttl_sec d)) d))"
  by (simp add: cache_put_def remove_key_def add_entry_def drop_entry_def Let_def
      split: option.split)

lemma cache_put_refines:
  assumes "cache_wf c" "total_size (contents c) + length r < 2 ^ 64"
  shows "cache_wf (cache_put now now' c k r)"
    and "contents (cache_put now now' c k r) =
      spec_put (unat (max_bytes c)) (uint (ttl_sec c)) now now' k r (contents c)"
    and "max_bytes (cache_put now now' c k r) = max_bytes c"
      "ttl_sec (cache_put now now' c k r) = ttl_sec c"
proof -
  let ?c = "EvictExpired now c"
  let ?d = "remove_key k ?c"
  note ev = EvictExpired_refines [OF assms(1), of now]
  note rk = remove_key_wf [OF ev(1), of k]
  have "total_size (contents ?d) \<le> total_size (contents c)"
    unfolding rk(2) ev(2) using total_remove_le total_expire_le by (rule order_trans)
  with assms(2) have "total_size (contents ?d) + length r < 2 ^ 64" by simp
  note ae = add_entry_wf [OF rk(1,3) this, of "now' + uint (ttl_sec ?d)"]
  note ei = EvictIfNeeded_refines [OF ae(1)]
  show "cache_wf (cache_put now now' c k r)"
    "contents (cache_put now now' c k r) =
      spec_put (unat (max_bytes c)) (uint (ttl_sec c)) now now' k r (contents c)"
    "max_bytes (cache_put now now' c k r) = max_bytes c"
    "ttl_sec (cache_put now now' c k r) = ttl_sec c"
    using ei ae rk ev by (simp_all add: cache_put_eq Let_def spec_put_def)
qed

subsection \<open>The invariant of every reachable cache\<close>

text \<open>
  A response can be stored next to a full cache without the \<open>size_t\<close> count wrapping: true of
  anything that fits in memory.
\<close>

definition storable :: "dns_cache \<Rightarrow> bytes \<Rightarrow> bool" where
  "storable c r \<longleftrightarrow> unat (max_bytes c) + length r < 2 ^ 64"

inductive cache_step :: "dns_cache \<Rightarrow> dns_cache \<Rightarrow> bool" where
  step_get: "cache_step c (snd (cache_get now c k))"
| step_put: "storable c r \<Longrightarrow> cache_step c (cache_put now now' c k r)"
| step_limits: "cache_step c (SetLimits c limit ttl)"

inductive cache_reachable :: "dns_cache \<Rightarrow> bool" where
  reach_new: "cache_reachable (new_cache limit ttl)"
| reach_step: "cache_reachable c \<Longrightarrow> cache_step c c' \<Longrightarrow> cache_reachable c'"

inductive_cases cache_stepE: "cache_step c c'"

lemma new_cache_inv: "cache_inv (new_cache limit ttl)"
  by (simp add: cache_inv_def cache_wf_def linked_def contents_def new_cache_def)

lemma cache_wf_limits: "cache_wf c \<Longrightarrow> cache_wf (c\<lparr>max_bytes := l, ttl_sec := t\<rparr>)"
  by (simp add: cache_wf_def linked_def contents_def)

lemma SetLimits_refines:
  assumes "cache_wf c"
  shows "cache_inv (SetLimits c limit ttl)"
    and "contents (SetLimits c limit ttl) = spec_trim (unat limit) (contents c)"
proof -
  have "contents (c\<lparr>max_bytes := limit, ttl_sec := ttl\<rparr>) = contents c" by (simp add: contents_def)
  with EvictIfNeeded_refines [OF cache_wf_limits [OF assms, where l = limit and t = ttl]] total_spec_trim
  show "cache_inv (SetLimits c limit ttl)"
    "contents (SetLimits c limit ttl) = spec_trim (unat limit) (contents c)"
    by (simp_all add: SetLimits_def cache_inv_def)
qed

lemma total_spec_get: "distinct (map fst xs) \<Longrightarrow> total_size (snd (spec_get now k xs)) \<le> total_size xs"
proof -
  assume "distinct (map fst xs)"
  then have d: "distinct (map fst (spec_expire now xs))"
    by (simp add: spec_expire_def distinct_map_filter)
  show ?thesis
    using total_expire_le [of now xs] total_remove [OF d, of k]
    by (auto simp: spec_get_def Let_def split: option.splits)
qed

lemma cache_get_inv:
  assumes "cache_inv c"
  shows "cache_inv (snd (cache_get now c k))"
proof -
  from assms have wf: "cache_wf c" and b: "total_size (contents c) \<le> unat (max_bytes c)"
    and l: "linked c" by (simp_all add: cache_inv_def cache_wf_def)
  note g = cache_get_refines [OF wf, of now k]
  from g(2) have "contents (snd (cache_get now c k)) = snd (spec_get now k (contents c))"
    by (metis snd_conv)
  with total_spec_get [OF distinct_contents [OF l], of now k] b g show ?thesis
    by (simp add: cache_inv_def)
qed

lemma cache_put_inv:
  assumes "cache_inv c" "storable c r"
  shows "cache_inv (cache_put now now' c k r)"
proof -
  from assms have "cache_wf c" "total_size (contents c) + length r < 2 ^ 64"
    by (auto simp: cache_inv_def storable_def)
  from cache_put_refines [OF this] total_spec_trim show ?thesis
    by (simp add: cache_inv_def spec_put_def)
qed

lemma cache_inv_wf: "cache_inv c \<Longrightarrow> cache_wf c"
  by (simp add: cache_inv_def)

lemma cache_step_inv: "cache_step c c' \<Longrightarrow> cache_inv c \<Longrightarrow> cache_inv c'"
  by (induction rule: cache_step.induct)
    (auto intro: cache_get_inv cache_put_inv SetLimits_refines(1) dest: cache_inv_wf)

lemma cache_reachable_inv: "cache_reachable c \<Longrightarrow> cache_inv c"
  by (induction rule: cache_reachable.induct) (auto intro: new_cache_inv cache_step_inv)

subsection \<open>The interface the server relies on\<close>

datatype cache_op = Op_get int string | Op_put int int string bytes

primrec run_ops ::
    "(int \<Rightarrow> 's \<Rightarrow> string \<Rightarrow> bytes option \<times> 's) \<Rightarrow> (int \<Rightarrow> int \<Rightarrow> 's \<Rightarrow> string \<Rightarrow> bytes \<Rightarrow> 's) \<Rightarrow>
     cache_op list \<Rightarrow> 's \<Rightarrow> 's" where
  "run_ops get put [] s = s"
| "run_ops get put (x # xs) s =
     run_ops get put xs
       (case x of Op_get t k \<Rightarrow> snd (get t s k) | Op_put t t' k r \<Rightarrow> put t t' s k r)"

locale response_store =
  fixes get :: "int \<Rightarrow> 's \<Rightarrow> string \<Rightarrow> bytes option \<times> 's"
    and put :: "int \<Rightarrow> int \<Rightarrow> 's \<Rightarrow> string \<Rightarrow> bytes \<Rightarrow> 's"
    and stored :: "'s \<Rightarrow> string \<Rightarrow> (bytes \<times> int) option"
    and lifetime :: "'s \<Rightarrow> int"
    and inv :: "'s \<Rightarrow> bool"
    and fits :: "'s \<Rightarrow> bytes \<Rightarrow> bool"
  assumes inv_get: "inv s \<Longrightarrow> inv (snd (get t s k))"
    and inv_put: "inv s \<Longrightarrow> fits s r \<Longrightarrow> inv (put t t' s k r)"
    and get_result: "inv s \<Longrightarrow> fst (get t s k) =
      (case stored s k of None \<Rightarrow> None | Some (r, x) \<Rightarrow> if t < x then Some r else None)"
    and get_stored: "inv s \<Longrightarrow> stored (snd (get t s k)) j =
      (case stored s j of None \<Rightarrow> None | Some (r, x) \<Rightarrow> if t < x then Some (r, x) else None)"
    and put_stored: "inv s \<Longrightarrow> fits s r \<Longrightarrow> stored (put t t' s k r) j = Some (q, x) \<Longrightarrow>
      if j = k then q = r \<and> x = t' + lifetime s else stored s j = Some (q, x)"
    and limits_get: "inv s \<Longrightarrow> lifetime (snd (get t s k)) = lifetime s \<and> fits (snd (get t s k)) = fits s"
    and limits_put: "inv s \<Longrightarrow> fits s r \<Longrightarrow>
      lifetime (put t t' s k r) = lifetime s \<and> fits (put t t' s k r) = fits s"
begin

definition op_fits :: "'s \<Rightarrow> cache_op \<Rightarrow> bool" where
  "op_fits s x \<longleftrightarrow> (case x of Op_get t k \<Rightarrow> True | Op_put t t' k r \<Rightarrow> fits s r)"

lemma run_stored:
  "inv s \<Longrightarrow> list_all (op_fits s) xs \<Longrightarrow> stored (run_ops get put xs s) k = Some (r, x) \<Longrightarrow>
   stored s k = Some (r, x) \<or> (\<exists>t t'. Op_put t t' k r \<in> set xs \<and> x = t' + lifetime s)"
proof (induction xs arbitrary: s)
  case (Cons y ys)
  show ?case
  proof (cases y)
    case (Op_get t j)
    have "op_fits (snd (get t s j)) = op_fits s"
      using limits_get [OF Cons.prems(1)] by (simp add: op_fits_def fun_eq_iff split: cache_op.split)
    with Cons.IH [OF inv_get [OF Cons.prems(1)], of t j] Cons.prems Op_get
      limits_get [OF Cons.prems(1), of t j] get_stored [OF Cons.prems(1), of t j k]
    show ?thesis by (auto split: option.splits if_splits)
  next
    case (Op_put t t' j q)
    then have f: "fits s q" using Cons.prems(2) by (simp add: op_fits_def)
    have "op_fits (put t t' s j q) = op_fits s"
      using limits_put [OF Cons.prems(1) f] by (simp add: op_fits_def fun_eq_iff split: cache_op.split)
    with Cons.IH [OF inv_put [OF Cons.prems(1) f], of t t' j] Cons.prems Op_put
      limits_put [OF Cons.prems(1) f, of t t' j] put_stored [OF Cons.prems(1) f, of t t' j k r x]
    show ?thesis by (auto split: if_splits)
  qed
qed simp

lemma run_inv:
  "inv s \<Longrightarrow> list_all (op_fits s) xs \<Longrightarrow> inv (run_ops get put xs s)"
proof (induction xs arbitrary: s)
  case (Cons y ys)
  then show ?case
    by (cases y)
      (auto simp: op_fits_def limits_get limits_put list_all_iff inv_get inv_put
        intro!: Cons.IH split: cache_op.splits)
qed simp

text \<open>A hit is a response that was put under that key and has not outlived the lifetime.\<close>

lemma hit_was_put:
  assumes "inv s" "list_all (op_fits s) xs" "stored s = Map.empty"
    and "fst (get now (run_ops get put xs s) k) = Some r"
  shows "\<exists>t t'. Op_put t t' k r \<in> set xs \<and> now < t' + lifetime s"
proof -
  have "inv (run_ops get put xs s)" using run_inv assms(1,2) by blast
  from get_result [OF this, of now k] assms(4) obtain x where
    "stored (run_ops get put xs s) k = Some (r, x)" "now < x"
    by (auto split: option.splits if_splits)
  with run_stored [OF assms(1,2), of k r x] assms(3) show ?thesis by auto
qed

end

end
