(* ===== verification/Cache_Laws.thy ===== *)
theory Cache_Laws
  imports Cache "HOL-Library.Multiset"
begin

text \<open>
  \<open>DnsCache\<close> keeps the contract \<open>response_store\<close> that the server relies on, and the
  properties of the cache that follow from the refinement and from that contract.
\<close>

subsection \<open>The cache keeps the contract\<close>

definition cache_stored :: "dns_cache \<Rightarrow> string \<Rightarrow> (bytes \<times> int) option" where
  "cache_stored c k = map_of (contents c) k"

definition cache_lifetime :: "dns_cache \<Rightarrow> int" where
  "cache_lifetime c = uint (ttl_sec c)"

lemma map_of_expire:
  "distinct (map fst xs) \<Longrightarrow> map_of (spec_expire now xs) k =
     (case map_of xs k of None \<Rightarrow> None | Some (r, x) \<Rightarrow> if now < x then Some (r, x) else None)"
proof (induction xs)
  case (Cons y ys)
  obtain j r x where y: "y = (j, r, x)" by (cases y) auto
  have "map_of ys j = None" using Cons.prems by (simp add: y map_of_eq_None_iff)
  with Cons show ?case by (auto simp: y spec_expire_def split: if_splits)
qed (simp add: spec_expire_def)

lemma map_of_remove: "map_of (spec_remove k xs) j = (if j = k then None else map_of xs j)"
  by (induction xs) (auto simp: spec_remove_def)

lemma map_of_trim: "map_of (spec_trim limit xs) k = Some v \<Longrightarrow> distinct (map fst xs) \<Longrightarrow> map_of xs k = Some v"
proof (induction xs)
  case (Cons y ys)
  obtain j w where y: "y = (j, w)" by (cases y)
  show ?case
  proof (cases "limit < total_size (y # ys)")
    case True
    with Cons have m: "map_of ys k = Some v" by simp
    moreover have "j \<noteq> k" using m Cons.prems(2) by (force simp: y dest: map_of_SomeD)
    ultimately show ?thesis by (simp add: y)
  qed (use Cons.prems in simp)
qed simp

lemma map_of_snoc:
  "map_of (xs @ [(k, v)]) j = (case map_of xs j of None \<Rightarrow> if j = k then Some v else None | Some w \<Rightarrow> Some w)"
  by (simp add: map_add_def split: option.split)

lemma distinct_spec_put:
  "distinct (map fst xs) \<Longrightarrow> distinct (map fst (spec_remove k (spec_expire now xs) @ [(k, r, x)]))"
  by (auto simp: spec_remove_def spec_expire_def distinct_map_filter)

lemma spec_get_simps:
  "fst (spec_get now k xs) = map_option fst (map_of (spec_expire now xs) k)"
  "map_of (snd (spec_get now k xs)) j = map_of (spec_expire now xs) j"
  by (auto simp: spec_get_def Let_def map_of_remove map_of_snoc simp del: map_of_append
      split: option.split)

interpretation dnscache: response_store cache_get cache_put cache_stored cache_lifetime cache_inv storable
proof
  fix c :: dns_cache and now k j
  assume inv: "cache_inv c"
  then have wf: "cache_wf c" and d: "distinct (map fst (contents c))"
    by (simp_all add: cache_inv_def cache_wf_def distinct_contents)
  note g = cache_get_refines [OF wf, of now k]
  show "cache_inv (snd (cache_get now c k))" by (rule cache_get_inv [OF inv])
  show "fst (cache_get now c k) =
      (case cache_stored c k of None \<Rightarrow> None | Some (r, x) \<Rightarrow> if now < x then Some r else None)"
    using g(2) map_of_expire [OF d, of now k] spec_get_simps(1) [of now k "contents c"]
    by (auto simp: cache_stored_def split: option.splits if_splits dest: arg_cong [where f = fst])
  show "cache_stored (snd (cache_get now c k)) j =
      (case cache_stored c j of None \<Rightarrow> None | Some (r, x) \<Rightarrow> if now < x then Some (r, x) else None)"
    using g(2) map_of_expire [OF d, of now j] spec_get_simps(2) [of now k "contents c" j]
    by (metis cache_stored_def snd_conv)
  show "cache_lifetime (snd (cache_get now c k)) = cache_lifetime c \<and>
      storable (snd (cache_get now c k)) = storable c"
    using g(3,4) by (simp add: cache_lifetime_def storable_def fun_eq_iff)
next
  fix c :: dns_cache and r now now' k j q x
  assume inv: "cache_inv c" and st: "storable c r"
  then have wf: "cache_wf c" and d: "distinct (map fst (contents c))"
    and fit: "total_size (contents c) + length r < 2 ^ 64"
    by (auto simp: cache_inv_def cache_wf_def distinct_contents storable_def)
  note p = cache_put_refines [OF wf fit, of now now' k]
  show "cache_inv (cache_put now now' c k r)" by (rule cache_put_inv [OF inv st])
  show "cache_lifetime (cache_put now now' c k r) = cache_lifetime c \<and>
      storable (cache_put now now' c k r) = storable c"
    using p(3,4) by (simp add: cache_lifetime_def storable_def fun_eq_iff)
  assume "cache_stored (cache_put now now' c k r) j = Some (q, x)"
  from map_of_trim [OF this [unfolded cache_stored_def p(2) spec_put_def] distinct_spec_put [OF d]]
  show "if j = k then q = r \<and> x = now' + cache_lifetime c else cache_stored c j = Some (q, x)"
    using map_of_expire [OF d, of now j]
    by (auto simp: map_of_snoc map_of_remove cache_lifetime_def cache_stored_def
        simp del: map_of_append split: option.splits if_splits)
qed

subsection \<open>Properties\<close>

lemma cache_put_contents:
  assumes "cache_inv c" "storable c r"
  shows "contents (cache_put now now' c k r) =
    spec_put (unat (max_bytes c)) (uint (ttl_sec c)) now now' k r (contents c)"
proof -
  from assms have "cache_wf c" "total_size (contents c) + length r < 2 ^ 64"
    by (auto simp: cache_inv_def storable_def)
  then show ?thesis by (rule cache_put_refines(2))
qed

text \<open>
  A run of operations with the answers of its \<open>Get\<close> calls, over any cache. \<open>lru_get\<close> and
  \<open>plan_put\<close> make the specification: a list of live entries, from which an insertion drops
  entries at the front until the rest fits. With \<open>plan_get\<close> in place of \<open>lru_get\<close> the list is in
  the order of insertion; this is the cache of \<open>PLAN.md\<close>, which drops the oldest entry first.
\<close>

fun observe ::
    "(int \<Rightarrow> 's \<Rightarrow> string \<Rightarrow> bytes option \<times> 's) \<Rightarrow> (int \<Rightarrow> int \<Rightarrow> 's \<Rightarrow> string \<Rightarrow> bytes \<Rightarrow> 's) \<Rightarrow>
     cache_op list \<Rightarrow> 's \<Rightarrow> bytes option list \<times> 's" where
  "observe get put [] s = ([], s)"
| "observe get put (Op_get t k # xs) s =
     (case get t s k of (a, s) \<Rightarrow> case observe get put xs s of (as, s) \<Rightarrow> (a # as, s))"
| "observe get put (Op_put t t' k r # xs) s = observe get put xs (put t t' s k r)"

definition lru_get :: "int \<Rightarrow> spec_entry list \<Rightarrow> string \<Rightarrow> bytes option \<times> spec_entry list" where
  "lru_get now xs k = spec_get now k xs"

definition plan_get :: "int \<Rightarrow> spec_entry list \<Rightarrow> string \<Rightarrow> bytes option \<times> spec_entry list" where
  "plan_get now xs k = (map_option fst (map_of (spec_expire now xs) k), spec_expire now xs)"

definition plan_put ::
    "nat \<Rightarrow> int \<Rightarrow> int \<Rightarrow> int \<Rightarrow> spec_entry list \<Rightarrow> string \<Rightarrow> bytes \<Rightarrow> spec_entry list" where
  "plan_put limit ttl now now' xs k r = spec_put limit ttl now now' k r xs"

lemma observe_contents:
  assumes "cache_inv c" "list_all (dnscache.op_fits c) ops" "observe cache_get cache_put ops c = (as, d)"
  shows "(as, contents d) = observe lru_get (plan_put (unat (max_bytes c)) (uint (ttl_sec c))) ops (contents c)"
  using assms
proof (induction ops arbitrary: c as)
  case (Cons x xs)
  show ?case
  proof (cases x)
    case (Op_get t k)
    obtain a c1 where g: "cache_get t c k = (a, c1)" by fastforce
    obtain bs where o: "observe cache_get cache_put xs c1 = (bs, d)" "as = a # bs"
      using Cons.prems(3) by (auto simp: Op_get g split: prod.splits)
    have i: "cache_inv c1" using dnscache.inv_get [OF Cons.prems(1), of t k] by (simp add: g)
    have "dnscache.op_fits c1 = dnscache.op_fits c"
      using dnscache.limits_get [OF Cons.prems(1), of t k]
      by (simp add: g dnscache.op_fits_def fun_eq_iff split: cache_op.split)
    then have f: "list_all (dnscache.op_fits c1) xs" using Cons.prems(2) by simp
    show ?thesis
      using Cons.IH [OF i f o(1)] cache_get_refines(2-4) [OF cache_inv_wf [OF Cons.prems(1)], of t k]
      by (auto simp: Op_get g o(2) lru_get_def split: prod.split)
  next
    case (Op_put t t' k r)
    then have st: "storable c r" using Cons.prems(2) by (simp add: dnscache.op_fits_def)
    have fit: "total_size (contents c) + length r < 2 ^ 64"
      using Cons.prems(1) st by (simp add: cache_inv_def storable_def)
    have "dnscache.op_fits (cache_put t t' c k r) = dnscache.op_fits c"
      using dnscache.limits_put [OF Cons.prems(1) st, of t t' k]
      by (simp add: dnscache.op_fits_def fun_eq_iff split: cache_op.split)
    then have f: "list_all (dnscache.op_fits (cache_put t t' c k r)) xs" using Cons.prems(2) by simp
    show ?thesis
      using Cons.IH [OF cache_put_inv [OF Cons.prems(1) st] f, of as] Cons.prems(3)
        cache_put_refines(2-4) [OF cache_inv_wf [OF Cons.prems(1)] fit, of t t' k]
      by (simp add: Op_put plan_put_def)
  qed
qed simp

text \<open>Without a hit the order is that of insertion.\<close>

lemma observe_no_hit:
  "observe lru_get put ops xs = (as, ys) \<Longrightarrow> list_all (\<lambda>a. a = None) as \<Longrightarrow> observe plan_get put ops xs = (as, ys)"
proof (induction ops arbitrary: xs as)
  case (Cons x ops)
  show ?case
  proof (cases x)
    case (Op_get t k)
    obtain a zs where g: "lru_get t xs k = (a, zs)" by fastforce
    obtain bs where o: "observe lru_get put ops zs = (bs, ys)" "as = a # bs"
      using Cons.prems(1) by (auto simp: Op_get g split: prod.splits)
    then have "plan_get t xs k = (None, zs)" "a = None"
      using g Cons.prems(2) by (auto simp: lru_get_def spec_get_def plan_get_def Let_def split: option.splits)
    then show ?thesis using Cons.IH [OF o(1)] Cons.prems(2) by (simp add: Op_get o(2))
  qed (use Cons in simp)
qed simp

text \<open>While everything fits, the two orders hold the same entries.\<close>

definition same_entries :: "spec_entry list \<Rightarrow> spec_entry list \<Rightarrow> bool" where
  "same_entries xs ys \<longleftrightarrow> mset xs = mset ys \<and> distinct (map fst xs)"

definition put_bytes :: "cache_op list \<Rightarrow> nat" where
  "put_bytes ops = sum_list (map (\<lambda>x. case x of Op_get t k \<Rightarrow> 0 | Op_put t t' k r \<Rightarrow> length r) ops)"

lemma same_entriesD:
  assumes "same_entries xs ys"
  shows "total_size ys = total_size xs" "map_of ys = map_of xs" "distinct (map fst ys)"
proof -
  have m: "mset xs = mset ys" "distinct (map fst xs)" using assms by (simp_all add: same_entries_def)
  show "total_size ys = total_size xs"
    unfolding total_size_def sum_mset_sum_list [symmetric] mset_map m(1) ..
  show d: "distinct (map fst ys)"
    using m mset_eq_imp_distinct_iff [of "map fst xs" "map fst ys"] by simp
  show "map_of ys = map_of xs"
    using m d by (metis map_of_inject_set set_mset_mset)
qed

lemma spec_trim_fits: "total_size xs \<le> limit \<Longrightarrow> spec_trim limit xs = xs"
  by (cases xs) simp_all

lemma same_entries_put:
  assumes "same_entries xs ys" "total_size xs + length r \<le> limit"
  shows "same_entries (plan_put limit ttl t t' xs k r) (plan_put limit ttl t t' ys k r)"
    "total_size (plan_put limit ttl t t' xs k r) \<le> total_size xs + length r"
proof -
  let ?f = "\<lambda>zs. spec_remove k (spec_expire t zs)"
  have m: "mset (?f xs) = mset (?f ys)"
    using assms(1) by (simp add: same_entries_def spec_remove_def spec_expire_def)
  have d: "distinct (map fst (?f xs @ [(k, r, t' + ttl)]))"
    using assms(1) by (intro distinct_spec_put) (simp add: same_entries_def)
  have t: "total_size (?f zs) \<le> total_size zs" for zs
    using total_remove_le total_expire_le by (rule order_trans)
  have p: "plan_put limit ttl t t' zs k r = ?f zs @ [(k, r, t' + ttl)]" if "total_size zs + length r \<le> limit" for zs
    using t [of zs] that unfolding plan_put_def spec_put_def by (intro spec_trim_fits) simp
  have py: "plan_put limit ttl t t' ys k r = ?f ys @ [(k, r, t' + ttl)]"
    using p [of ys] assms(2) same_entriesD(1) [OF assms(1)] by simp
  show "same_entries (plan_put limit ttl t t' xs k r) (plan_put limit ttl t t' ys k r)"
    unfolding p [OF assms(2)] py using m d by (simp add: same_entries_def)
  show "total_size (plan_put limit ttl t t' xs k r) \<le> total_size xs + length r"
    unfolding p [OF assms(2)] using t [of xs] by simp
qed

lemma mset_spec_remove:
  "distinct (map fst ys) \<Longrightarrow> map_of ys k = Some v \<Longrightarrow> mset ys = add_mset (k, v) (mset (spec_remove k ys))"
proof (induction ys)
  case (Cons y ys)
  show ?case
  proof (cases "fst y = k")
    case True
    then have "k \<notin> fst ` set ys" using Cons.prems(1) by simp
    then have "spec_remove k ys = ys"
      unfolding spec_remove_def by (intro filter_True) (auto simp: image_iff)
    with True Cons.prems(2) show ?thesis by (cases y) (simp add: spec_remove_def)
  next
    case False
    with Cons show ?thesis by (cases y) (simp add: spec_remove_def)
  qed
qed simp

lemma mset_spec_get:
  assumes "distinct (map fst xs)"
  shows "mset (snd (spec_get t k xs)) = mset (spec_expire t xs) \<and> distinct (map fst (snd (spec_get t k xs)))"
proof -
  have d: "distinct (map fst (spec_expire t xs))"
    using assms by (simp add: spec_expire_def distinct_map_filter)
  have m: "mset (snd (spec_get t k xs)) = mset (spec_expire t xs)"
    using mset_spec_remove [OF d, of k] by (auto simp: spec_get_def Let_def split: option.split)
  then have "mset (map fst (snd (spec_get t k xs))) = mset (map fst (spec_expire t xs))" by simp
  from mset_eq_imp_distinct_iff [OF this] d m show ?thesis by simp
qed

lemma same_entries_get:
  assumes "same_entries xs ys"
  shows "fst (lru_get t xs k) = fst (plan_get t ys k)" "same_entries (snd (lru_get t xs k)) (snd (plan_get t ys k))"
    "total_size (snd (lru_get t xs k)) \<le> total_size xs"
proof -
  have e: "same_entries (spec_expire t xs) (spec_expire t ys)"
    using assms by (simp add: same_entries_def spec_expire_def distinct_map_filter)
  have d: "distinct (map fst xs)" using assms by (simp add: same_entries_def)
  show "fst (lru_get t xs k) = fst (plan_get t ys k)"
    using same_entriesD(2) [OF e] by (simp add: lru_get_def plan_get_def spec_get_simps)
  have "mset (snd (spec_get t k xs)) = mset (spec_expire t xs) \<and> distinct (map fst (snd (spec_get t k xs)))"
    using mset_spec_get [OF d] by blast
  then show "same_entries (snd (lru_get t xs k)) (snd (plan_get t ys k))"
    using e by (simp add: same_entries_def lru_get_def plan_get_def)
  show "total_size (snd (lru_get t xs k)) \<le> total_size xs"
    unfolding lru_get_def by (rule total_spec_get [OF d])
qed

lemma observe_room:
  assumes "same_entries xs ys" "total_size xs + put_bytes ops \<le> limit"
  shows "fst (observe lru_get (plan_put limit ttl) ops xs) = fst (observe plan_get (plan_put limit ttl) ops ys)"
  using assms
proof (induction ops arbitrary: xs ys)
  case (Cons x ops)
  show ?case
  proof (cases x)
    case (Op_get t k)
    note g = same_entries_get [OF Cons.prems(1), of t k]
    have "total_size (snd (lru_get t xs k)) + put_bytes ops \<le> limit"
      using g(3) Cons.prems(2) by (simp add: put_bytes_def Op_get)
    from Cons.IH [OF g(2) this] g(1) show ?thesis by (simp add: Op_get case_prod_unfold)
  next
    case (Op_put t t' k r)
    have f: "total_size xs + length r \<le> limit" using Cons.prems(2) by (simp add: put_bytes_def Op_put)
    note p = same_entries_put [OF Cons.prems(1) f, of ttl t t' k]
    have "total_size (plan_put limit ttl t t' xs k r) + put_bytes ops \<le> limit"
      using p(2) Cons.prems(2) by (simp add: put_bytes_def Op_put)
    from Cons.IH [OF p(1) this] show ?thesis by (simp add: Op_put)
  qed
qed simp


definition busy_ops :: "cache_op list" where
  "busy_ops = [Op_put 0 0 ''old|1'' [1], Op_put 1 1 ''young|1'' [2], Op_get 2 ''old|1'', Op_put 3 3 ''new|1'' [3],
     Op_get 4 ''young|1'', Op_get 4 ''old|1'']"


text \<open>
  C19: Iterator validity and budget. In every cache reachable by any sequence of \<open>Get\<close>,
  \<open>Put\<close> and \<open>SetLimits\<close>, every iterator stored in the map names exactly one node of the
  list and that node holds the entry's key, \<open>current_bytes_\<close> is the exact number of bytes
  stored (no wrap-around), and it never exceeds the configured maximum.
\<close>

theorem cache_invariant_reachable:
  assumes "cache_reachable c"
  shows "linked c \<and> unat (current_bytes c) = total_size (contents c) \<and> current_bytes c \<le> max_bytes c"
  using cache_reachable_inv [OF assms]
  by (auto simp: cache_inv_def cache_wf_def unat_of_nat word_le_nat_alt)

theorem cache_invariant_reachable_witness:
  "linked (cache_put 5 5 (new_cache 32 1) ''a|1'' (replicate 20 1)) \<and>
   current_bytes (cache_put 5 5 (new_cache 32 1) ''a|1'' (replicate 20 1)) \<le> 32"
proof -
  have "storable (new_cache 32 1) (replicate 20 1)" by (simp add: storable_def new_cache_def)
  then have r: "cache_reachable (cache_put 5 5 (new_cache 32 1) ''a|1'' (replicate 20 1))"
    by (intro reach_step [OF reach_new [of 32 1]] step_put)
  moreover have "max_bytes (cache_put 5 5 (new_cache 32 1) ''a|1'' (replicate 20 1)) = 32"
    by code_simp
  ultimately show ?thesis using cache_invariant_reachable [OF r] by simp
qed

text \<open>
  C20: A hit is fresh and was stored under its key. Starting from an empty cache, whatever the
  sequence of \<open>Get\<close> and \<open>Put\<close> calls, a response that \<open>Get\<close> returns for a key was put
  under that very key, less than the lifetime before.
\<close>

theorem cache_hit_was_put:
  assumes "list_all (\<lambda>x. case x of Op_get t k \<Rightarrow> True | Op_put t t' k r \<Rightarrow> storable (new_cache limit ttl) r) ops"
    and "fst (cache_get now (run_ops cache_get cache_put ops (new_cache limit ttl)) k) = Some r"
  shows "\<exists>t t'. Op_put t t' k r \<in> set ops \<and> now < t' + uint ttl"
proof -
  have "list_all (dnscache.op_fits (new_cache limit ttl)) ops"
    using assms(1) by (simp add: dnscache.op_fits_def list_all_iff)
  moreover have "cache_stored (new_cache limit ttl) = Map.empty"
    by (simp add: cache_stored_def contents_def new_cache_def fun_eq_iff)
  moreover have "cache_lifetime (new_cache limit ttl) = uint ttl"
    by (simp add: cache_lifetime_def new_cache_def)
  ultimately show ?thesis
    using dnscache.hit_was_put [OF new_cache_inv _ _ assms(2)] by simp
qed

theorem cache_hit_was_put_witness:
  "\<exists>t t'. Op_put t t' ''b|1'' [2, 2] \<in> set [Op_put 0 0 ''a|1'' [1], Op_put 1 1 ''b|1'' [2, 2], Op_get 2 ''a|1''] \<and>
     3 < t' + uint (10 :: u32)"
proof (rule cache_hit_was_put [of 32 10 _ 3])
  show "list_all (\<lambda>x. case x of Op_get t k \<Rightarrow> True | Op_put t t' k r \<Rightarrow> storable (new_cache 32 10) r)
      [Op_put 0 0 ''a|1'' [1], Op_put 1 1 ''b|1'' [2, 2], Op_get 2 ''a|1'']"
    by (simp add: storable_def new_cache_def)
  show "fst (cache_get 3 (run_ops cache_get cache_put
      [Op_put 0 0 ''a|1'' [1], Op_put 1 1 ''b|1'' [2, 2], Op_get 2 ''a|1''] (new_cache 32 10)) ''b|1'') =
      Some [2, 2]"
    by code_simp
qed

lemma spec_trim_keeps_last:
  "length r \<le> limit \<Longrightarrow> \<exists>ys. spec_trim limit (xs @ [(k, r, x)]) = ys @ [(k, r, x)] \<and> set ys \<subseteq> set xs"
proof (induction xs)
  case (Cons y ys)
  then obtain zs where "spec_trim limit (ys @ [(k, r, x)]) = zs @ [(k, r, x)]" "set zs \<subseteq> set ys" by blast
  then show ?case
    by (cases "limit < total_size (y # ys @ [(k, r, x)])") (auto intro: exI [of _ "y # ys"])
qed (auto intro: exI [of _ "[]"])

text \<open>
  Read your write: a response no larger than the maximum, put into a cache, is returned by
  a \<open>Get\<close> of the same key until its lifetime is over, and by none after that.
\<close>

lemma cache_get_after_put:
  assumes "cache_inv c" "storable c r" "length r \<le> unat (max_bytes c)"
  shows "fst (cache_get now'' (cache_put now now' c k r) k) =
    (if now'' < now' + uint (ttl_sec c) then Some r else None)"
proof -
  let ?x = "now' + uint (ttl_sec c)" and ?d = "cache_put now now' c k r"
  from assms have wf: "cache_wf c" and fit: "total_size (contents c) + length r < 2 ^ 64"
    by (auto simp: cache_inv_def storable_def)
  note p = cache_put_refines [OF wf fit, of now now' k]
  from spec_trim_keeps_last [OF assms(3), of "spec_remove k (spec_expire now (contents c))" k ?x]
  obtain ys where ys: "contents ?d = ys @ [(k, r, ?x)]"
    "set ys \<subseteq> set (spec_remove k (spec_expire now (contents c)))"
    by (auto simp: p(2) spec_put_def)
  then have "map_of ys k = None" by (force simp: map_of_eq_None_iff spec_remove_def)
  then have "cache_stored ?d k = Some (r, ?x)"
    by (simp add: cache_stored_def ys(1) map_of_snoc del: map_of_append)
  with dnscache.get_result [OF dnscache.inv_put [OF assms(1,2)], of now'' now now' k k]
  show ?thesis by simp
qed

text \<open>
  Eviction is minimal. What the byte limit keeps is a suffix of the entries in eviction
  order that fits, and unless nothing was dropped, keeping one entry more would not have fitted.
\<close>

lemma eviction_minimal:
  assumes "cache_inv c" "storable c r"
  shows "\<exists>n. contents (cache_put now now' c k r) =
      drop n (spec_remove k (spec_expire now (contents c)) @ [(k, r, now' + uint (ttl_sec c))]) \<and>
    total_size (contents (cache_put now now' c k r)) \<le> unat (max_bytes c) \<and>
    (n = 0 \<or> unat (max_bytes c) < total_size (drop (n - 1)
      (spec_remove k (spec_expire now (contents c)) @ [(k, r, now' + uint (ttl_sec c))])))"
proof -
  have "\<exists>n. spec_trim l xs = drop n xs \<and> (n = 0 \<or> l < total_size (drop (n - 1) xs))" for l xs
  proof (induction xs)
    case (Cons y ys)
    then obtain n where n: "spec_trim l ys = drop n ys" "n = 0 \<or> l < total_size (drop (n - 1) ys)" by blast
    show ?case
    proof (cases "l < total_size (y # ys)")
      case True
      with n have "spec_trim l (y # ys) = drop (Suc n) (y # ys)" by simp
      moreover have "l < total_size (drop (Suc n - 1) (y # ys))"
        using n(2) True by (cases n) auto
      ultimately show ?thesis by blast
    qed (intro exI [of _ 0], simp)
  qed simp
  from this [of "unat (max_bytes c)"
      "spec_remove k (spec_expire now (contents c)) @ [(k, r, now' + uint (ttl_sec c))]"]
  show ?thesis
    using total_spec_trim by (simp add: cache_put_contents [OF assms] spec_put_def)
qed

text \<open>
  The eviction order is least recently used, not oldest first: the entry stored first survives
  when it has been read since, and a younger one is dropped.
\<close>

lemma eviction_not_oldest_first:
  "map fst (contents (cache_put 3 3 (snd (cache_get 2
      (cache_put 1 1 (cache_put 0 0 (new_cache 2 60) ''old|1'' [1]) ''young|1'' [2]) ''old|1'')) ''new|1'' [3])) =
   [''old|1'', ''new|1'']"
  by code_simp

end
