(* ===== verification/Config.thy ===== *)
theory Config
  imports Util
begin

text \<open>
  The configuration loaders of \<open>src/config.cpp\<close>. A file system is a parameter \<open>fs\<close> that
  maps a path to the contents of the file that can be opened there. A loader that the code
  fails with \<open>*err = msg; return false\<close> returns \<open>Inl msg\<close>; one that returns true gives the
  new value of its output parameters. What a failing loader has already written to its output
  parameters is not represented: every caller gives up on the failed load.
\<close>

subsection \<open>Parsing helpers\<close>

definition ParseQuotedString :: "string \<Rightarrow> string option" where
  "ParseQuotedString raw =
     (let s = Trim raw in
      if length s < 2 \<or> hd s \<noteq> quote_char \<or> last s \<noteq> quote_char then None
      else Some (take (length s - 2) (drop 1 s)))"

definition IsValidLogLevel :: "string \<Rightarrow> bool" where
  "IsValidLogLevel level =
     (if level = ''debug'' \<or> level = ''info'' \<or> level = ''warn'' \<or> level = ''error'' then True
      else False)"

definition ParseInteger :: "string \<Rightarrow> u64 option" where
  "ParseInteger raw =
     (let s = Trim raw in
      if s = [] then None
      else let (val, rest) = strtoul (c_str s) in
        if rest = c_str s \<or> rest \<noteq> [] then None else Some val)"

definition ParseBool :: "string \<Rightarrow> bool option" where
  "ParseBool raw =
     (let v = ToLower (Trim raw) in
      if v = ''true'' then Some True
      else if v = ''false'' then Some False
      else None)"

fun parse_items :: "string list \<Rightarrow> string list \<Rightarrow> string list option" where
  "parse_items out [] = Some out"
| "parse_items out (part # parts) =
     (case ParseQuotedString part of
        None \<Rightarrow> None
      | Some item \<Rightarrow> parse_items (out @ [item]) parts)"

definition ParseStringArray :: "string \<Rightarrow> string list \<Rightarrow> string list option" where
  "ParseStringArray raw out =
     (let s = Trim raw in
      if length s < 2 \<or> hd s \<noteq> CHR ''['' \<or> last s \<noteq> CHR '']'' then None
      else let inner = Trim (take (length s - 2) (drop 1 s)) in
        if inner = [] then Some out
        else parse_items out (Split inner CHR '',''))"

fun extract_loop :: "bool \<Rightarrow> string \<Rightarrow> string \<Rightarrow> string list" where
  "extract_loop in_quote current [] = []"
| "extract_loop in_quote current (c # s) =
     (if c = quote_char then
        if in_quote then current # extract_loop False [] s
        else extract_loop True current s
      else if in_quote then extract_loop in_quote (current @ [c]) s
      else extract_loop in_quote current s)"

definition ExtractQuotedStrings :: "string \<Rightarrow> string list" where
  "ExtractQuotedStrings raw = extract_loop False [] raw"

definition ReadLines :: "(string \<rightharpoonup> string) \<Rightarrow> string \<Rightarrow> string + string list" where
  "ReadLines fs path =
     (case fs path of
        None \<Rightarrow> Inl (''unable to open file: '' @ path)
      | Some text \<Rightarrow> Inr (getlines text))"

definition StripComment :: "string \<Rightarrow> string" where
  "StripComment line = takeWhile (\<lambda>c. c \<noteq> CHR ''#'') line"

definition CanonicalName :: "string \<Rightarrow> string" where
  "CanonicalName name = strip_final_dot (ToLower name)"

text \<open>The two sides of the first \<open>=\<close> of a line, trimmed; \<open>None\<close> when there is none.\<close>

definition split_assignment :: "string \<Rightarrow> (string \<times> string) option" where
  "split_assignment line =
     (if CHR ''='' \<notin> set line then None
      else Some (Trim (takeWhile (\<lambda>c. c \<noteq> CHR ''='') line),
                 Trim (tl (dropWhile (\<lambda>c. c \<noteq> CHR ''='') line))))"

subsection \<open>The main configuration\<close>

record ServerConfig =
  listen_addr :: string
  listen_port :: u16
  cache_size_bytes :: u64
  cache_ttl_sec :: u32
  dot_verify :: bool
  rebind_protection :: bool
  log_level_name :: string
  blocklist_file :: string
  local_records_file :: string
  upstreams_file :: string

definition default_config :: ServerConfig where
  "default_config =
     \<lparr>listen_addr = ''0.0.0.0'', listen_port = 53, cache_size_bytes = 100 * 1024 * 1024,
      cache_ttl_sec = 120, dot_verify = True, rebind_protection = True,
      log_level_name = ''debug'', blocklist_file = ''blocklist.toml'',
      local_records_file = ''local_records.toml'', upstreams_file = ''upstreams.toml''\<rparr>"

text \<open>The body of the loop for one \<open>key = value\<close> line.\<close>

definition apply_setting :: "ServerConfig \<Rightarrow> string \<Rightarrow> string \<Rightarrow> string + ServerConfig" where
  "apply_setting cfg key value =
     (if key = ''listen_addr'' then
        (case ParseQuotedString value of
           None \<Rightarrow> Inl ''invalid listen_addr''
         | Some v \<Rightarrow> Inr (cfg\<lparr>listen_addr := v\<rparr>))
      else if key = ''listen_port'' then
        (case ParseInteger value of
           None \<Rightarrow> Inl ''invalid listen_port''
         | Some v \<Rightarrow>
             if 65535 < v then Inl ''invalid listen_port''
             else Inr (cfg\<lparr>listen_port := ucast v\<rparr>))
      else if key = ''cache_size_mb'' then
        (case ParseInteger value of
           None \<Rightarrow> Inl ''invalid cache_size_mb''
         | Some v \<Rightarrow> Inr (cfg\<lparr>cache_size_bytes := v * 1024 * 1024\<rparr>))
      else if key = ''cache_ttl_sec'' then
        (case ParseInteger value of
           None \<Rightarrow> Inl ''invalid cache_ttl_sec''
         | Some v \<Rightarrow> Inr (cfg\<lparr>cache_ttl_sec := ucast v\<rparr>))
      else if key = ''dot_verify'' then
        (case ParseBool value of
           None \<Rightarrow> Inl ''invalid dot_verify''
         | Some v \<Rightarrow> Inr (cfg\<lparr>dot_verify := v\<rparr>))
      else if key = ''rebind_protection'' then
        (case ParseBool value of
           None \<Rightarrow> Inl ''invalid rebind_protection''
         | Some v \<Rightarrow> Inr (cfg\<lparr>rebind_protection := v\<rparr>))
      else if key = ''log_level'' then
        (case ParseQuotedString value of
           None \<Rightarrow> Inl ''invalid log_level''
         | Some v \<Rightarrow>
             let v = ToLower v in
             if \<not> IsValidLogLevel v then Inl ''invalid log_level''
             else Inr (cfg\<lparr>log_level_name := v\<rparr>))
      else if key = ''blocklist_file'' then
        (case ParseQuotedString value of
           None \<Rightarrow> Inl ''invalid blocklist_file''
         | Some v \<Rightarrow> Inr (cfg\<lparr>blocklist_file := v\<rparr>))
      else if key = ''local_records_file'' then
        (case ParseQuotedString value of
           None \<Rightarrow> Inl ''invalid local_records_file''
         | Some v \<Rightarrow> Inr (cfg\<lparr>local_records_file := v\<rparr>))
      else if key = ''upstreams_file'' then
        (case ParseQuotedString value of
           None \<Rightarrow> Inl ''invalid upstreams_file''
         | Some v \<Rightarrow> Inr (cfg\<lparr>upstreams_file := v\<rparr>))
      else Inr cfg)"

fun main_loop :: "ServerConfig \<Rightarrow> string list \<Rightarrow> string + ServerConfig" where
  "main_loop cfg [] = Inr cfg"
| "main_loop cfg (l # ls) =
     (let line = Trim (StripComment l) in
      if line = [] then main_loop cfg ls
      else case split_assignment line of
        None \<Rightarrow> main_loop cfg ls
      | Some (key, value) \<Rightarrow>
          (case apply_setting cfg key value of
             Inl e \<Rightarrow> Inl e
           | Inr cfg' \<Rightarrow> main_loop cfg' ls))"

definition LoadMainConfig :: "(string \<rightharpoonup> string) \<Rightarrow> string \<Rightarrow> string + ServerConfig" where
  "LoadMainConfig fs path =
     (case ReadLines fs path of
        Inl e \<Rightarrow> Inl e
      | Inr lines \<Rightarrow> main_loop default_config lines)"

subsection \<open>The blocklist file\<close>

definition insert_items :: "string set \<Rightarrow> string list \<Rightarrow> string set" where
  "insert_items out items = out \<union> set (map CanonicalName items)"

fun blocklist_loop :: "bool \<Rightarrow> string set \<Rightarrow> string list \<Rightarrow> string set" where
  "blocklist_loop in_domains out [] = out"
| "blocklist_loop in_domains out (l # ls) =
     (let trimmed = Trim (StripComment l) in
      if trimmed = [] then blocklist_loop in_domains out ls
      else if \<not> in_domains then
        (case split_assignment trimmed of
           None \<Rightarrow> blocklist_loop in_domains out ls
         | Some (key, value) \<Rightarrow>
             if key \<noteq> ''domains'' then blocklist_loop in_domains out ls
             else blocklist_loop (CHR '']'' \<notin> set value)
                    (insert_items out (ExtractQuotedStrings value)) ls)
      else blocklist_loop (CHR '']'' \<notin> set trimmed)
             (insert_items out (ExtractQuotedStrings trimmed)) ls)"

definition LoadBlocklist :: "(string \<rightharpoonup> string) \<Rightarrow> string \<Rightarrow> string set \<Rightarrow> string + string set" where
  "LoadBlocklist fs path out =
     (case fs path of
        None \<Rightarrow> Inl (''unable to open file: '' @ path)
      | Some text \<Rightarrow> Inr (blocklist_loop False out (getlines text)))"

subsection \<open>The local records file\<close>

record LocalRecord =
  rec_name :: string
  rec_type :: string
  rec_value :: string

definition empty_record :: LocalRecord where
  "empty_record = \<lparr>rec_name = [], rec_type = [], rec_value = []\<rparr>"

definition incomplete :: "LocalRecord \<Rightarrow> bool" where
  "incomplete r \<longleftrightarrow> rec_name r = [] \<or> rec_type r = [] \<or> rec_value r = []"

definition is_table_header :: "string \<Rightarrow> bool" where
  "is_table_header raw \<longleftrightarrow>
     StartsWith raw ''[['' \<and> 4 < length raw \<and> drop (length raw - 2) raw = '']]''"

definition set_field :: "LocalRecord \<Rightarrow> string \<Rightarrow> string \<Rightarrow> LocalRecord" where
  "set_field r key v =
     (if key = ''name'' then r\<lparr>rec_name := CanonicalName v\<rparr>
      else if key = ''type'' then r\<lparr>rec_type := ToLower v\<rparr>
      else if key = ''value'' then r\<lparr>rec_value := v\<rparr>
      else r)"

text \<open>\<open>i\<close> is the index of the first remaining line.\<close>

fun records_loop ::
    "nat \<Rightarrow> bool \<Rightarrow> LocalRecord \<Rightarrow> LocalRecord list \<Rightarrow> string list \<Rightarrow> string + LocalRecord list" where
  "records_loop i in_record current out [] =
     (if in_record then
        if incomplete current then Inl ''incomplete local record'' else Inr (out @ [current])
      else Inr out)"
| "records_loop i in_record current out (l # ls) =
     (let raw = Trim (StripComment l) in
      if raw = [] then records_loop (i + 1) in_record current out ls
      else if is_table_header raw then
        let table = Trim (take (length raw - 4) (drop 2 raw)) in
        if in_record then
          if incomplete current then Inl ''incomplete local record''
          else records_loop (i + 1) (table = ''record'') empty_record (out @ [current]) ls
        else records_loop (i + 1) (table = ''record'') current out ls
      else case split_assignment raw of
        None \<Rightarrow> records_loop (i + 1) in_record current out ls
      | Some (key, value) \<Rightarrow>
          if in_record then
            (case ParseQuotedString value of
               None \<Rightarrow> Inl (''invalid local record value at line '' @ decimal (i + 1))
             | Some v \<Rightarrow> records_loop (i + 1) in_record (set_field current key v) out ls)
          else records_loop (i + 1) in_record current out ls)"

definition LoadLocalRecords ::
    "(string \<rightharpoonup> string) \<Rightarrow> string \<Rightarrow> LocalRecord list \<Rightarrow> string + LocalRecord list" where
  "LoadLocalRecords fs path out =
     (case ReadLines fs path of
        Inl e \<Rightarrow> Inl e
      | Inr lines \<Rightarrow> records_loop 0 False empty_record out lines)"

subsection \<open>The upstreams file\<close>

text \<open>The inner loop that joins the lines of an array up to one with a closing bracket.\<close>

fun absorb_lines :: "string \<Rightarrow> string list \<Rightarrow> string \<times> string list" where
  "absorb_lines value [] = (value, [])"
| "absorb_lines value (l # ls) =
     (if CHR '']'' \<in> set value then (value, l # ls)
      else let next_line = Trim (StripComment l)
           in absorb_lines (if next_line \<noteq> [] then value @ next_line else value) ls)"

lemma absorb_lines_length: "absorb_lines v ls = (w, rest) \<Longrightarrow> length rest \<le> length ls"
  by (induction v ls rule: absorb_lines.induct) (fastforce simp: Let_def split: if_splits)+

function upstreams_loop ::
    "string list \<Rightarrow> string list \<Rightarrow> string list \<Rightarrow> string + (string list \<times> string list)" where
  "upstreams_loop udp dot [] = Inr (udp, dot)"
| "upstreams_loop udp dot (l # ls) =
     (let line = Trim (StripComment l) in
      if line = [] then upstreams_loop udp dot ls
      else case split_assignment line of
        None \<Rightarrow> upstreams_loop udp dot ls
      | Some (key, value) \<Rightarrow>
          if key = ''udp_servers'' then
            case absorb_lines value ls of (value, rest) \<Rightarrow>
              (case ParseStringArray value udp of
                 None \<Rightarrow> Inl ''invalid udp_servers''
               | Some udp' \<Rightarrow> upstreams_loop udp' dot rest)
          else if key = ''dot_servers'' then
            case absorb_lines value ls of (value, rest) \<Rightarrow>
              (case ParseStringArray value dot of
                 None \<Rightarrow> Inl ''invalid dot_servers''
               | Some dot' \<Rightarrow> upstreams_loop udp dot' rest)
          else upstreams_loop udp dot ls)"
  by pat_completeness auto
termination
  by (relation "measure (\<lambda>(udp, dot, ls). length ls)")
    (auto simp: less_Suc_eq_le dest: absorb_lines_length [OF sym])

definition LoadUpstreams ::
    "(string \<rightharpoonup> string) \<Rightarrow> string \<Rightarrow> string list \<Rightarrow> string list \<Rightarrow> string + (string list \<times> string list)" where
  "LoadUpstreams fs path udp_out dot_out =
     (case ReadLines fs path of
        Inl e \<Rightarrow> Inl e
      | Inr lines \<Rightarrow> upstreams_loop udp_out dot_out lines)"

end
