(* ===== verification/Blocklist.thy ===== *)
theory Blocklist
  imports Util
begin

text \<open>
  \<open>Blocklist\<close> (\<open>src/blocklist.cpp\<close>): a set of canonical domain names and the suffix match
  against it. Each operation takes the lock for its whole body, so it is one atomic step.
  The specification \<open>matches\<close> says that a name is blocked when one of its domain suffixes
  (the name itself included) is listed; \<open>IsBlocked\<close> is shown equal to it.
\<close>

subsection \<open>The code\<close>

record blocklist =
  domains :: "string set"

definition new_blocklist :: blocklist where
  "new_blocklist = \<lparr>domains = {}\<rparr>"

definition SetDomains :: "blocklist \<Rightarrow> string set \<Rightarrow> blocklist" where
  "SetDomains b ds = b\<lparr>domains := ds\<rparr>"

text \<open>The inner loop: the labels from \<open>i\<close> on, joined with dots.\<close>

fun join_suffix :: "string \<Rightarrow> string list \<Rightarrow> string" where
  "join_suffix suffix [] = suffix"
| "join_suffix suffix (l # ls) = join_suffix (suffix @ ''.'' @ l) ls"

text \<open>The outer loop over the label lists that start at \<open>i\<close>, \<open>i + 1\<close>, ...\<close>

fun suffix_loop :: "string set \<Rightarrow> string list \<Rightarrow> bool" where
  "suffix_loop ds [] = False"
| "suffix_loop ds (l # ls) = (if join_suffix l ls \<in> ds then True else suffix_loop ds ls)"

definition IsBlocked :: "blocklist \<Rightarrow> string \<Rightarrow> bool" where
  "IsBlocked b name =
     (if domains b = {} then False
      else let canon = strip_final_dot (ToLower name) in
        if canon \<in> domains b then True
        else let labels = Split canon CHR ''.'' in
          if length labels < 2 then False
          else suffix_loop (domains b) (tl labels))"

subsection \<open>Specification\<close>

text \<open>The domain suffixes of a name: its labels with the first \<open>k\<close> removed, joined again.\<close>

definition suffixes_of :: "string \<Rightarrow> string set" where
  "suffixes_of name =
     (let ls = Split name CHR ''.''
      in (\<lambda>k. join_with CHR ''.'' (drop k ls)) ` {..<length ls})"

definition matches :: "string set \<Rightarrow> string \<Rightarrow> bool" where
  "matches ds name \<longleftrightarrow> (\<exists>s \<in> suffixes_of (canonical name). s \<in> ds)"

lemma join_suffix_eq: "join_suffix s ls = join_with CHR ''.'' (s # ls)"
  by (induction s ls rule: join_suffix.induct) (auto simp: join_with_first)

lemma suffix_loop_iff:
  "suffix_loop ds ls \<longleftrightarrow> (\<exists>k<length ls. join_with CHR ''.'' (drop k ls) \<in> ds)"
proof (induction ls)
  case (Cons l ls)
  have "(\<exists>k<length (l # ls). join_with CHR ''.'' (drop k (l # ls)) \<in> ds) \<longleftrightarrow>
      join_with CHR ''.'' (l # ls) \<in> ds \<or> (\<exists>k<length ls. join_with CHR ''.'' (drop k ls) \<in> ds)"
    by (metis Suc_less_eq drop0 drop_Suc_Cons length_Cons less_Suc_eq_0_disj)
  with Cons show ?case by (simp add: join_suffix_eq)
qed simp

text \<open>A name whose suffixes are those of a dotted extension: subdomains.\<close>

lemma Split_append_dot:
  "CHR ''.'' \<notin> set l \<Longrightarrow> Split (l @ CHR ''.'' # s) CHR ''.'' = l # Split s CHR ''.''"
  by (simp add: Split_def split_loop_no_delim)

lemma suffixes_of_self: "name \<in> suffixes_of name"
  by (auto simp: suffixes_of_def Let_def image_iff intro!: bexI [of _ 0] simp del: join_with.simps)

lemma suffixes_of_label:
  assumes "CHR ''.'' \<notin> set l"
  shows "suffixes_of (l @ CHR ''.'' # s) = insert (l @ CHR ''.'' # s) (suffixes_of s)"
proof -
  let ?S = "Split s CHR ''.''"
  have "{..<length (l # ?S)} = insert 0 (Suc ` {..<length ?S})"
    by (simp add: lessThan_Suc_eq_insert_0)
  then show ?thesis
    by (simp add: suffixes_of_def Let_def Split_append_dot [OF assms] image_image join_with_Cons)
qed

lemma suffixes_of_append:
  "suffixes_of s \<subseteq> suffixes_of (p @ CHR ''.'' # s)"
proof (induction p rule: length_induct)
  case (1 p)
  show ?case
  proof (cases "CHR ''.'' \<in> set p")
    case True
    then obtain l q where p: "p = l @ CHR ''.'' # q" "CHR ''.'' \<notin> set l"
      by (meson split_list_first)
    then have "suffixes_of s \<subseteq> suffixes_of (q @ CHR ''.'' # s)" using 1 by simp
    with suffixes_of_label [OF p(2), of "q @ CHR ''.'' # s"] show ?thesis by (auto simp: p(1))
  qed (simp add: suffixes_of_label subset_insertI)
qed

lemma IsBlocked_matches: "IsBlocked b name \<longleftrightarrow> matches (domains b) name"
proof -
  let ?c = "strip_final_dot (ToLower name)"
  let ?ls = "Split ?c CHR ''.''"
  obtain l ls where ls: "?ls = l # ls" by (cases ?ls) auto
  have join: "join_with CHR ''.'' (l # ls) = ?c" using join_Split [of "CHR ''.''" ?c] by (simp only: ls)
  have "suffix_loop (domains b) (tl ?ls) \<longleftrightarrow>
      (\<exists>k<length ls. join_with CHR ''.'' (drop k ls) \<in> domains b)"
    by (simp only: ls list.sel suffix_loop_iff)
  moreover have "matches (domains b) name \<longleftrightarrow>
      ?c \<in> domains b \<or> (\<exists>k<length ls. join_with CHR ''.'' (drop k ls) \<in> domains b)"
  proof -
    have "{..<length (l # ls)} = insert 0 (Suc ` {..<length ls})"
      by (simp add: lessThan_Suc_eq_insert_0)
    with join show ?thesis
      by (auto simp: matches_def canonical_def suffixes_of_def Let_def ls)
  qed
  ultimately show ?thesis
    by (auto simp: IsBlocked_def Let_def ls)
qed

subsection \<open>The interface the server relies on\<close>

text \<open>
  A domain filter holds a set of names, replaced as a whole, and answers whether a name matches
  it. The server and the updater use nothing else of the blocklist.
\<close>

locale domain_filter =
  fixes set_domains :: "'b \<Rightarrow> string set \<Rightarrow> 'b"
    and blocked :: "'b \<Rightarrow> string \<Rightarrow> bool"
    and listed :: "'b \<Rightarrow> string set"
  assumes listed_set: "listed (set_domains b ds) = ds"
    and blocked_iff: "blocked b name \<longleftrightarrow> matches (listed b) name"
begin

lemma blocked_after_set: "blocked (set_domains b ds) name \<longleftrightarrow> matches ds name"
  by (simp add: blocked_iff listed_set)

lemma blocked_subdomain: "blocked b name \<Longrightarrow> name \<noteq> [] \<Longrightarrow> blocked b (p @ CHR ''.'' # name)"
  using suffixes_of_append [of "canonical name" "ToLower p"]
  by (auto simp: blocked_iff matches_def canonical_label)

lemma blocked_mono: "ds \<subseteq> es \<Longrightarrow> blocked (set_domains b ds) name \<Longrightarrow> blocked (set_domains b es) name"
  by (auto simp: blocked_after_set matches_def)

lemma blocked_listed: "canonical name \<in> listed b \<Longrightarrow> blocked b name"
  using suffixes_of_self by (auto simp: blocked_iff matches_def)

lemma blocked_canonical: "canonical a = canonical c \<Longrightarrow> blocked b a \<longleftrightarrow> blocked b c"
  by (simp add: blocked_iff matches_def)

lemma nothing_blocked: "\<not> blocked (set_domains b {}) name"
  by (simp add: blocked_after_set matches_def)

end

interpretation bl: domain_filter SetDomains IsBlocked domains
  by unfold_locales (simp_all add: SetDomains_def IsBlocked_matches)

subsection \<open>Properties\<close>

text \<open>
  C17: Suffix match. After the list has been replaced by \<open>ds\<close>, a name is blocked exactly when
  its canonical form (lower case, one final dot removed), with some number \<open>k\<close> of its first
  labels removed, is an element of \<open>ds\<close>; so the walk over the labels misses no parent
  domain, stops at label boundaries only, and an empty list blocks nothing.
\<close>

theorem blocked_iff_suffix_listed:
  "IsBlocked (SetDomains b ds) name \<longleftrightarrow>
   (\<exists>k<length (Split (canonical name) CHR ''.'').
      join_with CHR ''.'' (drop k (Split (canonical name) CHR ''.'')) \<in> ds)"
  by (auto simp: bl.blocked_after_set matches_def suffixes_of_def Let_def)

text \<open>
  Blocking covers subdomains. If a non-empty name is blocked, so is every name that ends in
  it after a dot.
\<close>

lemma blocking_covers_subdomains:
  assumes "IsBlocked b name" "name \<noteq> []"
  shows "IsBlocked b (p @ CHR ''.'' # name)"
  by (rule bl.blocked_subdomain [OF assms])

definition sample_blocklist :: blocklist where
  "sample_blocklist = SetDomains new_blocklist {''ads.example'', ''track.net''}"

text \<open>
  Blocking ignores case and the root dot. Names that differ only in the case of their letters
  or in one final dot are blocked alike.
\<close>

lemma blocking_ignores_case_and_root:
  assumes "ToLower n = ToLower m" "last m \<noteq> CHR ''.''"
  shows "(IsBlocked b n \<longleftrightarrow> IsBlocked b m) \<and> (IsBlocked b (m @ ''.'') \<longleftrightarrow> IsBlocked b m)"
proof (intro conjI)
  show "IsBlocked b n \<longleftrightarrow> IsBlocked b m"
    by (rule bl.blocked_canonical) (simp add: canonical_def assms(1))
  show "IsBlocked b (m @ ''.'') \<longleftrightarrow> IsBlocked b m"
    by (rule bl.blocked_canonical) (rule canonical_final_dot [OF assms(2)])
qed

end
