(* ===== verification/Upstream_Blocklist.thy ===== *)
theory Upstream_Blocklist
  imports Config Blocklist
begin

text \<open>
  The remote blocklists of \<open>src/upstream_blocklist.cpp\<close>: its configuration, the parser of
  hosts files and filter lists, the construction of the combined list from fetched or cached
  sources, and the generated blocklist file. That file has parsing helpers of its own with the
  names of those of \<open>src/config.cpp\<close>; they are modelled from its text, with the prefix
  \<open>upstream_\<close>, and shown to agree with those of theory \<open>Config\<close>.

  libcurl and the operating system are parameters: \<open>curl\<close> says what the library calls return,
  \<open>os\<close> whether a file system call succeeds, what a file holds while it is written
  (\<open>os_partial\<close>) and what the write leaves in it (\<open>os_stored\<close>, which need not be the whole text). A set of
  strings is iterated in the order of \<open>std::set\<close>, which is that of the list order on
  characters.
\<close>

subsection \<open>Parsing helpers\<close>

definition upstream_ParseQuotedString :: "string \<Rightarrow> string option" where
  "upstream_ParseQuotedString raw =
     (let s = Trim raw in
      if length s < 2 \<or> hd s \<noteq> quote_char \<or> last s \<noteq> quote_char then None
      else Some (take (length s - 2) (drop 1 s)))"

definition upstream_ParseInteger :: "string \<Rightarrow> u64 option" where
  "upstream_ParseInteger raw =
     (let s = Trim raw in
      if s = [] then None
      else let (val, rest) = strtoul (c_str s) in
        if rest = c_str s \<or> rest \<noteq> [] then None else Some val)"

fun upstream_parse_items :: "string list \<Rightarrow> string list \<Rightarrow> string list option" where
  "upstream_parse_items out [] = Some out"
| "upstream_parse_items out (part # parts) =
     (case upstream_ParseQuotedString part of
        None \<Rightarrow> None
      | Some item \<Rightarrow> upstream_parse_items (out @ [item]) parts)"

definition upstream_ParseStringArray :: "string \<Rightarrow> string list \<Rightarrow> string list option" where
  "upstream_ParseStringArray raw out =
     (let s = Trim raw in
      if length s < 2 \<or> hd s \<noteq> CHR ''['' \<or> last s \<noteq> CHR '']'' then None
      else let inner = Trim (take (length s - 2) (drop 1 s)) in
        if inner = [] then Some out
        else upstream_parse_items out (Split inner CHR '',''))"

definition upstream_StripComment :: "string \<Rightarrow> string" where
  "upstream_StripComment line = takeWhile (\<lambda>c. c \<noteq> CHR ''#'') line"

definition upstream_ReadLines :: "(string \<rightharpoonup> string) \<Rightarrow> string \<Rightarrow> string + string list" where
  "upstream_ReadLines fs path =
     (case fs path of
        None \<Rightarrow> Inl (''unable to open file: '' @ path)
      | Some text \<Rightarrow> Inr (getlines text))"

lemma upstream_helpers_agree [simp]:
  "upstream_ParseQuotedString = ParseQuotedString"
  "upstream_ParseInteger = ParseInteger"
  "upstream_parse_items = parse_items"
  "upstream_ParseStringArray = ParseStringArray"
  "upstream_StripComment = StripComment"
  "upstream_ReadLines = ReadLines"
proof -
  show q: "upstream_ParseQuotedString = ParseQuotedString"
    by (simp add: fun_eq_iff upstream_ParseQuotedString_def ParseQuotedString_def)
  have "upstream_parse_items out parts = parse_items out parts" for out parts
    by (induction out parts rule: parse_items.induct) (simp_all add: q split: option.split)
  then show i: "upstream_parse_items = parse_items" by (simp add: fun_eq_iff)
  show "upstream_ParseStringArray = ParseStringArray"
    by (simp add: fun_eq_iff upstream_ParseStringArray_def ParseStringArray_def Let_def i)
qed (simp_all add: fun_eq_iff upstream_ParseInteger_def ParseInteger_def upstream_StripComment_def
    StripComment_def upstream_ReadLines_def ReadLines_def)

subsection \<open>Configuration\<close>

record UpstreamBlocklistConfig =
  urls :: "string list"
  update_interval_sec :: u32
  cache_dir :: string

definition default_upstream_config :: UpstreamBlocklistConfig where
  "default_upstream_config =
     \<lparr>urls = [], update_interval_sec = 3600, cache_dir = ''/var/gravastar''\<rparr>"

function upstream_config_loop ::
    "UpstreamBlocklistConfig \<Rightarrow> string list \<Rightarrow> string + UpstreamBlocklistConfig" where
  "upstream_config_loop cfg [] = Inr cfg"
| "upstream_config_loop cfg (l # ls) =
     (let line = Trim (upstream_StripComment l) in
      if line = [] then upstream_config_loop cfg ls
      else case split_assignment line of
        None \<Rightarrow> upstream_config_loop cfg ls
      | Some (key, value) \<Rightarrow>
          if key = ''update_interval_sec'' then
            (case upstream_ParseInteger value of
               None \<Rightarrow> Inl ''invalid update_interval_sec''
             | Some v \<Rightarrow> upstream_config_loop (cfg\<lparr>update_interval_sec := ucast v\<rparr>) ls)
          else if key = ''urls'' then
            case absorb_lines value ls of (value, rest) \<Rightarrow>
              (case upstream_ParseStringArray value (urls cfg) of
                 None \<Rightarrow> Inl ''invalid urls''
               | Some us \<Rightarrow> upstream_config_loop (cfg\<lparr>urls := us\<rparr>) rest)
          else if key = ''cache_dir'' then
            (case upstream_ParseQuotedString value of
               None \<Rightarrow> Inl ''invalid cache_dir''
             | Some v \<Rightarrow> upstream_config_loop (cfg\<lparr>cache_dir := v\<rparr>) ls)
          else upstream_config_loop cfg ls)"
  by pat_completeness auto
termination
  by (relation "measure (\<lambda>(cfg, ls). length ls)")
    (auto simp: less_Suc_eq_le dest: absorb_lines_length [OF sym])

definition LoadUpstreamBlocklistConfig ::
    "(string \<rightharpoonup> string) \<Rightarrow> string \<Rightarrow> string + UpstreamBlocklistConfig" where
  "LoadUpstreamBlocklistConfig fs path =
     (case upstream_ReadLines fs path of
        Inl e \<Rightarrow> Inl e
      | Inr lines \<Rightarrow>
          (case upstream_config_loop default_upstream_config lines of
             Inl e \<Rightarrow> Inl e
           | Inr cfg \<Rightarrow>
               if update_interval_sec cfg = 0 then Inr (cfg\<lparr>update_interval_sec := 3600\<rparr>)
               else Inr cfg))"

subsection \<open>The names of cached copies\<close>

definition HashUrl :: "string \<Rightarrow> u64" where
  "HashUrl url = foldl (\<lambda>hash c. (push_bit 5 hash + hash) + ucast (byte_of_char c)) 5381 url"

definition CachePathForUrl :: "string \<Rightarrow> string \<Rightarrow> string" where
  "CachePathForUrl dir url = dir @ ''/upstream_'' @ decimal (unat (HashUrl url)) @ ''.txt''"

subsection \<open>Parsing of list contents\<close>

fun whitespace_loop :: "string \<Rightarrow> string \<Rightarrow> string list" where
  "whitespace_loop current [] = (if current \<noteq> [] then [current] else [])"
| "whitespace_loop current (c # s) =
     (if isspace c then
        if current \<noteq> [] then current # whitespace_loop [] s else whitespace_loop current s
      else whitespace_loop (current @ [c]) s)"

definition SplitWhitespace :: "string \<Rightarrow> string list" where
  "SplitWhitespace line = whitespace_loop [] line"

fun ip_loop :: "bool \<Rightarrow> string \<Rightarrow> bool" where
  "ip_loop has_dot [] = has_dot"
| "ip_loop has_dot (c # s) =
     (if c = CHR ''.'' then ip_loop True s
      else if \<not> isdigit c then False
      else ip_loop has_dot s)"

definition LooksLikeIp :: "string \<Rightarrow> bool" where
  "LooksLikeIp token = (if CHR '':'' \<in> set token then True else ip_loop False token)"

definition label_char :: "char \<Rightarrow> bool" where
  "label_char c \<longleftrightarrow> (97::nat) \<le> of_char c \<and> of_char c \<le> (122::nat) \<or> isdigit c \<or> c = CHR ''-''"

definition IsValidLabel :: "string \<Rightarrow> bool" where
  "IsValidLabel label =
     (if label = [] then False
      else if hd label = CHR ''-'' \<or> last label = CHR ''-'' then False
      else list_all label_char label)"

definition NormalizeDomain :: "string \<Rightarrow> string option" where
  "NormalizeDomain raw =
     (let name = strip_final_dot (ToLower raw) in
      if name = [] then None
      else if CHR ''/'' \<in> set name \<or> CHR ''*'' \<in> set name then None
      else let labels = Split name CHR ''.'' in
        if length labels < 2 then None
        else if list_all IsValidLabel labels then Some name
        else None)"

fun has_substring :: "string \<Rightarrow> string \<Rightarrow> bool" where
  "has_substring p [] = (p = [])"
| "has_substring p (c # s) = (StartsWith (c # s) p \<or> has_substring p s)"

definition IsSkippableLine :: "string \<Rightarrow> bool" where
  "IsSkippableLine line =
     (if line = [] then True
      else if hd line = CHR ''!'' \<or> hd line = CHR ''['' \<or> hd line = CHR ''#'' then True
      else if has_substring ''##'' line \<or> has_substring ''#@#'' line \<or>
        has_substring ''#?#'' line \<or> has_substring ''#$#'' line then True
      else False)"

definition insert_domain :: "string set \<Rightarrow> string \<Rightarrow> string set" where
  "insert_domain ds raw = (case NormalizeDomain raw of None \<Rightarrow> ds | Some n \<Rightarrow> insert n ds)"

fun token_loop :: "string set \<Rightarrow> string list \<Rightarrow> string set" where
  "token_loop ds [] = ds"
| "token_loop ds (t # ts) =
     (if t \<noteq> [] \<and> hd t = CHR ''#'' then ds else token_loop (insert_domain ds t) ts)"

definition parse_list_line :: "string set \<Rightarrow> string \<Rightarrow> string set" where
  "parse_list_line ds l =
     (let line = (if l \<noteq> [] \<and> last l = carriage_return then butlast l else l);
          trimmed = Trim line in
      if IsSkippableLine trimmed then ds
      else if StartsWith trimmed ''||'' then
        (let rest = drop 2 trimmed in
         if CHR ''^'' \<notin> set rest then ds
         else insert_domain ds (takeWhile (\<lambda>c. c \<noteq> CHR ''^'') rest))
      else
        let tokens = SplitWhitespace trimmed in
        if tokens = [] then ds
        else token_loop ds (if LooksLikeIp (hd tokens) then tl tokens else tokens))"

definition ParseUpstreamBlocklistContent :: "string \<Rightarrow> string set \<Rightarrow> string set" where
  "ParseUpstreamBlocklistContent content ds = foldl parse_list_line ds (getlines content)"

subsection \<open>Files and downloads\<close>

record os =
  os_mkdir :: "string \<Rightarrow> bool"
  os_writable :: "string \<Rightarrow> bool"
  os_partial :: "string \<Rightarrow> string \<Rightarrow> string list"
  os_stored :: "string \<Rightarrow> string \<Rightarrow> string"
  os_rename :: "string \<Rightarrow> string \<Rightarrow> bool"
  os_unlink :: "string \<Rightarrow> bool"

record curl =
  curl_global_init :: bool
  curl_easy_init :: bool
  curl_easy_perform :: "string \<Rightarrow> string list \<times> nat"
  curl_easy_strerror :: "nat \<Rightarrow> string"

record world =
  files :: "string \<rightharpoonup> string"
  dirs :: "string set"
  curl_inited :: bool
  logs :: log_globals
  moments :: "(string \<rightharpoonup> string) list"

text \<open>
  \<open>moments\<close> is not a variable of the code: it records what the file system held after each change,
  which is what another process, or this one after a crash, may find there.
\<close>

definition set_files :: "(string \<rightharpoonup> string) \<Rightarrow> world \<Rightarrow> world" where
  "set_files fs w = w\<lparr>files := fs, moments := moments w @ [fs]\<rparr>"

definition FileExists :: "world \<Rightarrow> string \<Rightarrow> bool" where
  "FileExists w path \<longleftrightarrow> path \<in> dom (files w) \<or> path \<in> dirs w"

definition IsDir :: "world \<Rightarrow> string \<Rightarrow> bool" where
  "IsDir w path \<longleftrightarrow> path \<in> dirs w"

definition EnsureDir :: "os \<Rightarrow> world \<Rightarrow> string \<Rightarrow> bool \<times> world" where
  "EnsureDir os w path =
     (if IsDir w path then (True, w)
      else if os_mkdir os path then (True, w\<lparr>dirs := insert path (dirs w)\<rparr>)
      else (IsDir w path, w))"

definition ReadFile :: "world \<Rightarrow> string \<Rightarrow> string" where
  "ReadFile w path = (case files w path of None \<Rightarrow> [] | Some t \<Rightarrow> t)"

text \<open>Opening the file truncates it; then its contents grow.\<close>

definition WriteFile :: "os \<Rightarrow> world \<Rightarrow> string \<Rightarrow> string \<Rightarrow> string option \<times> world" where
  "WriteFile os w path text =
     (if \<not> os_writable os path then (Some (''unable to write file: '' @ path), w)
      else (None, foldl (\<lambda>w t. set_files ((files w)(path \<mapsto> t)) w) w
                   ([] # os_partial os path text @ [os_stored os path text])))"

text \<open>\<open>CurlWriteCallback\<close> appends each chunk that the library delivers.\<close>

definition CurlWriteCallback :: "string \<Rightarrow> string \<Rightarrow> string" where
  "CurlWriteCallback out chunk = out @ chunk"

definition FetchUrl :: "curl \<Rightarrow> world \<Rightarrow> string \<Rightarrow> (string + string) \<times> world" where
  "FetchUrl c w url =
     (if \<not> curl_inited w \<and> \<not> curl_global_init c then (Inl ''curl_global_init failed'', w)
      else let w = w\<lparr>curl_inited := True\<rparr> in
        if \<not> curl_easy_init c then (Inl ''curl_easy_init failed'', w)
        else case curl_easy_perform c url of (chunks, res) \<Rightarrow>
          if res \<noteq> 0 then (Inl (''curl error: '' @ curl_easy_strerror c res), w)
          else (Inr (foldl CurlWriteCallback [] chunks), w))"

definition log_info :: "world \<Rightarrow> string \<Rightarrow> world" where
  "log_info w m = w\<lparr>logs := LogInfo (logs w) m\<rparr>"

definition log_warn :: "world \<Rightarrow> string \<Rightarrow> world" where
  "log_warn w m = w\<lparr>logs := LogWarn (logs w) m\<rparr>"

definition log_error :: "world \<Rightarrow> string \<Rightarrow> world" where
  "log_error w m = w\<lparr>logs := LogError (logs w) m\<rparr>"

definition log_debug :: "world \<Rightarrow> string \<Rightarrow> world" where
  "log_debug w m = w\<lparr>logs := DebugLog (logs w) m\<rparr>"

subsection \<open>The combined list\<close>

fun sources_loop ::
    "curl \<Rightarrow> os \<Rightarrow> string \<Rightarrow> world \<Rightarrow> string set \<Rightarrow> string list \<Rightarrow> (string + string set) \<times> world" where
  "sources_loop c os dir w ds [] = (Inr ds, w)"
| "sources_loop c os dir w ds (url # us) =
     (let w = log_info w (''Upstream blocklist fetch: '' @ url);
          path = CachePathForUrl dir url in
      case FetchUrl c w url of
        (Inr content, w) \<Rightarrow>
          (let w = snd (WriteFile os w path content);
               w = log_info w (''Upstream blocklist fetched: '' @ url)
           in sources_loop c os dir w (ParseUpstreamBlocklistContent content ds) us)
      | (Inl fetch_err, w) \<Rightarrow>
          if FileExists w path then
            (let content = ReadFile w path;
                 w = log_warn w (''Upstream fetch failed, using cached copy: '' @ url @
                                 '' ('' @ fetch_err @ '')'')
             in sources_loop c os dir w (ParseUpstreamBlocklistContent content ds) us)
          else (Inl (''failed to fetch url and no cache: '' @ url), w))"

definition BuildBlocklistFromSources ::
    "curl \<Rightarrow> os \<Rightarrow> world \<Rightarrow> string list \<Rightarrow> string \<Rightarrow> (string + string set) \<times> world" where
  "BuildBlocklistFromSources c os w us dir =
     (if us = [] then (Inl ''no upstream urls configured'', w)
      else case EnsureDir os w dir of (ok, w) \<Rightarrow>
        if \<not> ok then (Inl (''unable to create cache dir: '' @ dir), w)
        else sources_loop c os dir w {} us)"

definition blocklist_text :: "string set \<Rightarrow> string" where
  "blocklist_text ds =
     ''domains = ['' @ [newline] @
     concat (map (\<lambda>d. ''  '' @ [quote_char] @ d @ [quote_char] @ '','' @ [newline]) (sorted_list_of_set ds)) @
     '']'' @ [newline]"

definition WriteBlocklistToml ::
    "os \<Rightarrow> world \<Rightarrow> string \<Rightarrow> string set \<Rightarrow> string option \<times> world" where
  "WriteBlocklistToml os w path ds =
     (let tmp_path = path @ ''.tmp'' in
      case WriteFile os w tmp_path (blocklist_text ds) of
        (Some e, w) \<Rightarrow> (Some e, w)
      | (None, w) \<Rightarrow>
          if \<not> os_rename os tmp_path path then
            (Some ''rename failed for blocklist'',
             if os_unlink os tmp_path then set_files ((files w)(tmp_path := None)) w else w)
          else (None, set_files ((files w)(path := files w tmp_path, tmp_path := None)) w))"

end
