(* ===== verification/Config_Laws.thy ===== *)
theory Config_Laws
  imports Config
begin

text \<open>
  Properties of the configuration loaders: what a successful load guarantees about its result,
  the round trips of the main configuration and the local records through their file formats, and the inputs on which
  the numeric settings wrap around.
\<close>

subsection \<open>One setting line\<close>

text \<open>A value or a key that survives \<open>StripComment\<close>, \<open>Trim\<close> and the search for \<open>=\<close>.\<close>

definition trimmed_text :: "string \<Rightarrow> bool" where
  "trimmed_text v \<longleftrightarrow> v \<noteq> [] \<and> \<not> isspace (hd v) \<and> \<not> isspace (last v) \<and> CHR ''#'' \<notin> set v"

lemma Trim_trimmed: "trimmed_text v \<Longrightarrow> Trim v = v"
  by (auto simp: trimmed_text_def intro: Trim_id)

lemma assignment_line:
  assumes "trimmed_text k" "trimmed_text v" "CHR ''='' \<notin> set k"
  shows "Trim (StripComment (k @ '' = '' @ v)) = k @ '' = '' @ v"
    and "split_assignment (k @ '' = '' @ v) = Some (k, v)"
proof -
  let ?l = "k @ '' = '' @ v"
  have "StripComment ?l = ?l"
    using assms(1,2) by (auto simp: StripComment_def trimmed_text_def intro!: takeWhile_all)
  moreover have "Trim ?l = ?l"
    using assms(1,2) by (intro Trim_id) (auto simp: trimmed_text_def hd_append)
  ultimately show "Trim (StripComment ?l) = ?l" by simp
  have "takeWhile (\<lambda>c. c \<noteq> CHR ''='') ((k @ '' '') @ CHR ''='' # CHR '' '' # v) = k @ '' ''"
    using assms(3) by (intro takeWhile_append_stop) auto
  moreover have "dropWhile (\<lambda>c. c \<noteq> CHR ''='') ((k @ '' '') @ CHR ''='' # CHR '' '' # v) =
      CHR ''='' # CHR '' '' # v"
    using assms(3) by (intro dropWhile_append_stop) auto
  moreover have "Trim (k @ '' '') = k" "Trim (CHR '' '' # v) = v"
    using Trim_spaces_right [of "'' ''" k] Trim_spaces_left [of "'' ''" v] assms(1,2)
    by (auto simp: Trim_trimmed isspace_def)
  ultimately show "split_assignment ?l = Some (k, v)" by (simp add: split_assignment_def)
qed

lemma setting_line:
  assumes "trimmed_text k" "trimmed_text v" "CHR ''='' \<notin> set k"
  shows "main_loop cfg ((k @ '' = '' @ v) # ls) =
    (case apply_setting cfg k v of Inl e \<Rightarrow> Inl e | Inr cfg' \<Rightarrow> main_loop cfg' ls)"
  using assms(1) assignment_line [OF assms] by (simp add: trimmed_text_def)

definition quoted :: "string \<Rightarrow> string" where
  "quoted v = quote_char # v @ [quote_char]"

lemma trimmed_quoted: "CHR ''#'' \<notin> set v \<Longrightarrow> trimmed_text (quoted v)"
  by (auto simp: trimmed_text_def quoted_def isspace_def)

lemma ParseQuotedString_quoted [simp]: "ParseQuotedString (quoted v) = Some v"
proof -
  have "Trim (quoted v) = quoted v" by (intro Trim_id) (simp add: quoted_def isspace_def)
  then show ?thesis by (simp add: ParseQuotedString_def quoted_def)
qed

lemma trimmed_decimal: "trimmed_text (decimal n)"
proof -
  have "\<not> isspace c \<and> c \<noteq> CHR ''#''" if "c \<in> set (decimal n)" for c
    using that decimal_digits [of n] isspace_not_digit by (auto simp: isdigit_def)
  then show ?thesis by (auto simp: trimmed_text_def)
qed

lemma strtoul_decimal: "n < 2 ^ 64 \<Longrightarrow> strtoul (decimal n) = (word_of_nat n, [])"
  using read_decimal [of "[]" n]
  by (simp add: strtoul_def takeWhile_all [OF decimal_digits] dropWhile_all [OF decimal_digits])

lemma ParseInteger_decimal [simp]: "n < 2 ^ 64 \<Longrightarrow> ParseInteger (decimal n) = Some (word_of_nat n)"
proof -
  assume n: "n < 2 ^ 64"
  have "c_str (decimal n) = decimal n"
    using decimal_digits [of n] by (auto simp: c_str_def isdigit_def intro!: takeWhile_all)
  with n show ?thesis
    by (simp add: ParseInteger_def Trim_trimmed [OF trimmed_decimal] strtoul_decimal
        not_sym [OF decimal_nonempty])
qed

subsection \<open>Printing a main configuration\<close>

definition bool_text :: "bool \<Rightarrow> string" where
  "bool_text b = (if b then ''true'' else ''false'')"

definition config_lines :: "ServerConfig \<Rightarrow> nat \<Rightarrow> string list" where
  "config_lines cfg mb =
     [''listen_addr'' @ '' = '' @ quoted (listen_addr cfg),
      ''listen_port'' @ '' = '' @ decimal (unat (listen_port cfg)),
      ''cache_size_mb'' @ '' = '' @ decimal mb,
      ''cache_ttl_sec'' @ '' = '' @ decimal (unat (cache_ttl_sec cfg)),
      ''dot_verify'' @ '' = '' @ bool_text (dot_verify cfg),
      ''rebind_protection'' @ '' = '' @ bool_text (rebind_protection cfg),
      ''log_level'' @ '' = '' @ quoted (log_level_name cfg),
      ''blocklist_file'' @ '' = '' @ quoted (blocklist_file cfg),
      ''local_records_file'' @ '' = '' @ quoted (local_records_file cfg),
      ''upstreams_file'' @ '' = '' @ quoted (upstreams_file cfg)]"

definition unlines :: "string list \<Rightarrow> string" where
  "unlines ls = concat (map (\<lambda>l. l @ [newline]) ls)"

definition plain_text :: "string \<Rightarrow> bool" where
  "plain_text v \<longleftrightarrow> CHR ''#'' \<notin> set v \<and> newline \<notin> set v"

definition printable_config :: "ServerConfig \<Rightarrow> bool" where
  "printable_config cfg \<longleftrightarrow>
     plain_text (listen_addr cfg) \<and> plain_text (blocklist_file cfg) \<and>
     plain_text (local_records_file cfg) \<and> plain_text (upstreams_file cfg) \<and>
     IsValidLogLevel (log_level_name cfg)"

lemma newline_not_in_decimal [simp]: "newline \<notin> set (decimal n)"
  using decimal_digits [of n] by (auto simp: isdigit_def)

lemma valid_level_text: "IsValidLogLevel l \<Longrightarrow> ToLower l = l \<and> plain_text l"
  by (auto simp: IsValidLogLevel_def plain_text_def ToLower_def tolower_def split: if_splits)

lemma trimmed_bool_text: "trimmed_text (bool_text b)" "ParseBool (bool_text b) = Some b"
  by (cases b; simp add: trimmed_text_def bool_text_def isspace_def ParseBool_def Trim_def
      ToLower_def tolower_def)+

lemma trimmed_keys:
  "trimmed_text ''listen_addr''" "trimmed_text ''listen_port''" "trimmed_text ''cache_size_mb''"
  "trimmed_text ''cache_ttl_sec''" "trimmed_text ''dot_verify''" "trimmed_text ''rebind_protection''"
  "trimmed_text ''log_level''" "trimmed_text ''blocklist_file''" "trimmed_text ''local_records_file''"
  "trimmed_text ''upstreams_file''"
  by (simp_all add: trimmed_text_def isspace_def)

lemma overwrite_all:
  fixes cfg any :: ServerConfig
  shows "any\<lparr>listen_addr := listen_addr cfg, listen_port := listen_port cfg, cache_size_bytes := x,
      cache_ttl_sec := cache_ttl_sec cfg, dot_verify := dot_verify cfg,
      rebind_protection := rebind_protection cfg, log_level_name := log_level_name cfg,
      blocklist_file := blocklist_file cfg, local_records_file := local_records_file cfg,
      upstreams_file := upstreams_file cfg\<rparr> = cfg\<lparr>cache_size_bytes := x\<rparr>"
  by (cases cfg, cases any) simp

lemma main_loop_config_lines:
  assumes "printable_config cfg" "mb < 2 ^ 64"
  shows "main_loop any (config_lines cfg mb) =
    Inr (cfg\<lparr>cache_size_bytes := word_of_nat mb * 1024 * 1024\<rparr>)"
proof -
  have v: "CHR ''#'' \<notin> set (listen_addr cfg)" "CHR ''#'' \<notin> set (blocklist_file cfg)"
    "CHR ''#'' \<notin> set (local_records_file cfg)" "CHR ''#'' \<notin> set (upstreams_file cfg)"
    "CHR ''#'' \<notin> set (log_level_name cfg)" "ToLower (log_level_name cfg) = log_level_name cfg"
    "IsValidLogLevel (log_level_name cfg)"
    using assms(1) valid_level_text by (auto simp: printable_config_def plain_text_def)
  have port: "\<not> (65535 :: u64) < word_of_nat (unat (listen_port cfg))"
    using unsigned_less [of "listen_port cfg", where ?'a = nat]
    by (simp add: word_less_nat_alt unsigned_ucast_eq take_bit_nat_eq_self)
  show ?thesis
    using v port assms(2) unsigned_less [of "listen_port cfg", where ?'a = nat]
      unsigned_less [of "cache_ttl_sec cfg", where ?'a = nat]
    by (simp add: config_lines_def setting_line trimmed_keys trimmed_quoted trimmed_decimal
        trimmed_bool_text apply_setting_def unsigned_ucast_eq take_bit_word_eq_self
        overwrite_all del: append.simps append_Cons main_loop.simps(2))
qed

lemma config_lines_no_newline:
  "printable_config cfg \<Longrightarrow> \<forall>l\<in>set (config_lines cfg mb). newline \<notin> set l"
  using valid_level_text [of "log_level_name cfg"]
  by (auto simp: config_lines_def printable_config_def plain_text_def quoted_def bool_text_def)

text \<open>
  C22: Main configuration round trip. A configuration whose strings contain no \<open>#\<close> and no
  newline and whose log level is valid is read back exactly from the file that assigns its
  ten settings, whatever the settings were before.
\<close>

theorem main_config_roundtrip:
  assumes "printable_config cfg" "mb < 2 ^ 64" "cache_size_bytes cfg = word_of_nat mb * 1024 * 1024"
    and "fs path = Some (unlines (config_lines cfg mb))"
  shows "LoadMainConfig fs path = Inr cfg"
proof -
  have "getlines (unlines (config_lines cfg mb)) = config_lines cfg mb"
    unfolding unlines_def by (rule getlines_concat [OF config_lines_no_newline [OF assms(1)]])
  moreover have "cfg\<lparr>cache_size_bytes := word_of_nat mb * 1024 * 1024\<rparr> = cfg"
    unfolding assms(3) [symmetric] by simp
  ultimately show ?thesis
    using main_loop_config_lines [OF assms(1,2)] assms(4)
    by (simp add: LoadMainConfig_def ReadLines_def)
qed

theorem main_config_roundtrip_witness:
  "LoadMainConfig [''g.toml'' \<mapsto> unlines (config_lines
     (default_config\<lparr>listen_port := 8053, dot_verify := False\<rparr>) 100)] ''g.toml'' =
   Inr (default_config\<lparr>listen_port := 8053, dot_verify := False\<rparr>)"
proof (rule main_config_roundtrip)
  show "printable_config (default_config\<lparr>listen_port := 8053, dot_verify := False\<rparr>)"
    by (simp add: printable_config_def default_config_def plain_text_def IsValidLogLevel_def)
  show "cache_size_bytes (default_config\<lparr>listen_port := 8053, dot_verify := False\<rparr>) =
      word_of_nat 100 * 1024 * 1024"
    by (simp add: default_config_def)
qed simp_all

text \<open>
  Numeric settings are not range checked before they are narrowed: a cache size of \<open>2 ^ 44\<close> MB
  becomes 0 bytes and a lifetime of \<open>2 ^ 32\<close> seconds becomes 0 seconds, and \<open>-1\<close> is
  accepted as the largest lifetime.
\<close>

lemma ucast_all_ones: "(ucast (- 1 :: u64) :: u32) = 4294967295"
proof -
  have "(ucast (- 1 :: u64) :: u32) = - 1"
    by (rule bit_word_eqI) (simp add: bit_simps)
  then show ?thesis by simp
qed

lemma numeric_settings_wrap:
  "apply_setting default_config ''cache_size_mb'' ''17592186044416'' =
     Inr (default_config\<lparr>cache_size_bytes := 0\<rparr>)"
  "apply_setting default_config ''cache_ttl_sec'' ''4294967296'' =
     Inr (default_config\<lparr>cache_ttl_sec := 0\<rparr>)"
  "apply_setting default_config ''cache_ttl_sec'' ''-1'' =
     Inr (default_config\<lparr>cache_ttl_sec := 4294967295\<rparr>)"
  by (simp_all add: apply_setting_def ParseInteger_def strtoul_def Trim_def c_str_def isspace_def
      isdigit_def decimal_value_def digit_value_def ucast_all_ones)

text \<open>Sample files are written with a backquote where the file has a double quote.\<close>

definition file_text :: "string list \<Rightarrow> string" where
  "file_text ls = unlines (map (map (\<lambda>c. if c = CHR ''`'' then quote_char else c)) ls)"

subsection \<open>Local records\<close>

definition good_record :: "LocalRecord \<Rightarrow> bool" where
  "good_record r \<longleftrightarrow>
     \<not> incomplete r \<and> ToLower (rec_name r) = rec_name r \<and> ToLower (rec_type r) = rec_type r"

definition lowered_record :: "LocalRecord \<Rightarrow> bool" where
  "lowered_record r \<longleftrightarrow> ToLower (rec_name r) = rec_name r \<and> ToLower (rec_type r) = rec_type r"

lemma ToLower_CanonicalName [simp]: "ToLower (CanonicalName n) = CanonicalName n"
  by (simp add: CanonicalName_def strip_final_dot_ToLower)

lemma lowered_set_field: "lowered_record r \<Longrightarrow> lowered_record (set_field r k v)"
  by (simp add: lowered_record_def set_field_def)

lemma lowered_empty [simp]: "lowered_record empty_record"
  by (simp add: lowered_record_def empty_record_def ToLower_def)

lemma records_loop_good:
  "records_loop i in_rec cur out ls = Inr res \<Longrightarrow> lowered_record cur \<Longrightarrow>
   \<exists>new. res = out @ new \<and> list_all good_record new"
proof (induction i in_rec cur out ls rule: records_loop.induct)
  case (1 i in_rec cur out)
  then show ?case by (auto simp: good_record_def lowered_record_def split: if_splits)
next
  case (2 i in_rec cur out l ls)
  have snoc: "\<exists>new. res = (out @ [cur]) @ new \<and> list_all good_record new \<Longrightarrow> \<not> incomplete cur \<Longrightarrow>
      \<exists>new. res = out @ new \<and> list_all good_record new"
    using "2.prems"(2) by (auto simp: good_record_def lowered_record_def)
  show ?case
    using 2 snoc
    by (auto simp: Let_def lowered_set_field split: if_splits option.splits prod.splits)
qed

text \<open>
  Local records are complete. Whatever the file holds, a load that succeeds only appends
  records, and every appended record has a name, a type and a value, the name and the type in
  lower case.
\<close>

lemma local_records_complete:
  assumes "LoadLocalRecords fs path out = Inr res"
  shows "\<exists>new. res = out @ new \<and> list_all good_record new"
  using assms records_loop_good [of 0 False empty_record out]
  by (simp add: LoadLocalRecords_def split: sum.splits)

definition sample_records_text :: string where
  "sample_records_text = file_text
     [''[[record]]'', ''name = `Host.LAN.`'', ''type = `A`'', ''value = `10.0.0.1`'', ''[[record]]'',
      ''name = `web.lan` # alias'', ''type = `cname`'', ''value = `host.lan`'']"

definition sample_records :: "LocalRecord list" where
  "sample_records =
     [\<lparr>rec_name = ''host.lan'', rec_type = ''a'', rec_value = ''10.0.0.1''\<rparr>,
      \<lparr>rec_name = ''web.lan'', rec_type = ''cname'', rec_value = ''host.lan''\<rparr>]"

lemma sample_records_load:
  "LoadLocalRecords [''r.toml'' \<mapsto> sample_records_text] ''r.toml'' [] = Inr sample_records"
  by code_simp

definition field_text :: "string \<Rightarrow> string \<Rightarrow> string" where
  "field_text k v = k @ '' = '' @ quoted v"

definition record_lines :: "LocalRecord \<Rightarrow> string list" where
  "record_lines r =
     [''[[record]]'', field_text ''name'' (rec_name r), field_text ''type'' (rec_type r),
      field_text ''value'' (rec_value r)]"

definition printable_record :: "LocalRecord \<Rightarrow> bool" where
  "printable_record r \<longleftrightarrow>
     good_record r \<and> CanonicalName (rec_name r) = rec_name r \<and>
     plain_text (rec_name r) \<and> plain_text (rec_type r) \<and> plain_text (rec_value r)"

lemma field_line:
  assumes "k \<in> {''name'', ''type'', ''value''}" "CHR ''#'' \<notin> set v"
  shows "records_loop i True cur out (field_text k v # ls) =
    records_loop (i + 1) True (set_field cur k v) out ls"
proof -
  have k: "trimmed_text k" "CHR ''='' \<notin> set k" "\<not> is_table_header (k @ '' = '' @ quoted v)"
    using assms(1) by (auto simp: trimmed_text_def isspace_def is_table_header_def StartsWith_iff)
  have "k @ '' = '' @ quoted v \<noteq> []" by simp
  then show ?thesis
    using k(3) assignment_line [OF k(1) trimmed_quoted [OF assms(2)] k(2)]
    by (simp only: field_text_def records_loop.simps Let_def if_False option.case prod.case if_True
        ParseQuotedString_quoted)
qed

lemma header_line:
  "records_loop i in_rec cur out (''[[record]]'' # ls) =
    (if in_rec then if incomplete cur then Inl ''incomplete local record''
       else records_loop (i + 1) True empty_record (out @ [cur]) ls
     else records_loop (i + 1) True cur out ls)"
  by (simp add: StripComment_def Trim_def isspace_def is_table_header_def StartsWith_iff)

lemma set_fields:
  "printable_record r \<Longrightarrow>
   set_field (set_field (set_field cur ''name'' (rec_name r)) ''type'' (rec_type r)) ''value'' (rec_value r) = r"
  by (cases r, cases cur) (simp add: set_field_def printable_record_def good_record_def)

lemma records_loop_lines:
  assumes "list_all printable_record rs" "in_rec \<Longrightarrow> \<not> incomplete cur"
  shows "records_loop i in_rec cur out (concat (map record_lines rs)) =
    Inr (out @ (if in_rec then [cur] else []) @ rs)"
  using assms
proof (induction rs arbitrary: i in_rec cur out)
  case (Cons r rs)
  have r: "CHR ''#'' \<notin> set (rec_name r)" "CHR ''#'' \<notin> set (rec_type r)" "CHR ''#'' \<notin> set (rec_value r)"
    "\<not> incomplete r" "printable_record r"
    using Cons.prems by (auto simp: printable_record_def plain_text_def good_record_def)
  have "records_loop j True c o' (tl (record_lines r) @ concat (map record_lines rs)) =
      Inr (o' @ r # rs)" for j c o'
    using Cons.IH [of True r "j + 1 + 1 + 1" o'] Cons.prems r
    by (simp add: record_lines_def [of r] field_line set_fields del: records_loop.simps(2))
  then show ?case
    using Cons.prems(2) by (simp add: record_lines_def [of r] header_line del: records_loop.simps(2))
qed simp

text \<open>
  C23: Local records round trip. Records whose fields are in canonical form and hold neither
  \<open>#\<close> nor a newline are read back exactly, in order, from the file that lists them.
\<close>

theorem local_records_roundtrip:
  assumes "list_all printable_record rs"
    and "fs path = Some (unlines (concat (map record_lines rs)))"
  shows "LoadLocalRecords fs path out = Inr (out @ rs)"
proof -
  have "\<forall>l\<in>set (concat (map record_lines rs)). newline \<notin> set l"
    using assms(1) by (auto simp: record_lines_def field_text_def printable_record_def plain_text_def quoted_def list_all_iff)
  then have "getlines (unlines (concat (map record_lines rs))) = concat (map record_lines rs)"
    unfolding unlines_def by (rule getlines_concat)
  with assms(2) records_loop_lines [OF assms(1), of False]
  show ?thesis by (simp add: LoadLocalRecords_def ReadLines_def)
qed

theorem local_records_roundtrip_witness:
  "LoadLocalRecords [''r.toml'' \<mapsto> unlines (concat (map record_lines sample_records))] ''r.toml'' [] =
   Inr sample_records"
  using local_records_roundtrip [of sample_records "[''r.toml'' \<mapsto> unlines (concat (map record_lines sample_records))]"
      "''r.toml''" "[]"]
  by (simp add: sample_records_def printable_record_def good_record_def incomplete_def plain_text_def
      CanonicalName_def strip_final_dot_def ToLower_def tolower_def)

text \<open>
  A \<open>#\<close> starts a comment even inside quotes, so a value that contains one makes the load
  fail; an incomplete record fails it as well.
\<close>

lemma hash_in_value_rejected:
  "LoadLocalRecords [''r.toml'' \<mapsto> file_text
     [''[[record]]'', ''name = `a.lan`'', ''type = `TXT`'', ''value = `v#1`'']] ''r.toml'' [] =
   Inl ''invalid local record value at line 4''"
  "LoadLocalRecords [''r.toml'' \<mapsto> file_text
     [''[[record]]'', ''name = `a.lan`'', ''[[record]]'']] ''r.toml'' [] =
   Inl ''incomplete local record''"
  by code_simp+

subsection \<open>The upstreams file\<close>

text \<open>
  A trailing comma in an array, valid in TOML, is rejected: the item after it is empty, which
  is not a quoted string.
\<close>

lemma trailing_comma_rejected:
  "LoadUpstreams [''u.toml'' \<mapsto> file_text [''udp_servers = [`1.1.1.1`, `8.8.8.8`,]'']] ''u.toml'' [] [] =
   Inl ''invalid udp_servers''"
  by code_simp

lemma upstreams_sample:
  "LoadUpstreams [''u.toml'' \<mapsto> file_text
     [''udp_servers = ['', ''  `1.1.1.1`, # first'', ''  `8.8.8.8:53`'', '']'',
      ''dot_servers = [`9.9.9.9@dns.quad9.net`]'']] ''u.toml'' [] [] =
   Inr ([''1.1.1.1'', ''8.8.8.8:53''], [''9.9.9.9@dns.quad9.net''])"
  by code_simp

subsection \<open>What the loaders return\<close>

lemma finite_blocklist_loop: "finite out \<Longrightarrow> finite (blocklist_loop b out ls)"
  by (induction b out ls rule: blocklist_loop.induct)
    (auto simp: Let_def insert_items_def split: option.split prod.split)

definition lower_names :: "string set \<Rightarrow> bool" where
  "lower_names out \<longleftrightarrow> (\<forall>d\<in>out. ToLower d = d)"

lemma lower_names_insert: "lower_names out \<Longrightarrow> lower_names (insert_items out items)"
  by (auto simp: lower_names_def insert_items_def)

lemma lower_blocklist_loop: "lower_names out \<Longrightarrow> lower_names (blocklist_loop b out ls)"
  by (induction b out ls rule: blocklist_loop.induct)
    (auto simp: Let_def lower_names_insert split: option.split prod.split)

lemma apply_setting_level:
  assumes "apply_setting c key value = Inr c'" "IsValidLogLevel (log_level_name c)"
  shows "IsValidLogLevel (log_level_name c')"
proof (cases "key = ''log_level''")
  case True
  with assms show ?thesis by (auto simp: apply_setting_def Let_def split: option.splits if_splits)
next
  case False
  then have "log_level_name c' = log_level_name c"
    using assms(1) unfolding apply_setting_def
    by (auto split: option.splits if_split_asm simp del: IsValidLogLevel_def)
  with assms(2) show ?thesis by simp
qed

lemma main_loop_level:
  "main_loop c ls = Inr c' \<Longrightarrow> IsValidLogLevel (log_level_name c) \<Longrightarrow> IsValidLogLevel (log_level_name c')"
proof (induction c ls rule: main_loop.induct)
  case (2 c l ls)
  let ?line = "Trim (StripComment l)"
  show ?case
  proof (cases "?line = [] \<or> split_assignment ?line = None")
    case True
    then have "main_loop c ls = Inr c'" using 2(4) by (auto simp: Let_def split: if_splits)
    with 2(1,2) 2(5) True show ?thesis by blast
  next
    case False
    then obtain key val where kv: "split_assignment ?line = Some (key, val)" by auto
    with 2(4) False obtain c1 where c1: "apply_setting c key val = Inr c1" "main_loop c1 ls = Inr c'"
      by (auto simp: Let_def split: sum.splits)
    show ?thesis
      using 2(3) [OF refl _ kv refl c1] apply_setting_level [OF c1(1) 2(5)] False by blast
  qed
qed simp

text \<open>
  C21: What the loaders return has the form that the program relies on. A loaded main configuration
  names a log level that \<open>SetLogLevelFromString\<close> accepts; a loaded blocklist is a finite set of names in
  lower case; every loaded record has a name, a type and a value, the first two in lower case.
\<close>

theorem loaded_values_well_formed:
  shows "(LoadMainConfig fs path = Inr c \<longrightarrow> IsValidLogLevel (log_level_name c) \<and>
      fst (SetLogLevelFromString g (log_level_name c))) \<and>
    (LoadBlocklist fs path {} = Inr ds \<longrightarrow> finite ds \<and> (\<forall>d\<in>ds. ToLower d = d)) \<and>
    (LoadLocalRecords fs path [] = Inr recs \<longrightarrow>
      (\<forall>r\<in>set recs. rec_name r \<noteq> [] \<and> rec_type r \<noteq> [] \<and> rec_value r \<noteq> [] \<and>
        ToLower (rec_name r) = rec_name r \<and> ToLower (rec_type r) = rec_type r))"
proof (intro conjI impI)
  assume "LoadMainConfig fs path = Inr c"
  then obtain ls where "main_loop default_config ls = Inr c"
    by (auto simp: LoadMainConfig_def split: sum.splits)
  moreover have "IsValidLogLevel (log_level_name default_config)" by (simp add: default_config_def IsValidLogLevel_def)
  ultimately show "IsValidLogLevel (log_level_name c)" by (rule main_loop_level)
  then show "fst (SetLogLevelFromString g (log_level_name c))"
    by (auto simp: IsValidLogLevel_def SetLogLevelFromString_def ToLower_def tolower_def split: if_splits)
next
  assume "LoadBlocklist fs path {} = Inr ds"
  then show "finite ds" "\<forall>d\<in>ds. ToLower d = d"
    using finite_blocklist_loop [of "{}" False] lower_blocklist_loop [of "{}" False]
    by (auto simp: LoadBlocklist_def lower_names_def split: option.splits)
next
  assume "LoadLocalRecords fs path [] = Inr recs"
  then show "\<forall>r\<in>set recs. rec_name r \<noteq> [] \<and> rec_type r \<noteq> [] \<and> rec_value r \<noteq> [] \<and>
      ToLower (rec_name r) = rec_name r \<and> ToLower (rec_type r) = rec_type r"
    using local_records_complete [of fs path "[]" recs]
    by (auto simp: list_all_iff good_record_def incomplete_def)
qed

theorem loaded_values_well_formed_witness:
  "\<exists>recs. LoadLocalRecords [''r.toml'' \<mapsto> sample_records_text] ''r.toml'' [] = Inr recs \<and> length recs = 2 \<and>
     map (\<lambda>r. ToLower (rec_name r)) recs = map rec_name recs"
  using loaded_values_well_formed [of _ _ _ _ _ sample_records] sample_records_load
  by (auto simp: sample_records_def)

end
