(* ===== verification/Blocklist_Files.thy ===== *)
theory Blocklist_Files
  imports Upstream_Blocklist Config_Laws
begin

text \<open>
  What the parsers and the writer of blocklist files guarantee: normalisation accepts exactly
  the well-formed domain names, parsing a list yields well-formed names only and every name
  that a hosts file or a filter list names, and the generated file is read back exactly.
\<close>

subsection \<open>Well-formed domains\<close>

definition wf_domain :: "string \<Rightarrow> bool" where
  "wf_domain d \<longleftrightarrow> 2 \<le> length (Split d CHR ''.'') \<and> list_all IsValidLabel (Split d CHR ''.'')"

definition domain_char :: "char \<Rightarrow> bool" where
  "domain_char c \<longleftrightarrow> label_char c \<or> c = CHR ''.''"

lemma set_join_with: "set (join_with d ls) \<subseteq> insert d (\<Union>l\<in>set ls. set l)"
  by (induction d ls rule: join_with.induct) auto

lemma IsValidLabel_chars: "IsValidLabel l \<Longrightarrow> c \<in> set l \<Longrightarrow> label_char c"
  by (auto simp: IsValidLabel_def list_all_iff split: if_splits)

lemma wf_domain_chars:
  assumes "wf_domain d" "c \<in> set d"
  shows "domain_char c"
proof -
  have "c \<in> insert CHR ''.'' (\<Union>l\<in>set (Split d CHR ''.''). set l)"
    using assms(2) set_join_with [of "CHR ''.''" "Split d CHR ''.''"] by auto
  with assms(1) show ?thesis
    by (auto simp: wf_domain_def domain_char_def list_all_iff dest: IsValidLabel_chars)
qed

lemma domain_char_plain:
  "domain_char c \<Longrightarrow> \<not> isspace c \<and> tolower c = c \<and>
   c \<notin> {CHR ''/'', CHR ''*'', CHR ''#'', CHR '']'', CHR ''['', CHR ''!'', CHR ''|'', CHR ''^'', quote_char, newline}"
  by (auto simp: domain_char_def label_char_def isdigit_def isspace_def tolower_def)

lemma Split_final: "[] \<in> set (Split (s @ [d]) d)"
proof -
  have "[] \<in> set (split_loop d cur (s @ [d]))" for cur
    by (induction s arbitrary: cur) auto
  then show ?thesis by (simp add: Split_def)
qed

lemma wf_domain_canonical: "wf_domain d \<Longrightarrow> canonical d = d"
proof -
  assume wf: "wf_domain d"
  have "ToLower d = d"
    using wf_domain_chars [OF wf] domain_char_plain by (simp add: ToLower_def map_idI)
  moreover have "last d \<noteq> CHR ''.''" if "d \<noteq> []"
  proof
    assume "last d = CHR ''.''"
    with that have "d = butlast d @ [CHR ''.'']" by (metis append_butlast_last_id)
    then have "[] \<in> set (Split d CHR ''.'')" using Split_final by metis
    with wf show False by (auto simp: wf_domain_def list_all_iff IsValidLabel_def)
  qed
  ultimately show ?thesis by (auto simp: canonical_def strip_final_dot_def)
qed

lemma wf_domain_nonempty: "wf_domain d \<Longrightarrow> d \<noteq> []"
  by (auto simp: wf_domain_def Split_def)

lemma NormalizeDomain_eq:
  "NormalizeDomain raw = (if wf_domain (canonical raw) then Some (canonical raw) else None)"
proof -
  let ?n = "canonical raw"
  have "?n \<noteq> []" "CHR ''/'' \<notin> set ?n" "CHR ''*'' \<notin> set ?n" if "wf_domain ?n"
    using that wf_domain_nonempty wf_domain_chars [OF that] domain_char_plain by blast+
  then show ?thesis
    by (auto simp: NormalizeDomain_def Let_def wf_domain_def canonical_def [symmetric])
qed

lemma NormalizeDomain_wf [simp]: "wf_domain d \<Longrightarrow> NormalizeDomain d = Some d"
  by (simp add: NormalizeDomain_eq wf_domain_canonical)

text \<open>
  Normalisation. \<open>NormalizeDomain\<close> succeeds exactly when the canonical form of its argument
  has at least two labels, each made of lower-case letters, digits and inner hyphens, and it
  then returns that form, on which it is the identity.
\<close>

lemma normalize_domain_correct:
  "NormalizeDomain raw = (if wf_domain (canonical raw) then Some (canonical raw) else None) \<and>
   (case NormalizeDomain raw of None \<Rightarrow> True | Some n \<Rightarrow> NormalizeDomain n = Some n)"
  by (simp add: NormalizeDomain_eq wf_domain_canonical)

subsection \<open>Parsing\<close>

lemma insert_domain_wf [simp]: "wf_domain d \<Longrightarrow> insert_domain ds d = insert d ds"
  by (simp add: insert_domain_def)

lemma insert_domain_subset: "insert_domain ds raw \<subseteq> ds \<union> Collect wf_domain"
  by (simp add: insert_domain_def NormalizeDomain_eq subset_iff)

lemma token_loop_subset: "token_loop ds ts \<subseteq> ds \<union> Collect wf_domain"
proof (induction ds ts rule: token_loop.induct)
  case (2 ds t ts)
  then show ?case using insert_domain_subset [of ds t] by auto
qed simp

lemma parse_list_line_subset: "parse_list_line ds l \<subseteq> ds \<union> Collect wf_domain"
  using insert_domain_subset token_loop_subset by (simp add: parse_list_line_def Let_def)

lemma parse_content_subset: "ParseUpstreamBlocklistContent content ds \<subseteq> ds \<union> Collect wf_domain"
proof -
  have "foldl parse_list_line ds ls \<subseteq> ds \<union> Collect wf_domain" for ls
  proof (induction ls arbitrary: ds)
    case (Cons l ls)
    then show ?case using parse_list_line_subset [of ds l] by fastforce
  qed simp
  then show ?thesis by (simp add: ParseUpstreamBlocklistContent_def)
qed

lemma finite_parse_content: "finite ds \<Longrightarrow> finite (ParseUpstreamBlocklistContent content ds)"
proof -
  have i: "finite ds \<Longrightarrow> finite (insert_domain ds t)" for ds t
    by (simp add: insert_domain_def split: option.split)
  have t: "finite ds \<Longrightarrow> finite (token_loop ds ts)" for ds ts
    by (induction ds ts rule: token_loop.induct) (simp_all add: i)
  have l: "finite ds \<Longrightarrow> finite (parse_list_line ds l)" for ds l
    by (simp add: parse_list_line_def Let_def i t)
  have "finite ds \<Longrightarrow> finite (foldl parse_list_line ds ls)" for ls
    by (induction ls arbitrary: ds) (simp_all add: l)
  then show "finite ds \<Longrightarrow> ?thesis" by (simp add: ParseUpstreamBlocklistContent_def)
qed

text \<open>The lines of hosts files and filter lists, as their publishers write them.\<close>

datatype list_entry =
    Hosts_Entry string "string list"
  | Filter_Rule string string
  | Remark string

fun print_entry :: "list_entry \<Rightarrow> string" where
  "print_entry (Hosts_Entry ip names) = join_with CHR '' '' (ip # names)"
| "print_entry (Filter_Rule d options) = ''||'' @ d @ ''^'' @ options"
| "print_entry (Remark text) = CHR ''#'' # text"

definition ip_char :: "char \<Rightarrow> bool" where
  "ip_char c \<longleftrightarrow> isdigit c \<or> c = CHR ''.'' \<or> c = CHR '':''"

fun wf_entry :: "list_entry \<Rightarrow> bool" where
  "wf_entry (Hosts_Entry ip names) \<longleftrightarrow>
     LooksLikeIp ip \<and> list_all ip_char ip \<and> list_all wf_domain names"
| "wf_entry (Filter_Rule d options) \<longleftrightarrow>
     wf_domain d \<and> CHR ''#'' \<notin> set options \<and> (\<forall>c\<in>set options. \<not> isspace c)"
| "wf_entry (Remark text) \<longleftrightarrow> newline \<notin> set text"

fun entry_domains :: "list_entry \<Rightarrow> string set" where
  "entry_domains (Hosts_Entry ip names) = set names"
| "entry_domains (Filter_Rule d options) = {d}"
| "entry_domains (Remark text) = {}"

lemma ip_char_plain:
  "ip_char c \<Longrightarrow> \<not> isspace c \<and> c \<notin> {CHR ''#'', CHR ''['', CHR ''!'', CHR ''|'', newline}"
  by (auto simp: ip_char_def isdigit_def isspace_def)

lemma StartsWith_set: "StartsWith s p \<Longrightarrow> set p \<subseteq> set s"
  by (auto simp: StartsWith_iff)

lemma has_substring_set: "has_substring p s \<Longrightarrow> set p \<subseteq> set s"
  by (induction p s rule: has_substring.induct) (fastforce dest: StartsWith_set)+

lemma not_skippable:
  assumes "line \<noteq> []" "CHR ''#'' \<notin> set line" "hd line \<noteq> CHR ''!''" "hd line \<noteq> CHR ''[''"
  shows "\<not> IsSkippableLine line"
proof -
  have "\<not> has_substring p line" if "CHR ''#'' \<in> set p" for p
    using that has_substring_set [of p line] assms(2) by auto
  moreover have "hd line \<noteq> CHR ''#''" using assms(1,2) hd_in_set by metis
  ultimately show ?thesis using assms by (auto simp: IsSkippableLine_def)
qed

lemma whitespace_loop_word:
  "\<forall>c\<in>set t. \<not> isspace c \<Longrightarrow> whitespace_loop cur (t @ s) = whitespace_loop (cur @ t) s"
  by (induction t arbitrary: cur) auto

lemma SplitWhitespace_join:
  "\<forall>t\<in>set ts. t \<noteq> [] \<and> (\<forall>c\<in>set t. \<not> isspace c) \<Longrightarrow>
   SplitWhitespace (join_with CHR '' '' ts) = ts"
proof (induction ts rule: induct_list012)
  case (2 t)
  then show ?case using whitespace_loop_word [of t "[]" "[]"] by (simp add: SplitWhitespace_def)
next
  case (3 t u ts)
  have "isspace CHR '' ''" by (simp add: isspace_def)
  with 3 whitespace_loop_word [of t "[]"] show ?case by (simp add: SplitWhitespace_def)
qed (simp add: SplitWhitespace_def)

lemma token_loop_domains: "list_all wf_domain ts \<Longrightarrow> token_loop ds ts = ds \<union> set ts"
proof (induction ts arbitrary: ds)
  case (Cons t ts)
  then have "hd t \<noteq> CHR ''#''" "wf_domain t"
    using wf_domain_nonempty wf_domain_chars domain_char_plain by (auto simp: neq_Nil_conv)
  with Cons show ?case by auto
qed simp

text \<open>A line that neither starts nor ends with white space is taken as it is.\<close>

lemma unpadded_line:
  assumes "l \<noteq> []" "\<not> isspace (hd l)" "\<not> isspace (last l)"
  shows "Trim (if l \<noteq> [] \<and> last l = carriage_return then butlast l else l) = l"
proof -
  have "last l \<noteq> carriage_return" using assms(3) by (auto simp: isspace_def)
  then show ?thesis using assms by (auto intro: Trim_id)
qed

lemma parse_words:
  assumes "Trim (if l \<noteq> [] \<and> last l = carriage_return then butlast l else l) = l"
    and "\<not> IsSkippableLine l" "\<not> StartsWith l ''||''" "SplitWhitespace l = t # ts" "LooksLikeIp t"
  shows "parse_list_line ds l = token_loop ds ts"
  unfolding parse_list_line_def Let_def assms(1) using assms(2-5) by simp

lemma parse_rule:
  assumes "Trim (if l \<noteq> [] \<and> last l = carriage_return then butlast l else l) = l"
    and "\<not> IsSkippableLine l" "l = ''||'' @ d @ ''^'' @ options" "CHR ''^'' \<notin> set d"
  shows "parse_list_line ds l = insert_domain ds d"
proof -
  have "takeWhile (\<lambda>c. c \<noteq> CHR ''^'') (drop 2 l) = d"
    using assms(4) by (auto simp: assms(3) intro!: takeWhile_append_stop)
  moreover have "StartsWith l ''||''" "CHR ''^'' \<in> set (drop 2 l)" by (auto simp: assms(3) StartsWith_iff)
  ultimately show ?thesis unfolding parse_list_line_def Let_def assms(1) using assms(2) by simp
qed

lemma wf_hosts_words:
  assumes "wf_entry (Hosts_Entry ip names)" "t \<in> set (ip # names)"
  shows "t \<noteq> [] \<and> (\<forall>c\<in>set t. \<not> isspace c \<and> c \<noteq> CHR ''#'' \<and> c \<noteq> newline)"
proof (cases "t = ip")
  case True
  with assms(1) show ?thesis using ip_char_plain by (auto simp: list_all_iff LooksLikeIp_def)
next
  case False
  with assms have "wf_domain t" by (simp add: list_all_iff)
  then show ?thesis
    using wf_domain_nonempty [of t] domain_char_plain [OF wf_domain_chars [of t]] by simp
qed

lemma last_join_with: "last ls \<noteq> [] \<Longrightarrow> ls \<noteq> [] \<Longrightarrow> last (join_with d ls) = last (last ls)"
proof (induction ls rule: induct_list012)
  case (3 l m ls)
  have "join_with d (m # ls) \<noteq> []" using 3(3) by (cases ls) (auto simp: join_with_eq_Nil)
  with 3 show ?case by (simp add: last_append)
qed simp_all

lemma parse_hosts_line:
  assumes "wf_entry (Hosts_Entry ip names)"
  shows "parse_list_line ds (print_entry (Hosts_Entry ip names)) = ds \<union> set names"
proof -
  let ?l = "join_with CHR '' '' (ip # names)"
  note words = wf_hosts_words [OF assms]
  have ip: "ip \<noteq> []" "ip_char (hd ip)" "list_all wf_domain names" "LooksLikeIp ip"
    using assms words [of ip] by (auto simp: list_all_iff)
  have hd: "hd ?l = hd ip" "?l \<noteq> []" using ip(1) by (cases names; simp)+
  have "last (ip # names) \<in> set (ip # names)" by (rule last_in_set) simp
  note last_word = words [OF this]
  then have "last ?l = last (last (ip # names))" by (intro last_join_with) simp_all
  with last_word have l: "\<not> isspace (last ?l)" by (metis last_in_set)
  have h: "\<not> isspace (hd ?l)" "hd ?l \<noteq> CHR ''!''" "hd ?l \<noteq> CHR ''[''" "hd ?l \<noteq> CHR ''|''"
    using ip_char_plain [OF ip(2)] unfolding hd(1) by blast+
  note trim = unpadded_line [OF hd(2) h(1) l]
  have "CHR ''#'' \<notin> set ?l" using words set_join_with [of "CHR '' ''" "ip # names"] by blast
  note skip = not_skippable [OF hd(2) this h(2,3)]
  have no_rule: "\<not> StartsWith ?l ''||''"
  proof
    assume "StartsWith ?l ''||''"
    then have "hd ?l = CHR ''|''" by (auto simp: StartsWith_iff)
    with h(4) show False by blast
  qed
  have "SplitWhitespace ?l = ip # names" using words by (intro SplitWhitespace_join) blast
  from parse_words [OF trim skip no_rule this ip(4)] show ?thesis
    by (simp only: print_entry.simps token_loop_domains [OF ip(3)])
qed

lemma parse_filter_line:
  assumes "wf_entry (Filter_Rule d options)"
  shows "parse_list_line ds (print_entry (Filter_Rule d options)) = insert d ds"
proof -
  let ?l = "''||'' @ d @ ''^'' @ options"
  have d: "wf_domain d" and o': "CHR ''#'' \<notin> set options" "\<forall>c\<in>set options. \<not> isspace c"
    using assms by auto
  have plain: "c \<noteq> CHR ''#''" "c \<noteq> CHR ''^''" if "c \<in> set d" for c
    using domain_char_plain [OF wf_domain_chars [OF d that]] by auto
  have "last ?l \<in> insert CHR ''^'' (set options)" by simp
  then have "\<not> isspace (last ?l)" using o'(2) by (auto simp: isspace_def)
  then have trim: "Trim (if ?l \<noteq> [] \<and> last ?l = carriage_return then butlast ?l else ?l) = ?l"
    by (intro unpadded_line) (auto simp: isspace_def)
  have skip: "\<not> IsSkippableLine ?l"
    using plain o'(1) by (intro not_skippable) auto
  have "CHR ''^'' \<notin> set d" using plain(2) by auto
  from parse_rule [OF trim skip refl this] show ?thesis
    by (simp only: print_entry.simps insert_domain_wf [OF d])
qed

lemma parse_remark_line: "parse_list_line ds (print_entry (Remark text)) = ds"
proof -
  have "Trim (CHR ''#'' # t) \<noteq> [] \<and> hd (Trim (CHR ''#'' # t)) = CHR ''#''" for t
    by (simp add: Trim_def isspace_def dropWhile_append3 hd_append)
  then show ?thesis
    by (simp add: parse_list_line_def IsSkippableLine_def Let_def)
qed

lemma parse_entry_line:
  "wf_entry e \<Longrightarrow> parse_list_line ds (print_entry e) = ds \<union> entry_domains e"
  by (cases e) (simp_all add: parse_hosts_line parse_filter_line parse_remark_line
      del: print_entry.simps wf_entry.simps)

lemma print_entry_newline: "wf_entry e \<Longrightarrow> newline \<notin> set (print_entry e)"
proof (cases e)
  case (Hosts_Entry ip names)
  assume "wf_entry e"
  then have "\<forall>t\<in>set (ip # names). newline \<notin> set t"
    using wf_hosts_words unfolding Hosts_Entry by blast
  then show ?thesis
    using set_join_with [of "CHR '' ''" "ip # names"] unfolding Hosts_Entry by auto
next
  case (Filter_Rule d options)
  assume "wf_entry e"
  then show ?thesis
    using wf_domain_chars domain_char_plain Filter_Rule by (fastforce simp: isspace_def)
qed simp


definition sample_entries :: "list_entry list" where
  "sample_entries =
     [Remark '' ads'', Hosts_Entry ''0.0.0.0'' [''ads.example'', ''b.ads.example''],
      Filter_Rule ''track.net'' ''$third-party'']"


subsection \<open>The generated blocklist file\<close>

text \<open>
  Entries that the loader reads back: no quote, no comment sign, no closing bracket (which would
  end the array) and no newline.
\<close>

definition file_safe :: "string \<Rightarrow> bool" where
  "file_safe d \<longleftrightarrow> quote_char \<notin> set d \<and> CHR ''#'' \<notin> set d \<and> CHR '']'' \<notin> set d \<and> newline \<notin> set d"

lemma wf_domain_file_safe: "wf_domain d \<Longrightarrow> file_safe d"
  using wf_domain_chars domain_char_plain by (fastforce simp: file_safe_def)

definition entry_line :: "string \<Rightarrow> string" where
  "entry_line d = ''  '' @ [quote_char] @ d @ [quote_char] @ '',''"

lemma extract_quoted: "quote_char \<notin> set d \<Longrightarrow> extract_loop True cur (d @ quote_char # s) =
    (cur @ d) # extract_loop False [] s"
  by (induction d arbitrary: cur) auto

lemma entry_line_step:
  assumes "file_safe d"
  shows "blocklist_loop True out (entry_line d # ls) = blocklist_loop True (insert (canonical d) out) ls"
proof -
  have "StripComment (entry_line d) = entry_line d"
    using assms by (auto simp: StripComment_def entry_line_def file_safe_def intro!: takeWhile_all)
  moreover have "Trim (entry_line d) = quote_char # d @ [quote_char] @ '',''"
    using Trim_spaces_left [of "''  ''" "quote_char # d @ [quote_char] @ '',''"]
      Trim_id [of "quote_char # d @ [quote_char] @ '',''"]
    by (simp add: entry_line_def isspace_def)
  ultimately have "Trim (StripComment (entry_line d)) = quote_char # d @ [quote_char] @ '',''"
    by simp
  moreover have "ExtractQuotedStrings (quote_char # d @ [quote_char] @ '','') = [d]"
    using assms by (simp add: ExtractQuotedStrings_def extract_quoted file_safe_def)
  ultimately show ?thesis
    using assms by (simp add: insert_items_def file_safe_def CanonicalName_def canonical_def)
qed

lemma entry_lines_loop:
  "\<forall>d\<in>set ds. file_safe d \<Longrightarrow>
   blocklist_loop True out (map entry_line ds @ ls) = blocklist_loop True (out \<union> canonical ` set ds) ls"
  by (induction ds arbitrary: out) (simp_all add: entry_line_step del: blocklist_loop.simps)

lemma blocklist_text_lines:
  "blocklist_text ds = unlines ([''domains = ['' ] @ map entry_line (sorted_list_of_set ds) @ ['']''])"
  by (simp add: blocklist_text_def unlines_def entry_line_def o_def)

lemma load_generated:
  assumes "finite ds" "\<forall>d\<in>ds. file_safe d" "fs path = Some (blocklist_text ds)"
  shows "LoadBlocklist fs path out = Inr (out \<union> canonical ` ds)"
proof -
  let ?ls = "[''domains = ['' ] @ map entry_line (sorted_list_of_set ds) @ ['']'']"
  have "\<forall>l\<in>set ?ls. newline \<notin> set l"
    using assms(1,2) by (auto simp: entry_line_def file_safe_def)
  then have "getlines (blocklist_text ds) = ?ls"
    unfolding blocklist_text_lines unlines_def by (rule getlines_concat)
  moreover have "blocklist_loop False out ?ls =
      blocklist_loop True out (map entry_line (sorted_list_of_set ds) @ ['']''])"
    by (simp add: StripComment_def Trim_def isspace_def split_assignment_def ExtractQuotedStrings_def
        insert_items_def)
  moreover have "\<dots> = out \<union> canonical ` ds"
    using assms(1,2) entry_lines_loop [of "sorted_list_of_set ds" out "['']'']"]
    by (simp add: StripComment_def Trim_def isspace_def ExtractQuotedStrings_def insert_items_def)
  ultimately show ?thesis using assms(3) by (simp add: LoadBlocklist_def)
qed

subsection \<open>The configuration of the sources\<close>

text \<open>
  An array of addresses over several lines is read, but not when a comma follows its last item,
  as in the example of \<open>README.md\<close>.
\<close>

lemma readme_urls_rejected:
  "LoadUpstreamBlocklistConfig [''u.toml'' \<mapsto> file_text [''urls = ['', ''  `h`,'', ''  `d`,'', '']'']] ''u.toml'' =
   Inl ''invalid urls''"
  "LoadUpstreamBlocklistConfig [''u.toml'' \<mapsto> file_text [''urls = ['', ''  `h`,'', ''  `d`'', '']'']] ''u.toml'' =
   Inr (default_upstream_config\<lparr>urls := [''h'', ''d'']\<rparr>)"
  by code_simp+

end
