(* ===== verification/Updater.thy ===== *)
theory Updater
  imports Blocklist_Files
begin

text \<open>
  \<open>UpstreamBlocklistUpdater\<close> (\<open>src/upstream_blocklist.cpp\<close>): one update of the blocklist from
  its sources, and the updater thread with \<open>Start\<close> and \<open>Stop\<close> as a step relation. The
  specification of an update is the union of what the available sources name and of the custom
  list.
\<close>

subsection \<open>One update\<close>

record updater =
  upd_config :: UpstreamBlocklistConfig
  custom_blocklist_path :: string
  output_path :: string
  upd_blocklist :: "blocklist option"

definition EnsureCacheDir :: "os \<Rightarrow> updater \<Rightarrow> world \<Rightarrow> bool \<times> world" where
  "EnsureCacheDir os u w = EnsureDir os w (cache_dir (upd_config u))"

definition load_custom :: "updater \<Rightarrow> world \<Rightarrow> string + string set" where
  "load_custom u w =
     (if custom_blocklist_path u \<noteq> [] then LoadBlocklist (files w) (custom_blocklist_path u) {}
      else Inr {})"

definition UpdateOnce :: "curl \<Rightarrow> os \<Rightarrow> updater \<Rightarrow> world \<Rightarrow> bool \<times> updater \<times> world" where
  "UpdateOnce c os u w =
     (case EnsureCacheDir os u w of (ok, w) \<Rightarrow>
      if \<not> ok then
        (False, u, log_error w (''Upstream blocklist cache dir missing: '' @ cache_dir (upd_config u)))
      else case BuildBlocklistFromSources c os w (urls (upd_config u)) (cache_dir (upd_config u)) of
        (Inl err, w) \<Rightarrow>
          (let w = log_debug w (''Upstream blocklist update failed: '' @ err);
               w = log_error w (''Upstream blocklist update failed: '' @ err)
           in (False, u, w))
      | (Inr ds, w) \<Rightarrow>
          (case load_custom u w of
             Inl err \<Rightarrow> (False, u, log_error w (''Custom blocklist load failed: '' @ err))
           | Inr custom \<Rightarrow>
               (let ds = ds \<union> custom in
                case WriteBlocklistToml os w (output_path u) ds of
                  (Some err, w) \<Rightarrow>
                    (let w = log_debug w (''Failed to write blocklist.toml: '' @ err);
                         w = log_error w (''Failed to write blocklist.toml: '' @ err)
                     in (False, u, w))
                | (None, w) \<Rightarrow>
                    (True, u\<lparr>upd_blocklist := map_option (\<lambda>b. SetDomains b ds) (upd_blocklist u)\<rparr>,
                     log_info w (''Upstream blocklist updated: '' @ decimal (card ds) @ '' domains'')))))"

subsection \<open>Frames\<close>

lemma log_files [simp]:
  "files (log_info w m) = files w" "files (log_warn w m) = files w"
  "files (log_error w m) = files w" "files (log_debug w m) = files w"
  "dirs (log_info w m) = dirs w" "dirs (log_warn w m) = dirs w"
  "dirs (log_error w m) = dirs w" "dirs (log_debug w m) = dirs w"
  "curl_inited (log_info w m) = curl_inited w" "curl_inited (log_warn w m) = curl_inited w"
  "curl_inited (log_error w m) = curl_inited w" "curl_inited (log_debug w m) = curl_inited w"
  by (simp_all add: log_info_def log_warn_def log_error_def log_debug_def)

lemma FetchUrl_frame:
  "FetchUrl c w url = (r, w') \<Longrightarrow> files w' = files w \<and> dirs w' = dirs w \<and>
     (curl_inited w' \<longleftrightarrow> curl_inited w \<or> curl_global_init c)"
  by (auto simp: FetchUrl_def Let_def split: if_splits prod.splits)

lemma FetchUrl_result:
  "(curl_inited w \<or> curl_global_init c) = (curl_inited w' \<or> curl_global_init c) \<Longrightarrow>
   fst (FetchUrl c w url) = fst (FetchUrl c w' url)"
  by (auto simp: FetchUrl_def Let_def split: prod.split)

lemma set_files_simps [simp]:
  "files (set_files fs w) = fs" "dirs (set_files fs w) = dirs w" "curl_inited (set_files fs w) = curl_inited w"
  "logs (set_files fs w) = logs w" "moments (set_files fs w) = moments w @ [fs]"
  by (simp_all add: set_files_def)

lemma write_contents:
  "w' = foldl (\<lambda>w t. set_files ((files w)(path \<mapsto> t)) w) w ts \<Longrightarrow>
   dirs w' = dirs w \<and> curl_inited w' = curl_inited w \<and>
   files w' = (if ts = [] then files w else (files w)(path \<mapsto> last ts)) \<and>
   moments w' = moments w @ map (\<lambda>t. (files w)(path \<mapsto> t)) ts"
  by (induction ts arbitrary: w' rule: rev_induct) auto

lemma WriteFile_cases:
  assumes "WriteFile os w path text = (r, w')"
  shows "dirs w' = dirs w \<and> curl_inited w' = curl_inited w \<and>
    (case r of
       None \<Rightarrow> files w' = (files w)(path \<mapsto> os_stored os path text) \<and>
         (\<exists>ts. moments w' = moments w @ map (\<lambda>t. (files w)(path \<mapsto> t)) ts)
     | Some e \<Rightarrow> w' = w)"
proof (cases "os_writable os path")
  case True
  let ?ts = "[] # os_partial os path text @ [os_stored os path text]"
  have "r = None" "w' = foldl (\<lambda>w t. set_files ((files w)(path \<mapsto> t)) w) w ?ts"
    using assms True by (simp_all only: WriteFile_def simp_thms if_False prod.inject)
  note w = write_contents [OF this(2)]
  then have "files w' = (files w)(path \<mapsto> os_stored os path text)" by (simp only: list.distinct if_False) simp
  with w \<open>r = None\<close> show ?thesis by (simp only: option.case simp_thms) blast
qed (use assms in \<open>auto simp: WriteFile_def\<close>)

lemma WriteFile_frame:
  "WriteFile os w path text = (r, w') \<Longrightarrow> dirs w' = dirs w \<and> curl_inited w' = curl_inited w \<and>
     (\<forall>p. p \<noteq> path \<longrightarrow> files w' p = files w p) \<and>
     (case r of None \<Rightarrow> files w' path = Some (os_stored os path text) | Some e \<Rightarrow> files w' = files w)"
  by (drule WriteFile_cases) (auto split: option.splits)

lemma EnsureDir_frame:
  "EnsureDir os w d = (r, w') \<Longrightarrow> files w' = files w \<and> dirs w' \<subseteq> insert d (dirs w) \<and> dirs w \<subseteq> dirs w' \<and>
     curl_inited w' = curl_inited w"
  by (auto simp: EnsureDir_def split: if_splits)

lemma CachePath_not_dir [simp]: "CachePathForUrl d url \<noteq> d"
  by (simp add: CachePathForUrl_def)

subsection \<open>Specification\<close>

text \<open>The text that a source contributes: what is fetched, or else the cached copy.\<close>

definition source_text :: "curl \<Rightarrow> world \<Rightarrow> string \<Rightarrow> string \<Rightarrow> string option" where
  "source_text c w dir url =
     (case fst (FetchUrl c w url) of
        Inr t \<Rightarrow> Some t
      | Inl e \<Rightarrow>
          if FileExists w (CachePathForUrl dir url) then Some (ReadFile w (CachePathForUrl dir url))
          else None)"

definition named_domains :: "string \<Rightarrow> string set" where
  "named_domains text = ParseUpstreamBlocklistContent text {}"

definition source_domains :: "curl \<Rightarrow> world \<Rightarrow> string \<Rightarrow> string list \<Rightarrow> string set" where
  "source_domains c w dir us = (\<Union>url\<in>set us. named_domains (the (source_text c w dir url)))"

lemma parse_content_union: "ParseUpstreamBlocklistContent text ds = ds \<union> named_domains text"
proof -
  have i: "insert_domain ds t = ds \<union> insert_domain {} t" for ds t
    by (simp add: insert_domain_def split: option.split)
  have t: "token_loop ds ts = ds \<union> token_loop {} ts" for ds ts
  proof (induction ts arbitrary: ds)
    case (Cons t ts)
    show ?case using Cons [of "insert_domain ds t"] Cons [of "insert_domain {} t"] i [of ds t] by auto
  qed simp
  have l: "parse_list_line ds l = ds \<union> parse_list_line {} l" for ds l
  proof -
    define tr where "tr = Trim (if l \<noteq> [] \<and> last l = carriage_return then butlast l else l)"
    show ?thesis
      unfolding parse_list_line_def Let_def tr_def [symmetric]
      using i [of ds "takeWhile (\<lambda>c. c \<noteq> CHR ''^'') (drop 2 tr)"]
        t [of ds "tl (SplitWhitespace tr)"] t [of ds "SplitWhitespace tr"]
      by simp
  qed
  have "foldl parse_list_line ds ls = ds \<union> foldl parse_list_line {} ls" for ds ls
  proof (induction ls arbitrary: ds)
    case (Cons l ls)
    have "foldl parse_list_line ds (l # ls) = parse_list_line ds l \<union> foldl parse_list_line {} ls"
      by (simp only: foldl_Cons Cons [of "parse_list_line ds l"])
    also have "\<dots> = ds \<union> (parse_list_line {} l \<union> foldl parse_list_line {} ls)"
      by (simp only: l [of ds l] Un_assoc)
    also have "parse_list_line {} l \<union> foldl parse_list_line {} ls = foldl parse_list_line {} (l # ls)"
      by (simp only: foldl_Cons Cons [of "parse_list_line {} l"])
    finally show ?case .
  qed simp
  from this [of ds "getlines text"] show ?thesis
    by (simp only: ParseUpstreamBlocklistContent_def named_domains_def)
qed

lemma source_text_cong:
  assumes "(curl_inited w \<or> curl_global_init c) = (curl_inited w' \<or> curl_global_init c)"
    and "files w (CachePathForUrl dir url) = files w' (CachePathForUrl dir url)"
    and "CachePathForUrl dir url \<in> dirs w \<longleftrightarrow> CachePathForUrl dir url \<in> dirs w'"
  shows "source_text c w dir url = source_text c w' dir url"
proof -
  have "FileExists w (CachePathForUrl dir url) = FileExists w' (CachePathForUrl dir url)"
    "ReadFile w (CachePathForUrl dir url) = ReadFile w' (CachePathForUrl dir url)"
    using assms(2,3) by (simp_all add: FileExists_def ReadFile_def domIff)
  then show ?thesis using FetchUrl_result [OF assms(1)] by (simp only: source_text_def)
qed

text \<open>One source: the world afterwards differs in the cached copy of this source only.\<close>

lemma sources_loop_step:
  obtains w' where
    "sources_loop c os dir w ds (url # us) =
       (case source_text c w dir url of
          None \<Rightarrow> (Inl (''failed to fetch url and no cache: '' @ url), w')
        | Some t \<Rightarrow> sources_loop c os dir w' (ds \<union> named_domains t) us)"
    "\<forall>p. p \<noteq> CachePathForUrl dir url \<longrightarrow> files w' p = files w p" "dirs w' = dirs w"
    "(curl_inited w' \<or> curl_global_init c) = (curl_inited w \<or> curl_global_init c)"
    "\<And>e. fst (FetchUrl c w url) = Inl e \<Longrightarrow> files w' = files w"
proof -
  let ?w = "log_info w (''Upstream blocklist fetch: '' @ url)"
  obtain r w1 where f: "FetchUrl c ?w url = (r, w1)" by fastforce
  have r: "fst (FetchUrl c w url) = r"
    using FetchUrl_result [of ?w c w url] f by simp
  note frame = FetchUrl_frame [OF f]
  let ?path = "CachePathForUrl dir url"
  show ?thesis
  proof (cases r)
    case (Inr t)
    obtain r2 w2 where wr: "WriteFile os w1 ?path t = (r2, w2)" by fastforce
    show ?thesis
      using that [of "log_info w2 (''Upstream blocklist fetched: '' @ url)"]
        f frame WriteFile_frame [OF wr] r Inr
      by (simp add: wr source_text_def parse_content_union)
  next
    case (Inl e)
    have "FileExists w1 ?path = FileExists w ?path" "ReadFile w1 ?path = ReadFile w ?path"
      using frame by (simp_all add: FileExists_def ReadFile_def)
    then show ?thesis
      using that [of "if FileExists w ?path then log_warn w1 (''Upstream fetch failed, using cached copy: '' @
          url @ '' ('' @ e @ '')'') else w1"] f frame r Inl
      by (simp add: source_text_def parse_content_union)
  qed
qed

lemma source_text_later:
  assumes "inj_on (CachePathForUrl dir) (insert url (set us))" "u \<in> insert url (set us)"
    and "\<forall>p. p \<noteq> CachePathForUrl dir url \<longrightarrow> files w' p = files w p" "dirs w' = dirs w"
    and "(curl_inited w' \<or> curl_global_init c) = (curl_inited w \<or> curl_global_init c)"
    and "\<And>e. fst (FetchUrl c w url) = Inl e \<Longrightarrow> files w' = files w"
  shows "source_text c w' dir u = source_text c w dir u"
proof (cases "u = url \<and> isl (fst (FetchUrl c w url)) \<or> u \<noteq> url")
  case True
  then have "files w' (CachePathForUrl dir u) = files w (CachePathForUrl dir u)"
  proof
    assume "u \<noteq> url"
    then have "CachePathForUrl dir u \<noteq> CachePathForUrl dir url"
      using inj_onD [OF assms(1), of u url] assms(2) by blast
    then show ?thesis using assms(3) by blast
  qed (auto simp: isl_def dest!: assms(6))
  then show ?thesis using assms(4,5) by (intro source_text_cong) simp_all
next
  case False
  then obtain t where "fst (FetchUrl c w url) = Inr t" "u = url"
    by (cases "fst (FetchUrl c w url)") auto
  then show ?thesis using FetchUrl_result [OF assms(5), of url] by (simp add: source_text_def)
qed

lemma sources_loop_correct:
  assumes "inj_on (CachePathForUrl dir) (set us)" "sources_loop c os dir w ds us = (r, w')"
  shows "(\<forall>p. p \<notin> CachePathForUrl dir ` set us \<longrightarrow> files w' p = files w p) \<and> dirs w' = dirs w \<and>
    (case r of
       Inr res \<Rightarrow> (\<forall>u\<in>set us. source_text c w dir u \<noteq> None) \<and> res = ds \<union> source_domains c w dir us
     | Inl e \<Rightarrow> \<exists>u\<in>set us. source_text c w dir u = None)"
  using assms
proof (induction us arbitrary: w ds)
  case (Cons url us)
  obtain w1 where step:
    "sources_loop c os dir w ds (url # us) =
       (case source_text c w dir url of
          None \<Rightarrow> (Inl (''failed to fetch url and no cache: '' @ url), w1)
        | Some t \<Rightarrow> sources_loop c os dir w1 (ds \<union> named_domains t) us)"
    and frame: "\<forall>p. p \<noteq> CachePathForUrl dir url \<longrightarrow> files w1 p = files w p" "dirs w1 = dirs w"
    "(curl_inited w1 \<or> curl_global_init c) = (curl_inited w \<or> curl_global_init c)"
    and failed: "\<And>e. fst (FetchUrl c w url) = Inl e \<Longrightarrow> files w1 = files w"
    by (rule sources_loop_step [of c os dir w ds url us]) (rule that; assumption)
  have later: "source_text c w1 dir u = source_text c w dir u" if "u \<in> set us" for u
    using source_text_later [OF _ _ frame failed, of us u] Cons.prems(1) that by simp
  then have same: "source_domains c w1 dir us = source_domains c w dir us"
    by (simp add: source_domains_def)
  show ?case
  proof (cases "source_text c w dir url")
    case None
    then show ?thesis using step Cons.prems(2) frame by auto
  next
    case (Some t)
    have "sources_loop c os dir w1 (ds \<union> named_domains t) us = (r, w')"
      using step Cons.prems(2) Some by simp
    from Cons.IH [OF _ this] Cons.prems(1) have
      "(\<forall>p. p \<notin> CachePathForUrl dir ` set us \<longrightarrow> files w' p = files w1 p) \<and> dirs w' = dirs w1 \<and>
       (case r of
          Inr res \<Rightarrow> (\<forall>u\<in>set us. source_text c w dir u \<noteq> None) \<and>
            res = ds \<union> named_domains t \<union> source_domains c w dir us
        | Inl e \<Rightarrow> \<exists>u\<in>set us. source_text c w dir u = None)"
      using later same by (auto split: sum.splits)
    then show ?thesis using frame(1,2) Some by (auto simp: source_domains_def split: sum.splits)
  qed
qed (auto simp: source_domains_def)

subsection \<open>The generated file\<close>

lemma write_blocklist_cases:
  assumes "WriteBlocklistToml os w path ds = (r, w')"
  shows "dirs w' = dirs w \<and> (\<forall>p. p \<noteq> path \<and> p \<noteq> path @ ''.tmp'' \<longrightarrow> files w' p = files w p) \<and>
    (case r of
       None \<Rightarrow> files w' path = Some (os_stored os (path @ ''.tmp'') (blocklist_text ds))
     | Some e \<Rightarrow> files w' path = files w path)"
proof -
  obtain r1 w1 where wr: "WriteFile os w (path @ ''.tmp'') (blocklist_text ds) = (r1, w1)" by fastforce
  show ?thesis
    using assms WriteFile_frame [OF wr]
    by (cases r1) (auto simp: WriteBlocklistToml_def wr Let_def split: if_splits)
qed

text \<open>
  C25: The blocklist file is replaced atomically and reads back. For any behaviour of the system,
  at every moment of \<open>WriteBlocklistToml\<close> the file has either its old contents or, when the call
  ends in success, all that was stored of the new text; it is never seen empty or half written. No
  other file but the temporary one changes. An error leaves the file as it was. After success, if
  the text was stored whole (a full disk may cut it, which the code does not notice), \<open>LoadBlocklist\<close>
  adds exactly the canonical forms of the written domains.
\<close>

theorem blocklist_file_roundtrip:
  assumes "finite ds" "\<forall>d\<in>ds. file_safe d"
    and "WriteBlocklistToml os w path ds = (r, w')"
  shows "(\<exists>ms. moments w' = moments w @ ms \<and> (\<forall>fs\<in>set ms.
       (fs path = files w path \<or>
        r = None \<and> fs path = Some (os_stored os (path @ ''.tmp'') (blocklist_text ds))) \<and>
       (\<forall>p. p \<noteq> path \<and> p \<noteq> path @ ''.tmp'' \<longrightarrow> fs p = files w p))) \<and>
    (\<forall>p. p \<noteq> path \<and> p \<noteq> path @ ''.tmp'' \<longrightarrow> files w' p = files w p) \<and>
    (case r of
       None \<Rightarrow> files w' path = Some (os_stored os (path @ ''.tmp'') (blocklist_text ds)) \<and>
         (os_stored os (path @ ''.tmp'') (blocklist_text ds) = blocklist_text ds \<longrightarrow>
            LoadBlocklist (files w') path out = Inr (out \<union> canonical ` ds))
     | Some e \<Rightarrow> files w' path = files w path)"
proof (intro conjI)
  obtain r1 w1 where wr: "WriteFile os w (path @ ''.tmp'') (blocklist_text ds) = (r1, w1)" by fastforce
  show "\<exists>ms. moments w' = moments w @ ms \<and> (\<forall>fs\<in>set ms.
       (fs path = files w path \<or>
        r = None \<and> fs path = Some (os_stored os (path @ ''.tmp'') (blocklist_text ds))) \<and>
       (\<forall>p. p \<noteq> path \<and> p \<noteq> path @ ''.tmp'' \<longrightarrow> fs p = files w p))"
    using assms(3) WriteFile_cases [OF wr]
    by (cases r1) (auto simp: WriteBlocklistToml_def wr Let_def split: if_splits)
qed (use write_blocklist_cases [OF assms(3)] load_generated [OF assms(1,2)] in \<open>auto split: option.split\<close>)

definition sample_os :: os where
  "sample_os = \<lparr>os_mkdir = (\<lambda>p. True), os_writable = (\<lambda>p. True), os_partial = (\<lambda>p t. [take 3 t]), os_stored = (\<lambda>p t. t),
     os_rename = (\<lambda>p q. True), os_unlink = (\<lambda>p. True)\<rparr>"

definition empty_world :: world where
  "empty_world = \<lparr>files = Map.empty, dirs = {}, curl_inited = False, logs = initial_log_globals, moments = []\<rparr>"

definition old_list_world :: world where
  "old_list_world = empty_world\<lparr>files := [''b.toml'' \<mapsto> ''old'']\<rparr>"

theorem blocklist_file_roundtrip_witness:
  "LoadBlocklist (files (snd (WriteBlocklistToml sample_os old_list_world ''b.toml'' {''a.b'', ''c.d''}))) ''b.toml'' {} =
     Inr {''a.b'', ''c.d''} \<and>
   list_all (\<lambda>fs. fs ''b.toml'' \<noteq> Some [])
     (moments (snd (WriteBlocklistToml sample_os old_list_world ''b.toml'' {''a.b'', ''c.d''})))"
proof -
  obtain r w' where w: "WriteBlocklistToml sample_os old_list_world ''b.toml'' {''a.b'', ''c.d''} = (r, w')"
    by fastforce
  have r: "r = None" using w by (simp add: WriteBlocklistToml_def WriteFile_def sample_os_def Let_def)
  have o: "os_stored sample_os p t = t" "moments old_list_world = []" "files old_list_world ''b.toml'' = Some ''old''" for p t
    by (simp_all add: sample_os_def old_list_world_def empty_world_def)
  have ne: "blocklist_text {''a.b'', ''c.d''} \<noteq> []" by (simp add: blocklist_text_def)
  have "finite {''a.b'', ''c.d''}" "\<forall>d\<in>{''a.b'', ''c.d''}. file_safe d"
    by (simp_all add: file_safe_def)
  note c = blocklist_file_roundtrip [OF this w, where out = "{}", unfolded r o option.case]
  have "canonical ` {''a.b'', ''c.d''} = {''a.b'', ''c.d''}"
    by (simp add: canonical_def strip_final_dot_def ToLower_def tolower_def)
  then have "LoadBlocklist (files w') ''b.toml'' {} = Inr {''a.b'', ''c.d''}" using c by simp
  moreover have "list_all (\<lambda>fs. fs ''b.toml'' \<noteq> Some []) (moments w')"
    unfolding list_all_iff
  proof
    fix fs assume "fs \<in> set (moments w')"
    with c have "fs ''b.toml'' = Some ''old'' \<or> fs ''b.toml'' = Some (blocklist_text {''a.b'', ''c.d''})" by force
    with ne show "fs ''b.toml'' \<noteq> Some []" by auto
  qed
  ultimately show ?thesis unfolding w snd_conv ..
qed

subsection \<open>An update as a whole\<close>

definition cached_paths :: "updater \<Rightarrow> string set" where
  "cached_paths u = CachePathForUrl (cache_dir (upd_config u)) ` set (urls (upd_config u))"

text \<open>The files of the updater are different files.\<close>

definition paths_apart :: "updater \<Rightarrow> bool" where
  "paths_apart u \<longleftrightarrow>
     inj_on (CachePathForUrl (cache_dir (upd_config u))) (set (urls (upd_config u))) \<and>
     output_path u \<notin> cached_paths u \<and> custom_blocklist_path u \<notin> cached_paths u \<and>
     custom_blocklist_path u \<noteq> output_path u \<and> custom_blocklist_path u \<noteq> output_path u @ ''.tmp''"

definition sources_available :: "curl \<Rightarrow> updater \<Rightarrow> world \<Rightarrow> bool" where
  "sources_available c u w \<longleftrightarrow> urls (upd_config u) \<noteq> [] \<and>
     list_all (\<lambda>url. source_text c w (cache_dir (upd_config u)) url \<noteq> None) (urls (upd_config u))"

definition update_domains :: "curl \<Rightarrow> updater \<Rightarrow> world \<Rightarrow> string set" where
  "update_domains c u w =
     source_domains c w (cache_dir (upd_config u)) (urls (upd_config u)) \<union>
     (case load_custom u w of Inl e \<Rightarrow> {} | Inr custom \<Rightarrow> custom)"

definition publish :: "updater \<Rightarrow> string set \<Rightarrow> updater" where
  "publish u ds = u\<lparr>upd_blocklist := map_option (\<lambda>b. SetDomains b ds) (upd_blocklist u)\<rparr>"

lemma load_custom_cong:
  "files w' (custom_blocklist_path u) = files w (custom_blocklist_path u) \<Longrightarrow>
   load_custom u w' = load_custom u w"
  by (simp add: load_custom_def LoadBlocklist_def)

lemma build_correct:
  assumes "inj_on (CachePathForUrl dir) (set us)"
    and "EnsureDir os w dir = (ok, w1)" "BuildBlocklistFromSources c os w1 us dir = (r, w2)"
    and "ok"
  shows "(\<forall>p. p \<notin> CachePathForUrl dir ` set us \<longrightarrow> files w2 p = files w p) \<and>
    (case r of
       Inr res \<Rightarrow> us \<noteq> [] \<and> (\<forall>u\<in>set us. source_text c w dir u \<noteq> None) \<and>
         res = source_domains c w dir us
     | Inl e \<Rightarrow> us = [] \<or> (\<exists>u\<in>set us. source_text c w dir u = None))"
proof (cases "us = []")
  case True
  then show ?thesis using assms EnsureDir_frame [OF assms(2)] by (auto simp: BuildBlocklistFromSources_def)
next
  case False
  have in_dirs: "dir \<in> dirs w1" using assms(2,4) by (auto simp: EnsureDir_def IsDir_def split: if_splits)
  then have "EnsureDir os w1 dir = (True, w1)" by (simp add: EnsureDir_def IsDir_def)
  then have loop: "sources_loop c os dir w1 {} us = (r, w2)"
    using assms(3) False by (simp add: BuildBlocklistFromSources_def)
  have e: "files w1 = files w" "dirs w1 \<subseteq> insert dir (dirs w)" "dirs w \<subseteq> dirs w1"
    "curl_inited w1 = curl_inited w"
    using EnsureDir_frame [OF assms(2)] by blast+
  have "CachePathForUrl dir u \<in> dirs w1 \<longleftrightarrow> CachePathForUrl dir u \<in> dirs w" for u
    using e(2,3) CachePath_not_dir by blast
  then have "source_text c w1 dir u = source_text c w dir u" for u
    using e by (intro source_text_cong) simp_all
  with sources_loop_correct [OF assms(1) loop] e(1) False show ?thesis
    by (simp add: source_domains_def split: sum.splits)
qed

lemma update_once_cases:
  assumes "paths_apart u" "UpdateOnce c os u w = (ok, u', w')"
  shows "if ok then
      sources_available c u w \<and> isl (load_custom u w) = False \<and> u' = publish u (update_domains c u w) \<and>
      files w' (output_path u) =
        Some (os_stored os (output_path u @ ''.tmp'') (blocklist_text (update_domains c u w))) \<and>
      files w' (custom_blocklist_path u) = files w (custom_blocklist_path u)
    else u' = u \<and> files w' (output_path u) = files w (output_path u) \<and>
      files w' (custom_blocklist_path u) = files w (custom_blocklist_path u)"
proof -
  let ?dir = "cache_dir (upd_config u)" and ?us = "urls (upd_config u)"
  have inj: "inj_on (CachePathForUrl ?dir) (set ?us)"
    and apart: "output_path u \<notin> CachePathForUrl ?dir ` set ?us"
      "custom_blocklist_path u \<notin> CachePathForUrl ?dir ` set ?us"
      "custom_blocklist_path u \<noteq> output_path u" "custom_blocklist_path u \<noteq> output_path u @ ''.tmp''"
    using assms(1) by (auto simp: paths_apart_def cached_paths_def)
  obtain ok1 w1 where e: "EnsureDir os w ?dir = (ok1, w1)" by fastforce
  obtain r w2 where b: "BuildBlocklistFromSources c os w1 ?us ?dir = (r, w2)" by fastforce
  show ?thesis
  proof (cases ok1)
    case False
    then show ?thesis
      using assms(2) EnsureDir_frame [OF e] by (auto simp: UpdateOnce_def EnsureCacheDir_def e)
  next
    case True
    note built = build_correct [OF inj e b True]
    then have same: "files w2 (output_path u) = files w (output_path u)"
      "files w2 (custom_blocklist_path u) = files w (custom_blocklist_path u)"
      using apart by blast+
    show ?thesis
    proof (cases r)
      case (Inl err)
      then show ?thesis
        using assms(2) same True by (auto simp: UpdateOnce_def EnsureCacheDir_def e b)
    next
      case (Inr ds)
      note lc = load_custom_cong [OF same(2)]
      show ?thesis
      proof (cases "load_custom u w")
        case (Inl err)
        then show ?thesis
          using assms(2) same True Inr lc by (auto simp: UpdateOnce_def EnsureCacheDir_def e b)
      next
        case custom: (Inr custom)
        obtain r3 w3 where wr: "WriteBlocklistToml os w2 (output_path u) (ds \<union> custom) = (r3, w3)"
          by fastforce
        have ds: "ds \<union> custom = update_domains c u w" "sources_available c u w"
          using built Inr custom by (auto simp: update_domains_def sources_available_def list_all_iff)
        note frame = write_blocklist_cases [OF wr, unfolded ds(1)]
        have cu: "files w3 (custom_blocklist_path u) = files w (custom_blocklist_path u)"
          using frame same(2) apart(3,4) by simp
        show ?thesis
        proof (cases r3)
          case (Some err)
          then have "ok = False" "u' = u" "files w' = files w3"
            using assms(2) True Inr lc custom wr
            by (auto simp: UpdateOnce_def EnsureCacheDir_def e b Let_def)
          then show ?thesis using frame same(1) cu Some by simp
        next
          case None
          then have "ok = True" "u' = publish u (ds \<union> custom)" "files w' = files w3"
            using assms(2) True Inr lc custom wr
            by (auto simp: UpdateOnce_def EnsureCacheDir_def e b publish_def Let_def)
          then show ?thesis using frame ds cu custom None by simp
        qed
      qed
    qed
  qed
qed

lemma update_once_result:
  assumes "paths_apart u"
  shows "fst (UpdateOnce c os u w) \<longleftrightarrow>
    fst (EnsureCacheDir os u w) \<and> sources_available c u w \<and> \<not> isl (load_custom u w) \<and>
    os_writable os (output_path u @ ''.tmp'') \<and> os_rename os (output_path u @ ''.tmp'') (output_path u)"
proof -
  let ?dir = "cache_dir (upd_config u)" and ?us = "urls (upd_config u)"
  have inj: "inj_on (CachePathForUrl ?dir) (set ?us)"
    and apart: "custom_blocklist_path u \<notin> CachePathForUrl ?dir ` set ?us"
    using assms by (auto simp: paths_apart_def cached_paths_def)
  obtain ok1 w1 where e: "EnsureDir os w ?dir = (ok1, w1)" by fastforce
  obtain r w2 where b: "BuildBlocklistFromSources c os w1 ?us ?dir = (r, w2)" by fastforce
  show ?thesis
  proof (cases ok1)
    case False
    then show ?thesis by (simp add: UpdateOnce_def EnsureCacheDir_def e)
  next
    case True
    note built = build_correct [OF inj e b True]
    then have "files w2 (custom_blocklist_path u) = files w (custom_blocklist_path u)"
      using apart by blast
    note lc = load_custom_cong [OF this]
    have avail: "sources_available c u w \<longleftrightarrow> \<not> isl r"
      using built by (auto simp: sources_available_def list_all_iff split: sum.splits)
    show ?thesis
      using True lc avail
      by (cases r; cases "load_custom u w")
        (auto simp: UpdateOnce_def EnsureCacheDir_def e b WriteBlocklistToml_def WriteFile_def Let_def)
  qed
qed

text \<open>The names of the custom list can be written to the generated file.\<close>

definition clean_custom :: "updater \<Rightarrow> world \<Rightarrow> bool" where
  "clean_custom u w \<longleftrightarrow>
     (case load_custom u w of
        Inl e \<Rightarrow> True
      | Inr custom \<Rightarrow> \<forall>d\<in>custom. file_safe d \<and> canonical d = d)"

lemma finite_load_custom: "load_custom u w = Inr custom \<Longrightarrow> finite custom"
  by (auto simp: load_custom_def LoadBlocklist_def finite_blocklist_loop split: if_splits option.splits)

lemma named_domains_wf: "d \<in> named_domains t \<Longrightarrow> wf_domain d"
  using parse_content_subset [of t "{}"] by (auto simp: named_domains_def)

lemma finite_update_domains: "finite (update_domains c u w)"
  using finite_parse_content finite_load_custom [of u w]
  by (auto simp: update_domains_def source_domains_def named_domains_def split: sum.split)

lemma update_domains_clean:
  assumes "clean_custom u w" "d \<in> update_domains c u w"
  shows "file_safe d \<and> canonical d = d"
  using assms wf_domain_file_safe wf_domain_canonical named_domains_wf
  by (auto simp: update_domains_def source_domains_def clean_custom_def split: sum.splits)

lemma published_file_loads:
  assumes "clean_custom u w" "fs (output_path u) = Some (blocklist_text (update_domains c u w))"
  shows "LoadBlocklist fs (output_path u) {} = Inr (update_domains c u w)"
proof -
  have "canonical ` update_domains c u w = update_domains c u w"
    using update_domains_clean [OF assms(1)] by (simp add: image_cong)
  then show ?thesis
    using load_generated [OF finite_update_domains, of c u w fs "output_path u" "{}"]
      update_domains_clean [OF assms(1)] assms(2) by simp
qed

text \<open>
  C7: An update is all or nothing. If \<open>UpdateOnce\<close> returns true, every configured source was
  fetched or had a cached copy, the custom list loaded, the blocklist in memory now holds exactly
  the domains that the sources and the custom list name, and the generated file holds what the
  system stored of the printed form of the same set. When that is all of it and the custom names
  are clean, the file loads as exactly this set (a write cut short by a full disk is not noticed:
  then memory has the set and the file may not). If it returns false, neither the blocklist nor
  the generated file has changed.
\<close>

theorem update_once_all_or_nothing:
  assumes "paths_apart u" "UpdateOnce c os u w = (ok, u', w')"
  shows "if ok then
      sources_available c u w \<and> \<not> isl (load_custom u w) \<and> u' = publish u (update_domains c u w) \<and>
      files w' (output_path u) =
        Some (os_stored os (output_path u @ ''.tmp'') (blocklist_text (update_domains c u w))) \<and>
      (clean_custom u w \<longrightarrow>
        os_stored os (output_path u @ ''.tmp'') (blocklist_text (update_domains c u w)) =
          blocklist_text (update_domains c u w) \<longrightarrow>
        LoadBlocklist (files w') (output_path u) {} = Inr (update_domains c u w))
    else u' = u \<and> files w' (output_path u) = files w (output_path u)"
  using update_once_cases [OF assms] published_file_loads [of u w "files w'" c] by (simp split: if_splits)

definition sample_curl :: curl where
  "sample_curl = \<lparr>curl_global_init = True, curl_easy_init = True,
     curl_easy_perform = (\<lambda>url. if url = ''u1'' then ([''0.0.0.0 ads.ex'', ''ample''], 0) else ([], 7)),
     curl_easy_strerror = (\<lambda>n. ''error'')\<rparr>"

definition sample_updater :: updater where
  "sample_updater = \<lparr>upd_config = \<lparr>urls = [''u1''], update_interval_sec = 60, cache_dir = ''/c''\<rparr>,
     custom_blocklist_path = [], output_path = ''b.toml'', upd_blocklist = Some new_blocklist\<rparr>"

lemma sample_updater_apart: "paths_apart sample_updater"
  by (simp add: paths_apart_def sample_updater_def cached_paths_def CachePathForUrl_def)

lemma sample_sources:
  "update_domains sample_curl sample_updater w = {''ads.example''}"
  "sources_available sample_curl sample_updater w"
proof -
  have n: "named_domains ''0.0.0.0 ads.example'' = {''ads.example''}" by code_simp
  have "update_domains sample_curl sample_updater w = named_domains ''0.0.0.0 ads.example''"
    by (simp add: update_domains_def source_domains_def source_text_def FetchUrl_def sample_curl_def
        sample_updater_def load_custom_def Let_def CurlWriteCallback_def)
  with n show "update_domains sample_curl sample_updater w = {''ads.example''}" by simp
  show "sources_available sample_curl sample_updater w"
    by (simp add: sources_available_def source_text_def FetchUrl_def sample_curl_def sample_updater_def Let_def)
qed

lemma sample_clean_custom: "clean_custom sample_updater w"
  by (simp add: clean_custom_def load_custom_def sample_updater_def)

theorem update_once_all_or_nothing_witness:
  "LoadBlocklist (files (snd (snd (UpdateOnce sample_curl sample_os sample_updater empty_world))))
     (output_path sample_updater) {} = Inr {''ads.example''} \<and>
   fst (snd (UpdateOnce sample_curl sample_os sample_updater empty_world)) =
     publish sample_updater {''ads.example''}"
proof -
  obtain ok u' w' where r: "UpdateOnce sample_curl sample_os sample_updater empty_world = (ok, u', w')"
    by (metis prod_cases3)
  have "fst (EnsureCacheDir sample_os sample_updater empty_world)"
    by (simp add: EnsureCacheDir_def EnsureDir_def sample_os_def)
  then have "ok"
    using r update_once_result [OF sample_updater_apart, of sample_curl sample_os empty_world]
    by (simp add: sample_os_def load_custom_def sample_updater_def sample_sources [unfolded sample_updater_def])
  moreover have "os_stored sample_os p t = t" for p t by (simp add: sample_os_def)
  ultimately show ?thesis
    using update_once_all_or_nothing [OF sample_updater_apart r] sample_clean_custom
    by (simp add: r sample_sources)
qed

text \<open>
  C32: An update that can succeed does. \<open>UpdateOnce\<close> returns true exactly when the cache
  directory exists or can be made, every source (of at least one) is fetched or cached, the
  custom list (if any) loads, and the generated file can be written and renamed; no other
  error path makes it give up.
\<close>

theorem update_once_succeeds_iff:
  assumes "paths_apart u"
  shows "fst (UpdateOnce c os u w) \<longleftrightarrow>
    fst (EnsureCacheDir os u w) \<and> sources_available c u w \<and> \<not> isl (load_custom u w) \<and>
    os_writable os (output_path u @ ''.tmp'') \<and> os_rename os (output_path u @ ''.tmp'') (output_path u)"
  by (rule update_once_result [OF assms])

theorem update_once_succeeds_iff_witness:
  "\<not> fst (UpdateOnce (sample_curl\<lparr>curl_easy_init := False\<rparr>) sample_os sample_updater empty_world)"
  using update_once_succeeds_iff [OF sample_updater_apart,
      of "sample_curl\<lparr>curl_easy_init := False\<rparr>" sample_os empty_world]
  by (simp add: sources_available_def source_text_def FetchUrl_def sample_updater_def FileExists_def
      empty_world_def Let_def)

subsection \<open>The updater thread\<close>

text \<open>
  The thread runs a first update whatever happens, then alternates between waiting on the
  condition variable and updating. It tests \<open>running_\<close> with the mutex held: before it waits
  (\<open>Checking\<close>) and when it has been woken (\<open>Woken\<close>). It is woken from \<open>Waiting\<close> by the broadcast
  of \<open>Stop\<close>, or when the interval is over or spuriously (\<open>Timeout\<close>). \<open>Stop\<close> clears the flag,
  broadcasts, both under the mutex, and joins the thread. \<open>Start\<close> and \<open>Stop\<close> are called one
  after the other, by the owner of the updater; an update meets any behaviour of curl and of the
  system. \<open>started\<close> counts the updates, and \<open>stored_whole\<close> records whether the system stored
  whole files in the last update that succeeded; neither is a variable of the code.
\<close>

datatype thread_pc = No_Thread | Updating | Checking | Waiting | Woken | Exited

record updater_thread =
  upd :: updater
  sys :: world
  running :: bool
  joining :: bool
  pc :: thread_pc
  started :: nat
  stored_whole :: bool

definition idle_thread :: "updater \<Rightarrow> world \<Rightarrow> updater_thread" where
  "idle_thread u w = \<lparr>upd = u, sys = w, running = False, joining = False, pc = No_Thread, started = 0,
     stored_whole = True\<rparr>"

text \<open>\<open>pthread_cond_broadcast\<close>: the thread, if it waits, is woken.\<close>

definition broadcast :: "thread_pc \<Rightarrow> thread_pc" where
  "broadcast p = (if p = Waiting then Woken else p)"

inductive updater_step :: "updater_thread \<Rightarrow> updater_thread \<Rightarrow> bool" where
  Start_Again: "running s \<Longrightarrow> updater_step s s"
| Start: "\<not> running s \<Longrightarrow> \<not> joining s \<Longrightarrow>
    updater_step s (s\<lparr>running := True, pc := Updating, started := started s + 1,
      sys := log_info (sys s) ''Upstream blocklist updater started''\<rparr>)"
| Start_Fails: "\<not> running s \<Longrightarrow> \<not> joining s \<Longrightarrow>
    updater_step s (s\<lparr>running := False,
      sys := log_error (sys s) ''Failed to start upstream blocklist thread''\<rparr>)"
| Stop_Idle: "\<not> running s \<Longrightarrow> updater_step s s"
| Stop: "running s \<Longrightarrow> updater_step s (s\<lparr>running := False, joining := True, pc := broadcast (pc s)\<rparr>)"
| Joined: "joining s \<Longrightarrow> pc s = Exited \<Longrightarrow>
    updater_step s (s\<lparr>joining := False,
      sys := log_info (sys s) ''Upstream blocklist updater stopped''\<rparr>)"
| Update: "pc s = Updating \<Longrightarrow> UpdateOnce c os (upd s) (sys s) = (ok, u, w) \<Longrightarrow>
    updater_step s (s\<lparr>upd := u, sys := w, pc := Checking,
      stored_whole := (if ok then \<forall>p t. os_stored os p t = t else stored_whole s)\<rparr>)"
| Wait: "pc s = Checking \<Longrightarrow> running s \<Longrightarrow> updater_step s (s\<lparr>pc := Waiting\<rparr>)"
| Timeout: "pc s = Waiting \<Longrightarrow> updater_step s (s\<lparr>pc := Woken\<rparr>)"
| Leave: "pc s \<in> {Checking, Woken} \<Longrightarrow> \<not> running s \<Longrightarrow> updater_step s (s\<lparr>pc := Exited\<rparr>)"
| Wake: "pc s = Woken \<Longrightarrow> running s \<Longrightarrow>
    updater_step s (s\<lparr>pc := Updating, started := started s + 1,
      sys := log_info (sys s) ''Upstream blocklist periodic update''\<rparr>)"

inductive_cases updater_stepE: "updater_step s t"

inductive updater_reachable :: "updater \<Rightarrow> world \<Rightarrow> updater_thread \<Rightarrow> bool" for u w where
  idle: "updater_reachable u w (idle_thread u w)"
| step: "updater_reachable u w s \<Longrightarrow> updater_step s t \<Longrightarrow> updater_reachable u w t"

definition pc_active :: "thread_pc \<Rightarrow> bool" where
  "pc_active p \<longleftrightarrow> p = Updating \<or> p = Checking \<or> p = Waiting \<or> p = Woken"

text \<open>
  There is a thread exactly while the flag is up or a \<open>Stop\<close> waits for it, and then it does not
  sleep.
\<close>

definition control_inv :: "updater_thread \<Rightarrow> bool" where
  "control_inv s \<longleftrightarrow>
     (joining s \<longrightarrow> \<not> running s \<and> pc s \<noteq> No_Thread \<and> pc s \<noteq> Waiting) \<and>
     (running s \<longrightarrow> pc_active (pc s)) \<and> (\<not> running s \<and> \<not> joining s \<longrightarrow> \<not> pc_active (pc s))"

lemma control_inv_step: "updater_step s t \<Longrightarrow> control_inv s \<Longrightarrow> control_inv t"
  by (induction rule: updater_step.induct) (auto simp: control_inv_def pc_active_def broadcast_def)

lemma control_inv_reachable: "updater_reachable u w s \<Longrightarrow> control_inv s"
  by (induction rule: updater_reachable.induct)
    (simp_all add: idle_thread_def control_inv_step, simp add: control_inv_def pc_active_def)

subsection \<open>What is published\<close>

definition in_sync :: "updater \<Rightarrow> world \<Rightarrow> updater_thread \<Rightarrow> bool" where
  "in_sync u w s \<longleftrightarrow>
     files (sys s) (custom_blocklist_path u) = files w (custom_blocklist_path u) \<and>
     (upd s = u \<and> files (sys s) (output_path u) = files w (output_path u) \<or>
      (\<exists>ds. upd s = publish u ds \<and>
        (stored_whole s \<longrightarrow> LoadBlocklist (files (sys s)) (output_path u) {} = Inr ds)))"

lemma publish_simps [simp]:
  "upd_config (publish u ds) = upd_config u" "output_path (publish u ds) = output_path u"
  "custom_blocklist_path (publish u ds) = custom_blocklist_path u"
  "publish (publish u ds) es = publish u es"
  by (simp_all add: publish_def option.map_comp o_def SetDomains_def)

lemma publish_spec:
  "paths_apart (publish u ds) = paths_apart u" "update_domains c (publish u ds) w = update_domains c u w"
  "load_custom (publish u ds) w = load_custom u w"
  by (simp_all add: paths_apart_def cached_paths_def update_domains_def load_custom_def)

lemma in_sync_update:
  assumes "paths_apart u" "clean_custom u w" "in_sync u w s"
    and "UpdateOnce c os (upd s) (sys s) = (ok, u', w')"
  shows "in_sync u w (s\<lparr>upd := u', sys := w', pc := Checking,
    stored_whole := (if ok then \<forall>p t. os_stored os p t = t else stored_whole s)\<rparr>)"
proof -
  have same: "upd_config (upd s) = upd_config u" "output_path (upd s) = output_path u"
    "custom_blocklist_path (upd s) = custom_blocklist_path u" "paths_apart (upd s)"
    "update_domains c (upd s) (sys s) = update_domains c u (sys s)" "publish (upd s) es = publish u es" for es
    using assms(1,3) by (auto simp: in_sync_def publish_spec)
  note cases = update_once_cases [OF same(4) assms(4), unfolded same]
  have lc: "load_custom u (sys s) = load_custom u w"
    by (rule load_custom_cong) (use assms(3) in \<open>simp add: in_sync_def\<close>)
  show ?thesis
  proof (cases ok)
    case True
    have "clean_custom u (sys s)" using assms(2) lc by (simp add: clean_custom_def)
    then have "LoadBlocklist (files w') (output_path u) {} = Inr (update_domains c u (sys s))"
      if "\<forall>p t. os_stored os p t = t"
      using cases True that by (intro published_file_loads) simp_all
    then show ?thesis using cases True assms(3) by (auto simp: in_sync_def)
  next
    case False
    then show ?thesis using cases assms(3) by (auto simp: in_sync_def LoadBlocklist_def)
  qed
qed

lemma in_sync_step:
  assumes "updater_step s t" "paths_apart u" "clean_custom u w" "in_sync u w s"
  shows "in_sync u w t"
  using assms(1)
proof cases
  case (Update c os ok u' w')
  show ?thesis unfolding Update(1) by (rule in_sync_update [OF assms(2-4) Update(3)])
qed (use assms(4) in \<open>auto simp: in_sync_def\<close>)

lemma in_sync_reachable:
  "updater_reachable u w s \<Longrightarrow> paths_apart u \<Longrightarrow> clean_custom u w \<Longrightarrow> in_sync u w s"
  by (induction rule: updater_reachable.induct)
    (auto intro: in_sync_step, auto simp: in_sync_def idle_thread_def)

text \<open>
  C8: Memory and file agree. In every state that the updater thread, \<open>Start\<close> and \<open>Stop\<close> can
  reach, whatever the downloads and the system calls do, either nothing has been published
  (the blocklist and the generated file are as they were), or the blocklist holds a published set
  and, unless the system cut short a write of the last successful update without an error, that is
  the set which \<open>LoadBlocklist\<close> reads from the generated file.
\<close>

theorem updater_in_sync:
  assumes "paths_apart u" "clean_custom u w" "updater_reachable u w s"
  shows "upd s = u \<and> files (sys s) (output_path u) = files w (output_path u) \<or>
    (\<exists>ds. upd s = publish u ds \<and>
      (stored_whole s \<longrightarrow> LoadBlocklist (files (sys s)) (output_path u) {} = Inr ds))"
  using in_sync_reachable [OF assms(3,1,2)] by (simp add: in_sync_def)

text \<open>The updater in its first update.\<close>

definition first_update :: "updater_thread" where
  "first_update = (idle_thread sample_updater empty_world)\<lparr>running := True, pc := Updating, started := 1,
     sys := log_info empty_world ''Upstream blocklist updater started''\<rparr>"

lemma first_update_reachable: "updater_reachable sample_updater empty_world first_update"
proof -
  have "updater_step (idle_thread sample_updater empty_world) first_update"
    using updater_step.Start [of "idle_thread sample_updater empty_world"]
    by (simp add: idle_thread_def first_update_def)
  then show ?thesis by (blast intro: updater_reachable.intros)
qed

lemma first_update_done:
  fixes os :: os
  assumes "\<And>t. os_stored os (''b.toml'' @ ''.tmp'') t = st t" "\<And>p. os_mkdir os p" "\<And>p. os_writable os p" "\<And>p q. os_rename os p q"
  obtains s where "updater_reachable sample_updater empty_world s" "pc s = Checking" "running s"
    "upd s = publish sample_updater {''ads.example''}" "stored_whole s \<longleftrightarrow> (\<forall>p t. os_stored os p t = t)"
    "files (sys s) (output_path sample_updater) = Some (st (blocklist_text {''ads.example''}))"
proof -
  let ?w = "sys first_update"
  obtain ok u' w' where r: "UpdateOnce sample_curl os sample_updater ?w = (ok, u', w')" by (metis prod_cases3)
  have d: "update_domains sample_curl sample_updater ?w = {''ads.example''}"
    and a: "sources_available sample_curl sample_updater ?w" by (rule sample_sources)+
  have "fst (EnsureCacheDir os sample_updater ?w)" using assms(2) by (simp add: EnsureCacheDir_def EnsureDir_def)
  then have ok: "ok"
    using r update_once_result [OF sample_updater_apart, of sample_curl os ?w] a assms(3,4)
    by (simp add: load_custom_def sample_updater_def)
  have "upd first_update = sample_updater" "pc first_update = Updating"
    by (simp_all add: first_update_def idle_thread_def)
  note step = updater_step.Update [of first_update, OF this(2) r [folded this(1)]]
  let ?s = "first_update\<lparr>upd := u', sys := w', pc := Checking,
      stored_whole := (if ok then \<forall>p t. os_stored os p t = t else stored_whole first_update)\<rparr>"
  have "updater_reachable sample_updater empty_world ?s"
    using first_update_reachable step by (blast intro: updater_reachable.intros)
  moreover have "output_path sample_updater = ''b.toml''" by (simp add: sample_updater_def)
  ultimately show thesis
    using update_once_cases [OF sample_updater_apart r] ok d assms(1)
    by (intro that [of ?s]) (simp_all add: first_update_def)
qed

theorem updater_in_sync_witness:
  "\<exists>s :: updater_thread. running s \<and> pc s = Checking \<and>
     LoadBlocklist (files (sys s)) (output_path sample_updater) {} = Inr {''ads.example''} \<and>
     upd s = publish sample_updater {''ads.example''}"
proof -
  have "os_stored sample_os p t = t" "os_mkdir sample_os p" "os_writable sample_os p" "os_rename sample_os p q"
    for p q t by (simp_all add: sample_os_def)
  then obtain s where s: "updater_reachable sample_updater empty_world s" "pc s = Checking" "running s"
    "upd s = publish sample_updater {''ads.example''}" "stored_whole s"
    using first_update_done [of sample_os id] by (metis id_apply)
  have "upd s \<noteq> sample_updater"
    by (simp add: s(4) publish_def sample_updater_def SetDomains_def new_blocklist_def)
  moreover have "ds = {''ads.example''}" if "publish sample_updater {''ads.example''} = publish sample_updater ds" for ds
    using that by (simp add: publish_def sample_updater_def SetDomains_def new_blocklist_def)
  ultimately have "LoadBlocklist (files (sys s)) (output_path sample_updater) {} = Inr {''ads.example''}"
    using updater_in_sync [OF sample_updater_apart sample_clean_custom s(1)] s(4,5) by auto
  with s(2-4) show ?thesis by blast
qed

text \<open>
  The exception is real: a write that the system cuts short ends in success, with the names in
  memory and an empty list in the file.
\<close>

lemma truncated_list_installed:
  "\<exists>s. updater_reachable sample_updater empty_world s \<and> upd s = publish sample_updater {''ads.example''} \<and>
     files (sys s) (output_path sample_updater) = Some []"
  using first_update_done [of "sample_os\<lparr>os_stored := (\<lambda>p t. [])\<rparr>" "\<lambda>t. []"]
  by (simp add: sample_os_def) metis

subsection \<open>Stopping\<close>

definition pc_rank :: "thread_pc \<Rightarrow> nat" where
  "pc_rank p = (case p of Updating \<Rightarrow> 2 | Checking \<Rightarrow> 1 | Woken \<Rightarrow> 1 | _ \<Rightarrow> 0)"

lemma stopping_step:
  "updater_step s t \<Longrightarrow> joining s \<Longrightarrow> control_inv s \<Longrightarrow>
   t = s \<or> started t = started s \<and> (pc_rank (pc t) < pc_rank (pc s) \<or> \<not> joining t \<and> pc s = Exited)"
  by (induction rule: updater_step.induct) (auto simp: control_inv_def pc_rank_def)

lemma stopping_progress:
  assumes "joining s" "control_inv s"
  shows "\<exists>t. updater_step s t \<and> t \<noteq> s"
proof (cases "pc s")
  case Updating
  obtain ok u w where "UpdateOnce sample_curl sample_os (upd s) (sys s) = (ok, u, w)"
    by (metis prod_cases3)
  from updater_step.Update [OF Updating this] Updating show ?thesis
    by (intro exI conjI) (assumption, cases s, auto)
next
  case Exited
  then show ?thesis using assms updater_step.Joined [of s] by (cases s) auto
qed (use assms updater_step.Leave [of s] in \<open>cases s; auto simp: control_inv_def\<close>)+

text \<open>
  C27: Stopping ends. From any reachable state in which \<open>Stop\<close> waits for the thread, the thread is
  awake (the broadcast of \<open>Stop\<close> has woken it, so it does not sleep until the interval is over), no
  further update is started, every step that changes the state brings the thread closer to its
  end (an update in progress, then leaving the loop, then the join), and there is always such a
  step; so the join comes after at most three steps.
\<close>

theorem stop_terminates:
  assumes "updater_reachable u w s" "joining s"
  shows "(\<forall>t. updater_step s t \<longrightarrow>
      t = s \<or> started t = started s \<and> (pc_rank (pc t) < pc_rank (pc s) \<or> \<not> joining t \<and> pc s = Exited)) \<and>
    (\<exists>t. updater_step s t \<and> t \<noteq> s) \<and> pc s \<noteq> Waiting \<and> pc_rank (pc s) \<le> 2"
  using stopping_step [of s] stopping_progress assms control_inv_reachable
  by (auto simp: pc_rank_def control_inv_def split: thread_pc.split)

theorem stop_terminates_witness:
  "\<exists>s. joining s \<and> pc s = Woken \<and> pc s \<noteq> Waiting \<and> (\<exists>t. updater_step s t \<and> t \<noteq> s)"
proof -
  have "os_stored sample_os p t = t" "os_mkdir sample_os p" "os_writable sample_os p" "os_rename sample_os p q"
    for p q t by (simp_all add: sample_os_def)
  then obtain s where s: "updater_reachable sample_updater empty_world s" "pc s = Checking" "running s"
    using first_update_done [of sample_os id] by (metis id_apply)
  have "updater_step s (s\<lparr>pc := Waiting\<rparr>)" by (rule updater_step.Wait [OF s(2,3)])
  moreover have "updater_step (s\<lparr>pc := Waiting\<rparr>) (s\<lparr>running := False, joining := True, pc := Woken\<rparr>)"
    using updater_step.Stop [of "s\<lparr>pc := Waiting\<rparr>"] s(3) by (simp add: broadcast_def)
  ultimately have r: "updater_reachable sample_updater empty_world (s\<lparr>running := False, joining := True, pc := Woken\<rparr>)"
    using s(1) by (blast intro: updater_reachable.intros)
  show ?thesis
    using stop_terminates [OF r]
    by (intro exI [of _ "s\<lparr>running := False, joining := True, pc := Woken\<rparr>"]) auto
qed

end
