(* ===== verification/Local_Records.thy ===== *)
theory Local_Records
  imports Config Dns_Wire
begin

text \<open>
  \<open>LocalRecords\<close> (\<open>src/local_records.cpp\<close>): the table of local answers, a map from
  \<open>name|type\<close> keys to records, filled once from the records file. Its specification is a
  search in the list of records: the last record of the domain and the type answers.
\<close>

subsection \<open>The code\<close>

record local_records =
  records :: "string \<rightharpoonup> LocalRecord"

definition no_records :: local_records where
  "no_records = \<lparr>records = Map.empty\<rparr>"

definition MakeKey :: "string \<Rightarrow> u16 \<Rightarrow> string" where
  "MakeKey name q = strip_final_dot (ToLower name) @ ''|'' @ decimal (unat q)"

definition TypeFromString :: "string \<Rightarrow> u16" where
  "TypeFromString type =
     (if type = ''a'' then DNS_TYPE_A
      else if type = ''aaaa'' then DNS_TYPE_AAAA
      else if type = ''cname'' then DNS_TYPE_CNAME
      else if type = ''ptr'' then DNS_TYPE_PTR
      else if type = ''mx'' then DNS_TYPE_MX
      else if type = ''txt'' then DNS_TYPE_TXT
      else 0)"

fun load_loop :: "(string \<rightharpoonup> LocalRecord) \<Rightarrow> LocalRecord list \<Rightarrow> (string \<rightharpoonup> LocalRecord)" where
  "load_loop m [] = m"
| "load_loop m (r # rs) =
     (let q = TypeFromString (ToLower (rec_type r)) in
      if q = 0 then load_loop m rs
      else load_loop (m(MakeKey (rec_name r) q \<mapsto> r)) rs)"

definition Load :: "local_records \<Rightarrow> LocalRecord list \<Rightarrow> local_records" where
  "Load t rs = t\<lparr>records := load_loop Map.empty rs\<rparr>"

text \<open>The value and the type of the answer; \<open>None\<close> when the code returns false.\<close>

definition Resolve :: "local_records \<Rightarrow> string \<Rightarrow> u16 \<Rightarrow> (string \<times> u16) option" where
  "Resolve t name q =
     (case records t (MakeKey name q) of
        None \<Rightarrow> None
      | Some r \<Rightarrow> Some (rec_value r, q))"

subsection \<open>Keys\<close>

interpretation local_key: lookup_key MakeKey
  by unfold_locales (simp add: MakeKey_def canonical_def bar_key_inject [simplified] word_unat_eq_iff)

subsection \<open>Specification\<close>

definition answers :: "string \<Rightarrow> u16 \<Rightarrow> LocalRecord \<Rightarrow> bool" where
  "answers name q r \<longleftrightarrow>
     q \<noteq> 0 \<and> TypeFromString (ToLower (rec_type r)) = q \<and> canonical (rec_name r) = canonical name"

definition last_answer :: "string \<Rightarrow> u16 \<Rightarrow> LocalRecord list \<Rightarrow> LocalRecord option" where
  "last_answer name q rs = find (answers name q) (rev rs)"

lemma last_answer_Cons:
  "last_answer name q (r # rs) =
     (case last_answer name q rs of
        None \<Rightarrow> if answers name q r then Some r else None
      | Some a \<Rightarrow> Some a)"
proof -
  have "find P (xs @ ys) = (case find P xs of None \<Rightarrow> find P ys | Some a \<Rightarrow> Some a)" for P and xs ys :: "LocalRecord list"
    by (induction xs) auto
  then show ?thesis by (simp add: last_answer_def split: option.split)
qed

lemma load_loop_lookup:
  "load_loop m rs (MakeKey name q) =
     (case last_answer name q rs of None \<Rightarrow> m (MakeKey name q) | Some r \<Rightarrow> Some r)"
proof (induction rs arbitrary: m)
  case (Cons r rs)
  show ?case
    by (auto simp: Cons.IH last_answer_Cons local_key.lookup_update answers_def Let_def
        simp del: fun_upd_apply split: option.split)
qed (simp add: last_answer_def)

text \<open>
  C18: Local lookups. After the records have been loaded, a lookup answers with the value of the
  last record in the list whose domain is the queried one (up to case and one final dot) and
  whose type string stands for the query type, and with nothing when there is none; records
  of unknown type never answer, and whatever the table held before is gone.
\<close>

theorem local_lookup_last_record:
  "Resolve (Load t rs) name q = map_option (\<lambda>r. (rec_value r, q)) (last_answer name q rs)"
  by (simp add: Resolve_def Load_def load_loop_lookup split: option.split)

definition two_records :: "LocalRecord list" where
  "two_records =
     [\<lparr>rec_name = ''host.lan'', rec_type = ''a'', rec_value = ''10.0.0.1''\<rparr>,
      \<lparr>rec_name = ''host.lan'', rec_type = ''srv'', rec_value = ''x''\<rparr>,
      \<lparr>rec_name = ''host.lan'', rec_type = ''a'', rec_value = ''10.0.0.2''\<rparr>]"

lemma two_records_lookup:
  "Resolve (Load no_records two_records) ''Host.LAN.'' DNS_TYPE_A = Some (''10.0.0.2'', DNS_TYPE_A)"
  "Resolve (Load no_records two_records) ''host.lan'' DNS_TYPE_TXT = None"
  by code_simp+

end
