(* ===== verification/Upstream_Resolver.thy ===== *)
theory Upstream_Resolver
  imports Util
begin

text \<open>
  \<open>UpstreamResolver\<close> (\<open>src/upstream_resolver.cpp\<close>): parsing of server addresses, the UDP
  lookup and the DNS-over-TLS lookup. Sockets, \<open>select\<close>, \<open>getaddrinfo\<close> and libtls are
  parameters: an environment record says what each call of one lookup returns. The loops around
  \<open>tls_read\<close> and \<open>tls_write\<close> take the list of the results that the successive calls return;
  when the list ends before the loop does, the result is \<open>None\<close> (the lookup is still waiting).

  \<open>net\<close> records what the code does to the outside: the sockets, TLS contexts and TLS
  configurations that are open, the bytes sent, and the log.
\<close>

subsection \<open>Server addresses\<close>

definition read_port :: "string \<Rightarrow> int option" where
  "read_port port_str =
     (case fst (extract_signed 32 port_str) of
        None \<Rightarrow> None
      | Some p \<Rightarrow> if p \<le> 0 \<or> 65535 < p then None else Some p)"

text \<open>The host and the port; \<open>None\<close> when the code returns false.\<close>

definition ParseHostPort :: "string \<Rightarrow> int \<Rightarrow> (string \<times> int) option" where
  "ParseHostPort input default_port =
     (if input = [] then None
      else if hd input = CHR ''['' then
        if CHR '']'' \<notin> set input then None
        else let h = takeWhile (\<lambda>c. c \<noteq> CHR '']'') (tl input);
                 rest = tl (dropWhile (\<lambda>c. c \<noteq> CHR '']'') (tl input))
          in if h = [] then None
             else if rest = [] then Some (h, default_port)
             else if hd rest \<noteq> CHR '':'' then None
             else if tl rest = [] then None
             else (case read_port (tl rest) of None \<Rightarrow> None | Some p \<Rightarrow> Some (h, p))
      else
        let h = takeWhile (\<lambda>c. c \<noteq> CHR '':'') input;
            port_str = tl (dropWhile (\<lambda>c. c \<noteq> CHR '':'') input)
        in if CHR '':'' \<in> set input \<and> CHR '':'' \<notin> set port_str then
             if h = [] \<or> port_str = [] then None
             else (case read_port port_str of None \<Rightarrow> None | Some p \<Rightarrow> Some (h, p))
           else Some (input, default_port))"

text \<open>The name to verify, the host to connect to, and the port.\<close>

definition ParseDotServer :: "string \<Rightarrow> (string \<times> string \<times> int) option" where
  "ParseDotServer input =
     (if input = [] then None
      else if CHR ''@'' \<notin> set input then
        (case ParseHostPort input 853 of None \<Rightarrow> None | Some (h, p) \<Rightarrow> Some (h, h, p))
      else
        let left = takeWhile (\<lambda>c. c \<noteq> CHR ''@'') input;
            right = tl (dropWhile (\<lambda>c. c \<noteq> CHR ''@'') input)
        in if left = [] \<or> right = [] then None
           else (case ParseHostPort right 853 of
                   None \<Rightarrow> None
                 | Some (addr, p) \<Rightarrow> Some (left, addr, p)))"

subsection \<open>The resolver and its environment\<close>

record upstream_resolver =
  udp_servers :: "string list"
  dot_servers :: "string list"
  dot_verify_on :: bool

definition new_resolver :: upstream_resolver where
  "new_resolver = \<lparr>udp_servers = [], dot_servers = [], dot_verify_on = True\<rparr>"

definition SetUdpServers :: "upstream_resolver \<Rightarrow> string list \<Rightarrow> upstream_resolver" where
  "SetUdpServers r servers = r\<lparr>udp_servers := servers\<rparr>"

definition SetDotServers :: "upstream_resolver \<Rightarrow> string list \<Rightarrow> upstream_resolver" where
  "SetDotServers r servers = r\<lparr>dot_servers := servers\<rparr>"

definition SetDotVerify :: "upstream_resolver \<Rightarrow> bool \<Rightarrow> upstream_resolver" where
  "SetDotVerify r v = r\<lparr>dot_verify_on := v\<rparr>"

record net =
  open_socks :: int
  open_tls :: int
  open_cfgs :: int
  tls_inited :: bool
  unverified :: nat
  udp_sent :: "(bytes \<times> bytes) list"
  dot_sent :: bytes
  net_log :: log_globals

definition initial_net :: net where
  "initial_net = \<lparr>open_socks = 0, open_tls = 0, open_cfgs = 0, tls_inited = False, unverified = 0,
     udp_sent = [], dot_sent = [], net_log = initial_log_globals\<rparr>"

definition say :: "net \<Rightarrow> string \<Rightarrow> net" where
  "say n m = n\<lparr>net_log := DebugLog (net_log n) m\<rparr>"

definition open_sock :: "net \<Rightarrow> net" where
  "open_sock n = n\<lparr>open_socks := open_socks n + 1\<rparr>"

definition close_sock :: "net \<Rightarrow> net" where
  "close_sock n = n\<lparr>open_socks := open_socks n - 1\<rparr>"

definition new_cfg :: "net \<Rightarrow> net" where
  "new_cfg n = n\<lparr>open_cfgs := open_cfgs n + 1\<rparr>"

definition free_cfg :: "net \<Rightarrow> net" where
  "free_cfg n = n\<lparr>open_cfgs := open_cfgs n - 1\<rparr>"

definition new_tls :: "net \<Rightarrow> net" where
  "new_tls n = n\<lparr>open_tls := open_tls n + 1\<rparr>"

definition free_tls :: "net \<Rightarrow> net" where
  "free_tls n = n\<lparr>open_tls := open_tls n - 1\<rparr>"

text \<open>The response and the name of the upstream are output parameters.\<close>

type_synonym lookup_out = "bytes \<times> string"

subsection \<open>UDP\<close>

record udp_env =
  u_socket :: bool
  u_pton :: "string \<Rightarrow> bytes option"
  u_sendto :: bool
  u_ready :: bool
  u_recv :: "bytes option"
  u_error :: string

definition ResolveUdp ::
    "udp_env \<Rightarrow> upstream_resolver \<Rightarrow> net \<Rightarrow> bytes \<Rightarrow> lookup_out \<Rightarrow> bool \<times> lookup_out \<times> net" where
  "ResolveUdp e r n query out =
     (if udp_servers r = [] then (False, out, say n ''No upstream UDP servers configured'')
      else
        let server = hd (udp_servers r); out = (fst out, server) in
        if \<not> u_socket e then (False, out, say n (''upstream socket() failed: '' @ u_error e))
        else let n = open_sock n in
          (case u_pton e server of
             None \<Rightarrow> (False, out, close_sock (say n (''upstream inet_pton failed for: '' @ server)))
           | Some addr \<Rightarrow>
               if \<not> u_sendto e then
                 (False, out, close_sock (say n (''upstream sendto failed: '' @ u_error e)))
               else
                 let n = say (n\<lparr>udp_sent := udp_sent n @ [(addr, query)]\<rparr>)
                       (''Upstream query sent to '' @ server @ '':53'') in
                 if \<not> u_ready e then
                   (False, out, close_sock (say n ''upstream select timed out or failed''))
                 else let n = close_sock n in
                   (case u_recv e of
                      None \<Rightarrow> (False, out, say n ''upstream recvfrom failed'')
                    | Some buf \<Rightarrow>
                        if buf = [] then (False, out, say n ''upstream recvfrom failed'')
                        else (True, (buf, server),
                              say n (''Upstream response received: '' @ decimal (length buf) @ '' bytes'')))))"

subsection \<open>TLS\<close>

text \<open>
  The results of successive \<open>tls_write\<close> calls (the number of bytes taken) and \<open>tls_read\<close>
  calls (the bytes delivered). \<open>Want_In\<close> and \<open>Want_Out\<close> stand for the polling results,
  with whether the socket became ready in time.
\<close>

datatype write_result = Wrote nat | Write_Want_In bool | Write_Want_Out bool | Write_Failed

datatype read_result = Got bytes | Read_Want_In bool | Read_Want_Out bool | Read_Failed

fun TlsWriteAll ::
    "string \<Rightarrow> net \<Rightarrow> bytes \<Rightarrow> nat \<Rightarrow> write_result list \<Rightarrow> (bool \<times> write_result list \<times> net) option" where
  "TlsWriteAll err n data off [] = (if length data \<le> off then Some (True, [], n) else None)"
| "TlsWriteAll err n data off (e # es) =
     (if length data \<le> off then Some (True, e # es, n)
      else case e of
        Wrote k \<Rightarrow>
          if 0 < k then
            TlsWriteAll err (n\<lparr>dot_sent := dot_sent n @ take k (drop off data)\<rparr>) data (off + k) es
          else Some (False, es, say n (''DoT tls_write failed: '' @ err))
      | Write_Want_In ready \<Rightarrow>
          if \<not> ready then Some (False, es, n) else TlsWriteAll err n data off es
      | Write_Want_Out ready \<Rightarrow>
          if \<not> ready then Some (False, es, n) else TlsWriteAll err n data off es
      | Write_Failed \<Rightarrow> Some (False, es, say n (''DoT tls_write failed: '' @ err)))"

text \<open>\<open>err\<close> is what \<open>tls_error\<close> says; \<open>got\<close> is the part of the buffer that has been filled.\<close>

fun TlsReadAll ::
    "string \<Rightarrow> net \<Rightarrow> nat \<Rightarrow> bytes \<Rightarrow> read_result list \<Rightarrow> (bytes option \<times> read_result list \<times> net) option" where
  "TlsReadAll err n len got [] = (if len \<le> length got then Some (Some got, [], n) else None)"
| "TlsReadAll err n len got (e # es) =
     (if len \<le> length got then Some (Some got, e # es, n)
      else case e of
        Got chunk \<Rightarrow>
          if chunk = [] then Some (None, es, n) else TlsReadAll err n len (got @ chunk) es
      | Read_Want_In ready \<Rightarrow>
          if \<not> ready then Some (None, es, n) else TlsReadAll err n len got es
      | Read_Want_Out ready \<Rightarrow>
          if \<not> ready then Some (None, es, n) else TlsReadAll err n len got es
      | Read_Failed \<Rightarrow> Some (None, es, say n (''DoT tls_read failed: '' @ err)))"

text \<open>What happens to one address that \<open>getaddrinfo\<close> returned.\<close>

datatype connect_result = Connected | In_Progress bool "int option" | Refused

record candidate =
  c_socket :: bool
  c_nonblock :: bool
  c_connect :: connect_result

fun connect_loop :: "net \<Rightarrow> candidate list \<Rightarrow> bool \<times> net" where
  "connect_loop n [] = (False, n)"
| "connect_loop n (c # cs) =
     (if \<not> c_socket c then connect_loop n cs
      else let n = open_sock n in
        if \<not> c_nonblock c then connect_loop (close_sock n) cs
        else case c_connect c of
          Connected \<Rightarrow> (True, n)
        | In_Progress ready so_error \<Rightarrow>
            if \<not> ready then connect_loop (close_sock n) cs
            else if so_error \<noteq> Some 0 then connect_loop (close_sock n) cs
            else (True, n)
        | Refused \<Rightarrow> connect_loop (close_sock n) cs)"

record dot_env =
  d_tls_init :: bool
  d_getaddrinfo :: "string \<Rightarrow> int \<Rightarrow> candidate list option"
  d_config_new :: bool
  d_apple :: bool
  d_is_dir :: "string \<Rightarrow> bool"
  d_path_exists :: "string \<Rightarrow> bool"
  d_set_ca :: "string \<Rightarrow> bool"
  d_tls_client :: bool
  d_tls_configure :: bool
  d_tls_connect :: bool
  d_tls_error :: string
  d_writes :: "write_result list"
  d_reads :: "read_result list"

definition ConnectTcp :: "dot_env \<Rightarrow> net \<Rightarrow> string \<Rightarrow> int \<Rightarrow> bool \<times> net" where
  "ConnectTcp e n host port =
     (case d_getaddrinfo e host port of
        None \<Rightarrow> (False, n)
      | Some cs \<Rightarrow> connect_loop n cs)"

text \<open>\<open>d_apple\<close> is the preprocessor's \<open>__APPLE__\<close>.\<close>

definition ConfigureTls :: "dot_env \<Rightarrow> bool" where
  "ConfigureTls e =
     (if d_apple e \<and> d_path_exists e ''/opt/homebrew/etc/ssl/cert.pem'' then
        d_set_ca e ''/opt/homebrew/etc/ssl/cert.pem''
      else if d_apple e \<and> d_path_exists e ''/usr/local/etc/ssl/cert.pem'' then
        d_set_ca e ''/usr/local/etc/ssl/cert.pem''
      else if d_is_dir e ''/etc/ssl/certs'' then d_set_ca e ''/etc/ssl/certs''
      else if d_path_exists e ''/etc/ssl/cert.pem'' then d_set_ca e ''/etc/ssl/cert.pem''
      else if d_path_exists e ''/etc/ssl/certs/ca-certificates.crt'' then
        d_set_ca e ''/etc/ssl/certs/ca-certificates.crt''
      else False)"

definition len_prefix :: "nat \<Rightarrow> bytes" where
  "len_prefix k = [ucast (drop_bit 8 (word_of_nat k :: u64)), ucast (word_of_nat k :: u64)]"

definition be_length :: "bytes \<Rightarrow> nat" where
  "be_length b = unat (push_bit 8 (ucast (b ! 0) :: u64) OR ucast (b ! 1))"

text \<open>The answer on an established connection: a two-byte length, then that many bytes.\<close>

definition receive :: "dot_env \<Rightarrow> net \<Rightarrow> (bytes option \<times> net) option" where
  "receive e n =
     (case TlsReadAll (d_tls_error e) n 2 [] (d_reads e) of
        None \<Rightarrow> None
      | Some (None, rs, n) \<Rightarrow> Some (None, n)
      | Some (Some lb, rs, n) \<Rightarrow>
          if be_length lb = 0 then Some (None, say n ''DoT response length is zero'')
          else
            (case TlsReadAll (d_tls_error e) n (be_length lb) [] rs of
               None \<Rightarrow> None
             | Some (buf, rs, n) \<Rightarrow> Some (buf, n)))"

text \<open>The query, after its length.\<close>

definition send :: "dot_env \<Rightarrow> net \<Rightarrow> bytes \<Rightarrow> (bool \<times> net) option" where
  "send e n query =
     (case TlsWriteAll (d_tls_error e) n (len_prefix (length query)) 0 (d_writes e) of
        None \<Rightarrow> None
      | Some (False, ws, n) \<Rightarrow> Some (False, n)
      | Some (True, ws, n) \<Rightarrow>
          (case TlsWriteAll (d_tls_error e) n query 0 ws of
             None \<Rightarrow> None
           | Some (b, ws, n) \<Rightarrow> Some (b, n)))"

definition exchange :: "dot_env \<Rightarrow> net \<Rightarrow> bytes \<Rightarrow> (bytes option \<times> net) option" where
  "exchange e n query =
     (if 65535 < length query then Some (None, n)
      else case send e n query of
        None \<Rightarrow> None
      | Some (False, n) \<Rightarrow> Some (None, n)
      | Some (True, n) \<Rightarrow> receive e n)"

text \<open>\<open>ResolveDot\<close> from the TLS configuration on; the socket is closed on every way out.\<close>

definition tls_session :: "dot_env \<Rightarrow> bool \<Rightarrow> net \<Rightarrow> bytes \<Rightarrow> (bytes option \<times> net) option" where
  "tls_session e verify n query =
     (if \<not> d_config_new e then Some (None, close_sock n)
      else
        let n = new_cfg n;
            no_ca = (verify \<and> \<not> ConfigureTls e);
            n = (if no_ca then say n ''DoT using insecure TLS config (no CA found)'' else n);
            n = (if \<not> verify \<or> no_ca then
                   say (n\<lparr>unverified := unverified n + 1\<rparr>) ''DoT TLS verification disabled''
                 else n)
        in if \<not> d_tls_client e then Some (None, close_sock (free_cfg n))
           else let n = new_tls n in
             if \<not> d_tls_configure e then
               Some (None, close_sock (free_cfg (free_tls (say n (''DoT tls_configure failed: '' @ d_tls_error e)))))
             else let n = free_cfg n in
               if \<not> d_tls_connect e then
                 Some (None, close_sock (free_tls (say n (''DoT tls_connect_socket failed: '' @ d_tls_error e))))
               else (case exchange e n query of
                       None \<Rightarrow> None
                     | Some (resp, n) \<Rightarrow> Some (resp, close_sock (free_tls n))))"

definition ResolveDot ::
    "dot_env \<Rightarrow> upstream_resolver \<Rightarrow> net \<Rightarrow> bytes \<Rightarrow> lookup_out \<Rightarrow> (bool \<times> lookup_out \<times> net) option" where
  "ResolveDot e r n query out =
     (if dot_servers r = [] then Some (False, out, n)
      else if \<not> tls_inited n \<and> \<not> d_tls_init e then Some (False, out, say n ''DoT tls_init failed'')
      else let n = n\<lparr>tls_inited := True\<rparr> in
        case ParseDotServer (hd (dot_servers r)) of
          None \<Rightarrow> Some (False, out, say n (''DoT invalid server: '' @ hd (dot_servers r)))
        | Some (host, connect_host, port) \<Rightarrow>
            let connect_host = (if connect_host = [] then host else connect_host);
                upstream = host @ ''@'' @ connect_host @ '':'' @ decimal (nat port) in
            (case ConnectTcp e n connect_host port of
               (False, n) \<Rightarrow> Some (False, (fst out, upstream), say n (''DoT connect failed: '' @ connect_host))
             | (True, n) \<Rightarrow>
                 (case tls_session e (dot_verify_on r) n query of
                    None \<Rightarrow> None
                  | Some (None, n) \<Rightarrow> Some (False, (fst out, upstream), n)
                  | Some (Some resp, n) \<Rightarrow> Some (True, (resp, upstream), n))))"

end
