(* ===== verification/Resolver_Laws.thy ===== *)
theory Resolver_Laws
  imports Upstream_Resolver Config_Laws
begin

text \<open>
  Properties of the upstream resolver: server addresses are read back as they are written, no
  lookup leaks a socket or a TLS object, the DNS-over-TLS framing is right in both directions
  however the transport cuts the stream, and certificate verification is given up only when
  that is configured or no certificate store is found.
\<close>

subsection \<open>Server addresses\<close>

lemma extract_signed_decimal:
  "\<not> (\<exists>c s. t = c # s \<and> isdigit c) \<Longrightarrow> int n < 2 ^ (w - 1) \<Longrightarrow>
   extract_signed w (decimal n @ t) = (Some (int n), t)"
proof -
  assume t: "\<not> (\<exists>c s. t = c # s \<and> isdigit c)" and n: "int n < 2 ^ (w - 1)"
  have "- (2 ^ (w - 1)) \<le> int n" by (rule order_trans [of _ 0]) simp_all
  then show ?thesis using n read_decimal [OF t, of n] by (simp add: extract_signed_def)
qed

lemma read_port_decimal: "0 < p \<Longrightarrow> p \<le> 65535 \<Longrightarrow> read_port (decimal p) = Some (int p)"
  using extract_signed_decimal [of "[]" p 32] by (simp add: read_port_def)

lemma read_port_range: "read_port s = Some p \<Longrightarrow> 0 < p \<and> p \<le> 65535"
  by (auto simp: read_port_def split: option.splits if_splits)

text \<open>
  The port is read as a prefix of what follows the colon: anything after the digits is ignored.
\<close>

lemma port_garbage_ignored: "ParseHostPort ''dns.example:853abc'' 53 = Some (''dns.example'', 853)"
  by code_simp

definition plain_host :: "string \<Rightarrow> bool" where
  "plain_host h \<longleftrightarrow> h \<noteq> [] \<and> hd h \<noteq> CHR ''['' \<and> CHR '':'' \<notin> set h"

lemma colon_not_in_decimal [simp]: "CHR '':'' \<notin> set (decimal n)"
  using decimal_digits [of n] by (auto simp: isdigit_def)

lemma ParseHostPort_plain: "plain_host h \<Longrightarrow> ParseHostPort h d = Some (h, d)"
  by (simp add: ParseHostPort_def plain_host_def Let_def)

lemma ParseHostPort_port:
  assumes "plain_host h" "0 < p" "p \<le> 65535"
  shows "ParseHostPort (h @ '':'' @ decimal p) d = Some (h, int p)"
proof -
  have "takeWhile (\<lambda>c. c \<noteq> CHR '':'') (h @ CHR '':'' # decimal p) = h"
    using assms(1) by (intro takeWhile_append_stop) (auto simp: plain_host_def)
  moreover have "dropWhile (\<lambda>c. c \<noteq> CHR '':'') (h @ CHR '':'' # decimal p) = CHR '':'' # decimal p"
    using assms(1) by (intro dropWhile_append_stop) (auto simp: plain_host_def)
  ultimately show ?thesis
    using assms by (simp add: ParseHostPort_def plain_host_def read_port_decimal hd_append)
qed

lemma ParseHostPort_bracket:
  assumes "h \<noteq> []" "CHR '']'' \<notin> set h" "0 < p" "p \<le> 65535"
  shows "ParseHostPort (''['' @ h @ '']'') d = Some (h, d)"
    and "ParseHostPort (''['' @ h @ '']:'' @ decimal p) d = Some (h, int p)"
proof -
  have "takeWhile (\<lambda>c. c \<noteq> CHR '']'') (h @ CHR '']'' # t) = h"
    "dropWhile (\<lambda>c. c \<noteq> CHR '']'') (h @ CHR '']'' # t) = CHR '']'' # t" for t
    using assms(2) by (auto intro!: takeWhile_append_stop dropWhile_append_stop)
  then show "ParseHostPort (''['' @ h @ '']'') d = Some (h, d)"
    "ParseHostPort (''['' @ h @ '']:'' @ decimal p) d = Some (h, int p)"
    using assms by (simp_all add: ParseHostPort_def read_port_decimal)
qed

lemma ParseHostPort_range:
  assumes "ParseHostPort s d = Some (h, p)" "0 < d" "d \<le> 65535"
  shows "h \<noteq> [] \<and> 0 < p \<and> p \<le> 65535"
  using assms read_port_range
  by (auto simp: ParseHostPort_def Let_def split: if_splits option.splits)

text \<open>
  Server addresses. A host, a host with a port, a bracketed IPv6 address and a bracketed
  address with a port are each read back as written (with the default port where there is
  none), and whatever the input, an accepted address has a non-empty host and a port from 1 to
  65535.
\<close>

lemma server_address_roundtrip:
  assumes "plain_host h" "v6 \<noteq> []" "CHR '']'' \<notin> set v6" "0 < p" "p \<le> 65535"
    and "0 < d" "d \<le> 65535"
  shows "ParseHostPort h d = Some (h, d) \<and>
    ParseHostPort (h @ '':'' @ decimal p) d = Some (h, int p) \<and>
    ParseHostPort (''['' @ v6 @ '']'') d = Some (v6, d) \<and>
    ParseHostPort (''['' @ v6 @ '']:'' @ decimal p) d = Some (v6, int p) \<and>
    (case ParseHostPort s d of None \<Rightarrow> True | Some (g, q) \<Rightarrow> g \<noteq> [] \<and> 0 < q \<and> q \<le> 65535)"
  using ParseHostPort_plain [OF assms(1)] ParseHostPort_port [OF assms(1,4,5)]
    ParseHostPort_bracket [OF assms(2-5)] ParseHostPort_range [OF _ assms(6,7), of s]
  by (auto split: option.split)

subsection \<open>Nothing is leaked\<close>

definition resources :: "net \<Rightarrow> int \<times> int \<times> int" where
  "resources n = (open_socks n, open_tls n, open_cfgs n)"

lemma resources_simps [simp]:
  "resources (say n m) = resources n" "resources (n\<lparr>udp_sent := a\<rparr>) = resources n"
  "resources (n\<lparr>dot_sent := b\<rparr>) = resources n" "resources (n\<lparr>tls_inited := c\<rparr>) = resources n"
  "resources (n\<lparr>unverified := k\<rparr>) = resources n"
  by (simp_all add: resources_def say_def)

lemma resources_moves:
  "resources (open_sock n) = (fst (resources n) + 1, snd (resources n))"
  "resources (close_sock n) = (fst (resources n) - 1, snd (resources n))"
  "resources (new_tls n) = (fst (resources n), fst (snd (resources n)) + 1, snd (snd (resources n)))"
  "resources (free_tls n) = (fst (resources n), fst (snd (resources n)) - 1, snd (snd (resources n)))"
  "resources (new_cfg n) = (fst (resources n), fst (snd (resources n)), snd (snd (resources n)) + 1)"
  "resources (free_cfg n) = (fst (resources n), fst (snd (resources n)), snd (snd (resources n)) - 1)"
  by (simp_all add: resources_def open_sock_def close_sock_def new_tls_def free_tls_def
      new_cfg_def free_cfg_def)

lemma resources_balance [simp]:
  "resources (close_sock (open_sock n)) = resources n"
  by (simp add: resources_moves)

lemma TlsWriteAll_resources: "TlsWriteAll err n d k es = Some (b, es', n') \<Longrightarrow> resources n' = resources n"
  by (induction err n d k es rule: TlsWriteAll.induct) (auto split: if_splits write_result.splits)

lemma TlsReadAll_resources: "TlsReadAll err n len got es = Some (b, es', n') \<Longrightarrow> resources n' = resources n"
  by (induction err n len got es rule: TlsReadAll.induct) (auto split: if_splits read_result.splits)

lemma send_resources: "send e n q = Some (b, n') \<Longrightarrow> resources n' = resources n"
  by (auto simp: send_def split: option.splits bool.splits prod.splits dest!: TlsWriteAll_resources)

lemma receive_resources: "receive e n = Some (b, n') \<Longrightarrow> resources n' = resources n"
  by (auto simp: receive_def split: option.splits if_splits prod.splits dest!: TlsReadAll_resources)

lemma exchange_resources: "exchange e n q = Some (r, n') \<Longrightarrow> resources n' = resources n"
  by (auto simp: exchange_def split: option.splits bool.splits prod.splits if_splits
      dest!: send_resources receive_resources)

lemma connect_loop_resources:
  "connect_loop n cs = (ok, n') \<Longrightarrow> resources n' = (fst (resources n) + of_bool ok, snd (resources n))"
proof (induction n cs rule: connect_loop.induct)
  case (2 n c cs)
  show ?case
  proof (cases "c_socket c \<and> c_nonblock c")
    case True
    then show ?thesis
      using 2
      by (cases "c_connect c") (auto simp: Let_def resources_moves split: if_splits)
  next
    case False
    then show ?thesis using 2 by (auto simp: Let_def resources_moves split: if_splits)
  qed
qed simp

lemma ConnectTcp_resources:
  "ConnectTcp e n h p = (ok, n') \<Longrightarrow> resources n' = (fst (resources n) + of_bool ok, snd (resources n))"
  by (auto simp: ConnectTcp_def connect_loop_resources split: option.splits)

lemma tls_session_resources:
  assumes "tls_session e v n q = Some (r, n')"
  shows "resources n' = (fst (resources n) - 1, snd (resources n))"
proof -
  note m = resources_moves
  show ?thesis
    using assms exchange_resources
    by (auto simp: tls_session_def Let_def m split: if_splits option.splits)
qed

lemma ResolveDot_resources:
  assumes "ResolveDot e r n q out = Some (ok, out', n')"
  shows "resources n' = resources n"
  using assms ConnectTcp_resources tls_session_resources
  by (fastforce simp: ResolveDot_def Let_def split: if_splits option.splits prod.splits bool.splits)

lemma ResolveUdp_resources:
  assumes "ResolveUdp e r n q out = (ok, out', n')"
  shows "resources n' = resources n"
  using assms by (auto simp: ResolveUdp_def Let_def resources_moves split: if_splits option.splits)

text \<open>
  C26: No lookup leaks. Whatever the system and the TLS library return, on success and on every
  error path, a UDP lookup and a DNS-over-TLS lookup that return leave as many sockets, TLS
  contexts and TLS configurations open as there were before.
\<close>

theorem lookups_release_resources:
  "resources (snd (snd (ResolveUdp ue r n query out))) = resources n \<and>
   (case ResolveDot de r n query out of
      None \<Rightarrow> True
    | Some (ok, out', n') \<Rightarrow> resources n' = resources n)"
proof -
  obtain b o' n' where "ResolveUdp ue r n query out = (b, o', n')" by (metis prod_cases3)
  then show ?thesis
    using ResolveUdp_resources [of ue r n query out b o' n'] ResolveDot_resources [of de r n query out]
    by (simp split: option.split)
qed

subsection \<open>Framing\<close>

definition delivered :: "read_result list \<Rightarrow> bytes" where
  "delivered es = concat (map (\<lambda>e. case e of Got c \<Rightarrow> c | _ \<Rightarrow> []) es)"

lemma delivered_simps [simp]:
  "delivered [] = []" "delivered (Got c # es) = c @ delivered es"
  "delivered (Read_Want_In b # es) = delivered es" "delivered (Read_Want_Out b # es) = delivered es"
  "delivered (Read_Failed # es) = delivered es"
  by (simp_all add: delivered_def)

text \<open>The contract of \<open>tls_read\<close>: no call delivers more bytes than were asked for.\<close>

fun fits :: "nat \<Rightarrow> nat \<Rightarrow> read_result list \<Rightarrow> bool" where
  "fits len k [] = True"
| "fits len k (e # es) =
     (len \<le> k \<or> (case e of
        Got c \<Rightarrow> length c \<le> len - k \<and> fits len (k + length c) es
      | Read_Want_In b \<Rightarrow> fits len k es
      | Read_Want_Out b \<Rightarrow> fits len k es
      | Read_Failed \<Rightarrow> True))"

fun rest_after :: "nat \<Rightarrow> nat \<Rightarrow> read_result list \<Rightarrow> read_result list" where
  "rest_after len k [] = []"
| "rest_after len k (e # es) =
     (if len \<le> k then e # es
      else rest_after len (k + length (case e of Got c \<Rightarrow> c | _ \<Rightarrow> [])) es)"

definition reads_fit :: "read_result list \<Rightarrow> bool" where
  "reads_fit es \<longleftrightarrow> fits 2 0 es \<and> fits (be_length (take 2 (delivered es))) 0 (rest_after 2 0 es)"

lemma TlsReadAll_sound:
  "TlsReadAll err n len got es = Some (Some b, es', n') \<Longrightarrow> fits len (length got) es \<Longrightarrow> length got \<le> len \<Longrightarrow>
   length b = len \<and> got @ delivered es = b @ delivered es' \<and> es' = rest_after len (length got) es \<and>
   dot_sent n' = dot_sent n \<and> unverified n' = unverified n"
proof (induction err n len got es rule: TlsReadAll.induct)
  case (2 err n len got e es)
  show ?case
  proof (cases "len \<le> length got")
    case False
    then show ?thesis using 2 by (cases e) (auto split: if_splits)
  qed (use 2 in auto)
qed (auto split: if_splits)

definition good_read :: "read_result \<Rightarrow> bool" where
  "good_read e = (case e of Got c \<Rightarrow> c \<noteq> [] | Read_Want_In b \<Rightarrow> b | Read_Want_Out b \<Rightarrow> b | Read_Failed \<Rightarrow> False)"

lemma TlsReadAll_complete:
  "list_all good_read es \<Longrightarrow> len \<le> length got + length (delivered es) \<Longrightarrow>
   \<exists>b es'. TlsReadAll err n len got es = Some (Some b, es', n) \<and> list_all good_read es'"
proof (induction err n len got es rule: TlsReadAll.induct)
  case (2 err n len got e es)
  then show ?case by (cases e) (auto simp: good_read_def)
qed auto

definition good_write :: "write_result \<Rightarrow> bool" where
  "good_write e = (case e of Wrote k \<Rightarrow> 0 < k | Write_Want_In b \<Rightarrow> b | Write_Want_Out b \<Rightarrow> b | Write_Failed \<Rightarrow> False)"

text \<open>The number of bytes that a list of calls can take when each takes at least one.\<close>

definition taken :: "write_result list \<Rightarrow> nat" where
  "taken es = length (filter (\<lambda>e. case e of Wrote k \<Rightarrow> True | _ \<Rightarrow> False) es)"

lemma taken_simps [simp]:
  "taken [] = 0" "taken (Wrote k # es) = Suc (taken es)" "taken (Write_Want_In b # es) = taken es"
  "taken (Write_Want_Out b # es) = taken es" "taken (Write_Failed # es) = taken es"
  by (simp_all add: taken_def)

lemma TlsWriteAll_sound:
  "TlsWriteAll err n data off es = Some (True, es', n') \<Longrightarrow>
   dot_sent n' = dot_sent n @ drop off data \<and> unverified n' = unverified n"
proof (induction err n data off es rule: TlsWriteAll.induct)
  case (2 err n data off e es)
  have "take k (drop off data) @ drop (off + k) data = drop off data" for k
    by (metis append_take_drop_id drop_drop add.commute)
  then show ?case using 2 by (cases e) (auto split: if_splits)
qed (auto split: if_splits)

lemma TlsWriteAll_complete:
  "list_all good_write es \<Longrightarrow> length data - off + m \<le> taken es \<Longrightarrow>
   \<exists>es' n'. TlsWriteAll err n data off es = Some (True, es', n') \<and> list_all good_write es' \<and> m \<le> taken es'"
proof (induction err n data off es rule: TlsWriteAll.induct)
  case (2 err n data off e es)
  then show ?case by (cases e) (auto simp: good_write_def)
qed auto

definition frame :: "bytes \<Rightarrow> bytes" where
  "frame m = len_prefix (length m) @ m"

lemma length_len_prefix [simp]: "length (len_prefix k) = 2"
  by (simp add: len_prefix_def)

lemma be_length_prefix: "k < 2 ^ 16 \<Longrightarrow> be_length (len_prefix k @ t) = k"
proof -
  assume k: "k < 2 ^ 16"
  let ?w = "word_of_nat k :: u64"
  have high: "\<not> bit ?w j" if "16 \<le> j" for j
  proof -
    have "k < 2 ^ j" using k that by (meson less_le_trans one_le_numeral power_increasing)
    then have "\<not> bit k j" by (simp add: bit_iff_odd)
    then show ?thesis by (simp add: bit_of_nat_iff)
  qed
  have "push_bit 8 (ucast (ucast (drop_bit 8 ?w) :: byte) :: u64) OR ucast (ucast ?w :: byte) = ?w"
  proof (rule bit_word_eqI)
    fix j assume "j < LENGTH(64)"
    then show "bit (push_bit 8 (ucast (ucast (drop_bit 8 ?w) :: byte) :: u64) OR ucast (ucast ?w :: byte)) j = bit ?w j"
      using high [of j] by (cases "j < 8"; cases "j < 16") (auto simp: bit_simps)
  qed
  then show ?thesis using k by (simp add: be_length_def len_prefix_def unat_of_nat take_bit_nat_eq_self)
qed

lemma len_prefix_be_length:
  assumes "length lb = 2"
  shows "len_prefix (be_length lb) = lb"
proof -
  obtain x y where lb: "lb = [x, y]" using assms by (auto simp: numeral_2_eq_2 length_Suc_conv)
  let ?w = "push_bit 8 (ucast x :: u64) OR ucast y"
  have "ucast (drop_bit 8 ?w) = x" by (rule bit_word_eqI) (auto simp: bit_simps dest: bit_imp_le_length)
  moreover have "ucast ?w = y" by (rule bit_word_eqI) (auto simp: bit_simps)
  ultimately show ?thesis by (simp add: lb be_length_def len_prefix_def)
qed

lemma send_sound:
  "send e n q = Some (True, n') \<Longrightarrow> dot_sent n' = dot_sent n @ frame q \<and> unverified n' = unverified n"
  by (auto simp: send_def frame_def split: option.splits bool.splits dest!: TlsWriteAll_sound)

lemma receive_sound:
  assumes "receive e n = Some (Some resp, n')" "reads_fit (d_reads e)"
  shows "resp \<noteq> [] \<and> (\<exists>rest. delivered (d_reads e) = frame resp @ rest) \<and>
    dot_sent n' = dot_sent n \<and> unverified n' = unverified n"
proof -
  obtain lb rs n1 where r1: "TlsReadAll (d_tls_error e) n 2 [] (d_reads e) = Some (Some lb, rs, n1)"
    and nz: "be_length lb \<noteq> 0"
    and r2: "\<exists>rs'. TlsReadAll (d_tls_error e) n1 (be_length lb) [] rs = Some (Some resp, rs', n')"
    using assms(1) by (auto simp: receive_def split: option.splits if_splits)
  obtain rs' where r2: "TlsReadAll (d_tls_error e) n1 (be_length lb) [] rs = Some (Some resp, rs', n')"
    using r2 by blast
  have "fits 2 0 (d_reads e)" using assms(2) by (simp add: reads_fit_def)
  with TlsReadAll_sound [OF r1] have 1: "length lb = 2" "delivered (d_reads e) = lb @ delivered rs"
    "rs = rest_after 2 0 (d_reads e)" "dot_sent n1 = dot_sent n" "unverified n1 = unverified n"
    by simp_all
  then have "fits (be_length lb) 0 rs" using assms(2) by (simp add: reads_fit_def)
  with TlsReadAll_sound [OF r2] have "length resp = be_length lb" "delivered rs = resp @ delivered rs'"
    "dot_sent n' = dot_sent n1" "unverified n' = unverified n1"
    by simp_all
  then show ?thesis
    using 1 nz len_prefix_be_length [OF 1(1)] by (auto simp: frame_def)
qed

lemma exchange_sound:
  assumes "exchange e n q = Some (Some resp, n')" "reads_fit (d_reads e)"
  shows "length q < 2 ^ 16 \<and> dot_sent n' = dot_sent n @ frame q \<and> resp \<noteq> [] \<and>
    (\<exists>rest. delivered (d_reads e) = frame resp @ rest) \<and> unverified n' = unverified n"
  using assms(1)
  by (auto simp: exchange_def split: option.splits if_splits bool.splits
      dest!: send_sound receive_sound [OF _ assms(2)])

lemma exchange_complete:
  assumes "length q < 2 ^ 16" "list_all good_write (d_writes e)" "length q + 2 \<le> taken (d_writes e)"
    and "list_all good_read (d_reads e)" "reads_fit (d_reads e)"
    and "delivered (d_reads e) = frame resp @ rest" "resp \<noteq> []" "length resp < 2 ^ 16"
  shows "\<exists>n'. exchange e n q = Some (Some resp, n') \<and> dot_sent n' = dot_sent n @ frame q"
proof -
  let ?err = "d_tls_error e"
  obtain ws n1 where w1: "TlsWriteAll ?err n (len_prefix (length q)) 0 (d_writes e) = Some (True, ws, n1)"
    "list_all good_write ws" "length q \<le> taken ws"
    using TlsWriteAll_complete [OF assms(2), of "len_prefix (length q)" 0 "length q" ?err n] assms(3)
    by auto
  obtain ws' n2 where w2: "TlsWriteAll ?err n1 q 0 ws = Some (True, ws', n2)"
    using TlsWriteAll_complete [OF w1(2), of q 0 0 ?err n1] w1(3) by auto
  have snd: "send e n q = Some (True, n2)" using w1 w2 by (simp add: send_def)
  obtain lb rs where r1: "TlsReadAll ?err n2 2 [] (d_reads e) = Some (Some lb, rs, n2)"
    "list_all good_read rs"
    using TlsReadAll_complete [OF assms(4), of 2 "[]" ?err n2] assms(6) by (auto simp: frame_def)
  have f: "fits 2 0 (d_reads e)" using assms(5) by (simp add: reads_fit_def)
  have lb: "length lb = 2" "lb @ delivered rs = frame resp @ rest" "rs = rest_after 2 0 (d_reads e)"
    using TlsReadAll_sound [OF r1(1)] f assms(6) by simp_all
  then have "lb = len_prefix (length resp)" "delivered rs = resp @ rest"
    by (simp_all add: frame_def)
  then have len: "be_length lb = length resp" using be_length_prefix [of "length resp" "[]"] assms(8) by simp
  obtain b rs' where r2: "TlsReadAll ?err n2 (length resp) [] rs = Some (Some b, rs', n2)"
    using TlsReadAll_complete [OF r1(2), of "length resp" "[]" ?err n2] \<open>delivered rs = resp @ rest\<close> by auto
  have "take 2 (delivered (d_reads e)) = lb"
    using lb assms(6) by (metis append_eq_conv_conj)
  then have "fits (length resp) 0 rs" using assms(5) lb(3) len by (simp add: reads_fit_def)
  then have "length b = length resp" "b @ delivered rs' = resp @ rest"
    using TlsReadAll_sound [OF r2] \<open>delivered rs = resp @ rest\<close> by simp_all
  then have "b = resp" by simp
  then have "exchange e n q = Some (Some resp, n2)"
    using assms(1,7) snd r1 r2 len by (simp add: exchange_def receive_def)
  then show ?thesis using send_sound [OF snd] by auto
qed

text \<open>
  C5: DNS-over-TLS framing. When an exchange returns an answer, the query went out preceded by
  its two-byte length and the answer is the first non-empty message of the byte stream that
  the peer sent, framed in the same way, however the library cut the stream and wherever it had
  to wait. Conversely, if no call fails, the library takes the query and the peer sends a
  framed message, the exchange returns that message.
\<close>

theorem dot_framing:
  assumes "reads_fit (d_reads e)"
  shows "(case exchange e n q of
      Some (Some resp, n') \<Rightarrow>
        dot_sent n' = dot_sent n @ frame q \<and> resp \<noteq> [] \<and>
        (\<exists>rest. delivered (d_reads e) = frame resp @ rest)
    | _ \<Rightarrow> True) \<and>
    (length q < 2 ^ 16 \<and> list_all good_write (d_writes e) \<and> length q + 2 \<le> taken (d_writes e) \<and>
     list_all good_read (d_reads e) \<and> delivered (d_reads e) = frame resp @ rest \<and> resp \<noteq> [] \<and>
     length resp < 2 ^ 16 \<longrightarrow> (\<exists>n'. exchange e n q = Some (Some resp, n')))"
  using exchange_sound [OF _ assms, of n q] exchange_complete [OF _ _ _ _ assms, of q resp rest n]
  by (auto split: option.split)

definition sample_dot_env :: dot_env where
  "sample_dot_env = \<lparr>d_tls_init = True,
     d_getaddrinfo = (\<lambda>h p. Some [\<lparr>c_socket = True, c_nonblock = True, c_connect = Refused\<rparr>,
       \<lparr>c_socket = True, c_nonblock = True, c_connect = In_Progress True (Some 0)\<rparr>]),
     d_config_new = True, d_apple = False, d_is_dir = (\<lambda>p. True), d_path_exists = (\<lambda>p. True), d_set_ca = (\<lambda>p. True),
     d_tls_client = True, d_tls_configure = True, d_tls_connect = True, d_tls_error = [],
     d_writes = [Wrote 1, Write_Want_Out True, Wrote 1, Wrote 2, Wrote 1, Wrote 1],
     d_reads = [Read_Want_In True, Got [0], Got [3], Got [7], Read_Want_In True, Got [8, 9], Got [1]]\<rparr>"

lemma sample_env [simp]:
  "d_tls_init sample_dot_env" "d_config_new sample_dot_env" "d_tls_client sample_dot_env"
  "d_tls_configure sample_dot_env" "d_tls_connect sample_dot_env" "ConfigureTls sample_dot_env"
  "d_writes sample_dot_env = [Wrote 1, Write_Want_Out True, Wrote 1, Wrote 2, Wrote 1, Wrote 1]"
  "d_reads sample_dot_env =
     [Read_Want_In True, Got [0], Got [3], Got [7], Read_Want_In True, Got [8, 9], Got [1]]"
  "ConnectTcp sample_dot_env n h p = (True, open_sock (close_sock (open_sock n)))"
  by (simp_all add: sample_dot_env_def ConfigureTls_def ConnectTcp_def)

lemma sample_reads_fit: "reads_fit (d_reads sample_dot_env)"
  by (simp add: reads_fit_def be_length_def)

theorem dot_framing_witness:
  "\<exists>n'. exchange sample_dot_env initial_net [4, 5, 6] = Some (Some [7, 8, 9], n')"
  using dot_framing [OF sample_reads_fit, of initial_net "[4, 5, 6]" "[7, 8, 9]" "[1]"]
  by (simp add: good_read_def good_write_def frame_def len_prefix_def)

subsection \<open>Certificate verification\<close>

lemma exchange_unverified: "exchange e n q = Some (r, n') \<Longrightarrow> unverified n' = unverified n"
proof -
  have w: "unverified n' = unverified n" if "TlsWriteAll err n d k es = Some (b, es', n')" for err n d k es b es' n'
    using that by (induction err n d k es rule: TlsWriteAll.induct)
      (auto simp: say_def split: if_splits write_result.splits)
  have r: "unverified n' = unverified n" if "TlsReadAll err n len got es = Some (b, es', n')" for err n len got es b es' n'
    using that by (induction err n len got es rule: TlsReadAll.induct)
      (auto simp: say_def split: if_splits read_result.splits)
  have "unverified n' = unverified n" if "send e n q = Some (b, n')" for n q b n'
    using that by (auto simp: send_def split: option.splits bool.splits prod.splits dest!: w)
  moreover have "unverified n' = unverified n" if "receive e n = Some (b, n')" for n b n'
    using that by (auto simp: receive_def say_def split: option.splits if_splits prod.splits dest!: r)
  ultimately show "exchange e n q = Some (r, n') \<Longrightarrow> ?thesis"
    by (auto simp: exchange_def split: option.splits bool.splits if_splits)
qed

lemma unverified_simps [simp]:
  "unverified (say n m) = unverified n" "unverified (open_sock n) = unverified n"
  "unverified (close_sock n) = unverified n" "unverified (new_tls n) = unverified n"
  "unverified (free_tls n) = unverified n" "unverified (new_cfg n) = unverified n"
  "unverified (free_cfg n) = unverified n"
  by (simp_all add: say_def open_sock_def close_sock_def new_tls_def free_tls_def new_cfg_def free_cfg_def)

lemma tls_session_unverified:
  "tls_session e v n q = Some (r, n') \<Longrightarrow>
   unverified n' = unverified n + of_bool (d_config_new e \<and> (v \<longrightarrow> \<not> ConfigureTls e))"
  by (auto simp: tls_session_def Let_def split: if_splits option.splits dest!: exchange_unverified)

lemma connect_loop_unverified: "connect_loop n cs = (ok, n') \<Longrightarrow> unverified n' = unverified n"
  by (induction n cs rule: connect_loop.induct)
    (auto simp: Let_def split: if_splits connect_result.splits)

text \<open>
  C28: Verification is given up only when configured or when no certificates are found. If
  \<open>dot_verify\<close> is on and a certificate store can be configured, no DNS-over-TLS lookup turns
  certificate or name verification off. (With \<open>dot_verify\<close> on and no store, the code falls
  back to an unverified connection.)
\<close>

theorem verification_kept:
  assumes "dot_verify_on r" "ConfigureTls e" "ResolveDot e r n q out = Some (ok, out', n')"
  shows "unverified n' = unverified n"
proof -
  have c: "unverified m' = unverified m" if "ConnectTcp e m h p = (b, m')" for m h p b m'
    using that connect_loop_unverified by (auto simp: ConnectTcp_def split: option.splits)
  show ?thesis
    using assms
    by (auto simp: ResolveDot_def Let_def split: if_splits option.splits prod.splits bool.splits
        dest!: c tls_session_unverified)
qed

lemma sample_exchange: "\<exists>n'. exchange sample_dot_env n [4, 5, 6] = Some (Some [7, 8, 9], n')"
proof -
  have "list_all good_write (d_writes sample_dot_env)" "length [4, 5, 6 :: byte] + 2 \<le> taken (d_writes sample_dot_env)"
    "list_all good_read (d_reads sample_dot_env)" "delivered (d_reads sample_dot_env) = frame [7, 8, 9] @ [1]"
    by (simp_all add: good_read_def good_write_def frame_def len_prefix_def)
  from exchange_complete [OF _ this(1,2,3) sample_reads_fit this(4)] show ?thesis by auto
qed

lemma sample_session: "\<exists>n'. tls_session sample_dot_env True n [4, 5, 6] = Some (Some [7, 8, 9], n')"
  unfolding tls_session_def Let_def using sample_exchange [of "free_cfg (new_tls (new_cfg n))"]
  by auto

theorem verification_kept_witness:
  "\<exists>out' n'. ResolveDot sample_dot_env (SetDotServers new_resolver [''dns.example''])
     initial_net [4, 5, 6] ([], []) = Some (True, out', n') \<and> unverified n' = 0"
proof -
  let ?r = "SetDotServers new_resolver [''dns.example'']"
  have p: "ParseDotServer ''dns.example'' = Some (''dns.example'', ''dns.example'', 853)"
    by (simp add: ParseDotServer_def ParseHostPort_def)
  have r: "dot_servers ?r = [''dns.example'']" "dot_verify_on ?r"
    by (simp_all add: SetDotServers_def new_resolver_def)
  obtain m where "tls_session sample_dot_env True
      (open_sock (close_sock (open_sock (initial_net\<lparr>tls_inited := True\<rparr>)))) [4, 5, 6] = Some (Some [7, 8, 9], m)"
    using sample_session by blast
  then obtain out' where
    l: "ResolveDot sample_dot_env ?r initial_net [4, 5, 6] ([], []) = Some (True, out', m)"
    unfolding ResolveDot_def Let_def r by (simp add: r p)
  have "unverified m = unverified initial_net" by (rule verification_kept [OF r(2) _ l]) simp
  with l show ?thesis by (auto simp: initial_net_def)
qed

text \<open>Without a certificate store the lookup proceeds unverified, although verification is on.\<close>

lemma verification_falls_back:
  assumes "tls_session e True n q = Some (r, n')" "d_config_new e" "\<not> ConfigureTls e"
  shows "unverified n' = unverified n + 1"
  using tls_session_unverified [OF assms(1)] assms(2,3) by simp

end
