(* ===== verification/Log_Files.thy ===== *)
theory Log_Files
  imports Util "HOL-Library.Product_Lexorder"
begin

text \<open>
  The rotating log files that \<open>QueryLogger\<close> (\<open>src/query_logger.cpp\<close>) and
  \<open>ControllerLogger\<close> (\<open>src/controller_logger.cpp\<close>) write. Both classes have the same code but
  for the place where they report errors, which is the parameter \<open>report\<close> here: the process log
  for the query logger, standard error for the controller logger (both are in \<open>lw_log\<close>).

  Files are a map from paths to contents; an open log is a flag, since the code closes a log
  before it renames it. The record \<open>log_os\<close> says what the system calls of one operation return,
  the time, what \<open>gzip\<close> does, and in which order a directory is listed.
\<close>

subsection \<open>State and environment\<close>

record log_file =
  lf_name :: string
  lf_path :: string
  lf_open :: bool

record log_world =
  lw_files :: "string \<rightharpoonup> string"
  lw_dirs :: "string set"
  lw_log :: log_globals

record log_os =
  l_mkdir :: bool
  l_fopen :: "string \<Rightarrow> bool"
  l_fwrite :: "string \<Rightarrow> nat"
  l_fwrite_newline :: bool
  l_rename :: bool
  l_gzip :: bool
  l_gzip_text :: "string \<Rightarrow> string"
  l_readdir :: "(string \<rightharpoonup> string) \<Rightarrow> string \<Rightarrow> string list option"
  l_unlink :: "string \<Rightarrow> bool"
  l_time :: int
  l_localtime :: "string option"
  l_error :: string

type_synonym reporter = "string \<Rightarrow> log_world \<Rightarrow> log_world"

definition set_file :: "string \<Rightarrow> string option \<Rightarrow> log_world \<Rightarrow> log_world" where
  "set_file path c w = w\<lparr>lw_files := (lw_files w)(path := c)\<rparr>"

subsection \<open>The operations\<close>

definition EndsWith :: "string \<Rightarrow> string \<Rightarrow> bool" where
  "EndsWith value suffix =
     (if length value < length suffix then False
      else drop (length value - length suffix) value = suffix)"

definition EnsureDirectory :: "reporter \<Rightarrow> log_os \<Rightarrow> string \<Rightarrow> log_world \<Rightarrow> bool \<times> log_world" where
  "EnsureDirectory report os dir w =
     (if dir \<in> lw_dirs w then (True, w)
      else if l_mkdir os then (True, w\<lparr>lw_dirs := insert dir (lw_dirs w)\<rparr>)
      else if dir \<in> lw_dirs w then (True, w)
      else (False, report (''Failed to create log dir '' @ dir @ '': '' @ l_error os) w))"

definition EnsureOpen ::
    "reporter \<Rightarrow> log_os \<Rightarrow> bool \<Rightarrow> log_file \<Rightarrow> log_world \<Rightarrow> bool \<times> log_file \<times> log_world" where
  "EnsureOpen report os enabled log w =
     (if \<not> enabled then (False, log, w)
      else if lf_open log then (True, log, w)
      else if \<not> l_fopen os (lf_path log) then
        (False, log, report (''Failed to open log file '' @ lf_path log @ '': '' @ l_error os) w)
      else (True, log\<lparr>lf_open := True\<rparr>,
            if lf_path log \<in> dom (lw_files w) then w else set_file (lf_path log) (Some []) w))"

definition signed_decimal :: "int \<Rightarrow> string" where
  "signed_decimal n = (if n < 0 then ''-'' @ decimal (nat (- n)) else decimal (nat n))"

fun unique_loop ::
    "(string \<rightharpoonup> string) \<Rightarrow> string \<Rightarrow> int \<Rightarrow> string \<Rightarrow> nat \<Rightarrow> nat \<Rightarrow> string \<Rightarrow> string" where
  "unique_loop fs dir now base i 0 candidate = candidate"
| "unique_loop fs dir now base i (Suc k) candidate =
     (let candidate = dir @ ''/'' @ signed_decimal now @ ''_'' @ decimal i @ ''_'' @ base in
      if candidate \<notin> dom fs then candidate
      else unique_loop fs dir now base (i + 1) k candidate)"

definition UniqueRotatedName :: "log_os \<Rightarrow> (string \<rightharpoonup> string) \<Rightarrow> string \<Rightarrow> string \<Rightarrow> string" where
  "UniqueRotatedName os fs dir base =
     (let candidate = dir @ ''/'' @ signed_decimal (l_time os) @ ''_'' @ base in
      if candidate \<notin> dom fs then candidate
      else unique_loop fs dir (l_time os) base 1 999 candidate)"

text \<open>
  \<open>gzip -f path\<close>: on success the compressed file replaces the file, whatever was there under
  the compressed name before.
\<close>

definition CompressFile :: "log_os \<Rightarrow> string \<Rightarrow> log_world \<Rightarrow> bool \<times> log_world" where
  "CompressFile os path w =
     (if \<not> l_gzip os then (False, w)
      else case lw_files w path of
        None \<Rightarrow> (False, w)
      | Some text \<Rightarrow>
          (True, set_file path None (set_file (path @ ''.gz'') (Some (l_gzip_text os text)) w)))"

text \<open>\<open>iss >> ts\<close> for a \<open>long long\<close> that starts at 0; out of range it is clamped.\<close>

definition read_timestamp :: "string \<Rightarrow> int" where
  "read_timestamp s =
     (let (neg, u) = read_sign (dropWhile isspace s);
          ds = takeWhile isdigit u;
          n = int (decimal_value ds)
      in if ds = [] then 0
         else if neg then max (- (2 ^ 63)) (- n) else min (2 ^ 63 - 1) n)"

definition archive_entry :: "string \<Rightarrow> string \<Rightarrow> (int \<times> string) option" where
  "archive_entry suffix name =
     (if \<not> EndsWith name suffix then None
      else if CHR ''_'' \<notin> set name then None
      else let ts = read_timestamp (takeWhile (\<lambda>c. c \<noteq> CHR ''_'') name) in
        if ts \<le> 0 then None else Some (ts, name))"

fun unlink_loop :: "log_os \<Rightarrow> string \<Rightarrow> (int \<times> string) list \<Rightarrow> log_world \<Rightarrow> log_world" where
  "unlink_loop os dir [] w = w"
| "unlink_loop os dir (e # es) w =
     (let path = dir @ ''/'' @ snd e in
      unlink_loop os dir es (if l_unlink os path then set_file path None w else w))"

definition CleanupOld :: "log_os \<Rightarrow> string \<Rightarrow> string \<Rightarrow> log_world \<Rightarrow> log_world" where
  "CleanupOld os dir suffix w =
     (case l_readdir os (lw_files w) dir of
        None \<Rightarrow> w
      | Some names \<Rightarrow>
          let entries = List.map_filter (archive_entry suffix) names in
          if length entries \<le> 10 then w
          else unlink_loop os dir (take (length entries - 10) (sort entries)) w)"

definition RotateIfNeeded ::
    "reporter \<Rightarrow> log_os \<Rightarrow> bool \<Rightarrow> u64 \<Rightarrow> string \<Rightarrow> log_file \<Rightarrow> log_world \<Rightarrow> bool \<times> log_file \<times> log_world" where
  "RotateIfNeeded report os enabled max_bytes dir log w =
     (if \<not> enabled then (False, log, w)
      else case lw_files w (lf_path log) of
        None \<Rightarrow> (False, log, w)
      | Some text \<Rightarrow>
          if (word_of_nat (length text) :: u64) < max_bytes then (False, log, w)
          else
            let log = (if lf_open log then log\<lparr>lf_open := False\<rparr> else log);
                rotated = UniqueRotatedName os (lw_files w) dir (lf_name log) in
            if \<not> l_rename os then
              (False, log, report (''Failed to rotate log file '' @ lf_path log @ '': '' @ l_error os) w)
            else
              let w = set_file (lf_path log) None (set_file rotated (Some text) w) in
              (case CompressFile os rotated w of (ok, w) \<Rightarrow>
                 let w = (if \<not> ok then report (''Failed to compress log file '' @ rotated) w else w);
                     w = CleanupOld os dir (''_'' @ lf_name log @ ''.gz'') w
                 in (True, log, w)))"

definition append_file :: "string \<Rightarrow> string \<Rightarrow> log_world \<Rightarrow> log_world" where
  "append_file path s w =
     set_file path (Some ((case lw_files w path of None \<Rightarrow> [] | Some t \<Rightarrow> t) @ s)) w"

definition WriteLine ::
    "reporter \<Rightarrow> log_os \<Rightarrow> bool \<Rightarrow> u64 \<Rightarrow> string \<Rightarrow> log_file \<Rightarrow> log_world \<Rightarrow> string \<Rightarrow>
     bool \<times> log_file \<times> log_world" where
  "WriteLine report os enabled max_bytes dir log w line =
     (case EnsureOpen report os enabled log w of (ok, log, w) \<Rightarrow>
      if \<not> ok then (False, log, w)
      else case RotateIfNeeded report os enabled max_bytes dir log w of (rotated, log, w) \<Rightarrow>
        case EnsureOpen report os enabled log w of (ok, log, w) \<Rightarrow>
          if \<not> ok then (False, log, w)
          else
            let written = min (l_fwrite os line) (length line);
                w = append_file (lf_path log) (take written line) w in
            if written \<noteq> length line then (False, log, w)
            else if \<not> l_fwrite_newline os then (False, log, w)
            else (True, log, append_file (lf_path log) [newline] w))"

definition NowString :: "log_os \<Rightarrow> string" where
  "NowString os = (case l_localtime os of None \<Rightarrow> ''1970-01-01T00:00:00'' | Some s \<Rightarrow> s)"

subsection \<open>Facts\<close>

lemma files_set_file [simp]: "lw_files (set_file p c w) = (lw_files w)(p := c)"
  by (simp add: set_file_def)

lemma EndsWith_iff: "EndsWith v s \<longleftrightarrow> (\<exists>p. v = p @ s)"
proof
  assume "EndsWith v s"
  then have "v = take (length v - length s) v @ s"
    unfolding EndsWith_def by (metis append_take_drop_id)
  then show "\<exists>p. v = p @ s" by blast
qed (auto simp: EndsWith_def)

text \<open>A report writes to the log or to standard error only.\<close>

definition quiet :: "reporter \<Rightarrow> bool" where
  "quiet report \<longleftrightarrow> (\<forall>m w. lw_files (report m w) = lw_files w \<and> lw_dirs (report m w) = lw_dirs w)"

lemma quiet_files [simp]: "quiet report \<Longrightarrow> lw_files (report m w) = lw_files w"
  by (simp add: quiet_def)

lemma unlink_loop_files:
  "lw_files (unlink_loop os dir es w) p =
     (if \<exists>e\<in>set es. p = dir @ ''/'' @ snd e \<and> l_unlink os p then None else lw_files w p)"
  by (induction os dir es w rule: unlink_loop.induct) (auto simp: Let_def)

lemma archive_entry_name: "archive_entry suffix n = Some e \<Longrightarrow> snd e = n \<and> EndsWith n suffix \<and> 0 < fst e"
  by (auto simp: archive_entry_def Let_def split: if_splits)

lemma map_filter_entries:
  "e \<in> set (List.map_filter (archive_entry suffix) names) \<Longrightarrow>
   snd e \<in> set names \<and> EndsWith (snd e) suffix \<and> 0 < fst e"
  by (induction names)
    (auto simp: List.map_filter_simps dest: archive_entry_name split: option.splits)

lemma distinct_entries:
  "distinct names \<Longrightarrow> distinct (map snd (List.map_filter (archive_entry suffix) names))"
proof (induction names)
  case (Cons n ns)
  then show ?case
    using map_filter_entries [of _ suffix ns]
    by (auto simp: List.map_filter_simps dest: archive_entry_name split: option.split)
qed (simp add: List.map_filter_simps)

lemma CleanupOld_only_archives:
  "(\<forall>n. p = dir @ ''/'' @ n \<longrightarrow> \<not> EndsWith n suffix) \<Longrightarrow>
   lw_files (CleanupOld os dir suffix w) p = lw_files w p"
  by (auto simp: CleanupOld_def Let_def unlink_loop_files split: option.split
      dest!: in_set_takeD map_filter_entries)

lemma CleanupOld_cases:
  assumes "l_readdir os (lw_files w) dir = Some names" "distinct names" "\<And>p. l_unlink os p"
    and "es = List.map_filter (archive_entry suffix) names"
  obtains removed kept where "sort es = removed @ kept" "length kept = min 10 (length es)"
    "\<And>e. e \<in> set removed \<Longrightarrow> lw_files (CleanupOld os dir suffix w) (dir @ ''/'' @ snd e) = None"
    "\<And>p. p \<notin> (\<lambda>e. dir @ ''/'' @ snd e) ` set removed \<Longrightarrow>
       lw_files (CleanupOld os dir suffix w) p = lw_files w p"
    "\<And>r k. r \<in> set removed \<Longrightarrow> k \<in> set kept \<Longrightarrow> r \<le> k \<and> snd r \<noteq> snd k"
proof
  let ?k = "length es - 10"
  let ?removed = "take ?k (sort es)" and ?kept = "drop ?k (sort es)"
  show "sort es = ?removed @ ?kept" by simp
  show "length ?kept = min 10 (length es)" by simp
  have c: "CleanupOld os dir suffix w = unlink_loop os dir ?removed w"
    using assms(1) by (simp add: CleanupOld_def assms(4) Let_def)
  show "lw_files (CleanupOld os dir suffix w) (dir @ ''/'' @ snd e) = None" if "e \<in> set ?removed" for e
    using that assms(3) by (auto simp: c unlink_loop_files)
  show "lw_files (CleanupOld os dir suffix w) p = lw_files w p"
    if "p \<notin> (\<lambda>e. dir @ ''/'' @ snd e) ` set ?removed" for p
    using that by (auto simp: c unlink_loop_files)
  show "r \<le> k \<and> snd r \<noteq> snd k" if "r \<in> set ?removed" "k \<in> set ?kept" for r k
  proof
    have s: "sorted (?removed @ ?kept)" by (simp only: append_take_drop_id sorted_sort)
    then show "r \<le> k" using that unfolding sorted_append by blast
    have "distinct (map snd (sort es))"
      using distinct_entries [OF assms(2)] by (simp add: assms(4) distinct_map)
    then have "distinct (map snd (?removed @ ?kept))" by (simp only: append_take_drop_id)
    then have "set (map snd ?removed) \<inter> set (map snd ?kept) = {}"
      by (simp only: map_append distinct_append)
    then have "snd ` set ?removed \<inter> snd ` set ?kept = {}" by (simp only: set_map)
    then show "snd r \<noteq> snd k" using that by (simp only: disjoint_iff) (metis image_eqI)
  qed
qed

subsection \<open>Writing a line\<close>

text \<open>The system calls on the active log succeed; compression and cleanup may still fail.\<close>

definition writable :: "log_os \<Rightarrow> bool" where
  "writable os \<longleftrightarrow> (\<forall>p. l_fopen os p) \<and> (\<forall>l. length l \<le> l_fwrite os l) \<and> l_fwrite_newline os \<and> l_rename os"

definition file_text_of :: "log_world \<Rightarrow> string \<Rightarrow> string" where
  "file_text_of w p = (case lw_files w p of None \<Rightarrow> [] | Some t \<Rightarrow> t)"

definition full :: "u64 \<Rightarrow> string \<Rightarrow> bool" where
  "full max_bytes text \<longleftrightarrow> max_bytes \<le> word_of_nat (length text)"

lemma EnsureOpen_ok:
  assumes "writable os"
  shows "\<exists>w'. EnsureOpen report os True log w = (True, log\<lparr>lf_open := True\<rparr>, w') \<and>
    (lf_open log \<or> lf_path log \<in> dom (lw_files w')) \<and>
    file_text_of w' (lf_path log) = file_text_of w (lf_path log) \<and>
    (lf_path log \<in> dom (lw_files w) \<longrightarrow> w' = w)"
  using assms by (auto simp: EnsureOpen_def writable_def file_text_of_def)

text \<open>The paths of archives are those of other names in the directory.\<close>

lemma unique_loop_form:
  "unique_loop fs dir now base i k c = c \<or>
   (\<exists>j. unique_loop fs dir now base i k c = dir @ ''/'' @ signed_decimal now @ ''_'' @ decimal j @ ''_'' @ base)"
  by (induction fs dir now base i k c rule: unique_loop.induct) (auto simp: Let_def)

lemma UniqueRotatedName_form:
  "\<exists>pre. UniqueRotatedName os fs dir base = dir @ ''/'' @ pre @ base \<and> pre \<noteq> []"
proof -
  let ?c = "dir @ ''/'' @ signed_decimal (l_time os) @ ''_'' @ base"
  consider "UniqueRotatedName os fs dir base = ?c"
    | j where "UniqueRotatedName os fs dir base =
        dir @ ''/'' @ signed_decimal (l_time os) @ ''_'' @ decimal j @ ''_'' @ base"
    using unique_loop_form [of fs dir "l_time os" base 1 999 ?c]
    unfolding UniqueRotatedName_def Let_def by presburger
  then show ?thesis
  proof cases
    case 1
    then show ?thesis by (intro exI [of _ "signed_decimal (l_time os) @ ''_''"]) simp
  next
    case 2
    then show ?thesis by (intro exI [of _ "signed_decimal (l_time os) @ ''_'' @ decimal j @ ''_''"]) simp
  qed
qed

lemma rotated_not_active: "UniqueRotatedName os fs dir base \<noteq> dir @ ''/'' @ base"
  "UniqueRotatedName os fs dir base @ ''.gz'' \<noteq> dir @ ''/'' @ base"
proof -
  obtain pre where u: "UniqueRotatedName os fs dir base = dir @ ''/'' @ pre @ base" "pre \<noteq> []"
    using UniqueRotatedName_form by blast
  have "length (dir @ ''/'' @ pre @ base) \<noteq> length (dir @ ''/'' @ base)"
    "length ((dir @ ''/'' @ pre @ base) @ ''.gz'') \<noteq> length (dir @ ''/'' @ base)"
    using u(2) by simp_all
  then show "UniqueRotatedName os fs dir base \<noteq> dir @ ''/'' @ base"
    "UniqueRotatedName os fs dir base @ ''.gz'' \<noteq> dir @ ''/'' @ base"
    unfolding u(1) by metis+
qed

text \<open>The suffix of the archives of a log never matches the log itself.\<close>

lemma active_not_archive: "\<not> EndsWith name (''_'' @ name @ ''.gz'')"
proof
  assume "EndsWith name (''_'' @ name @ ''.gz'')"
  then obtain p where "name = p @ ''_'' @ name @ ''.gz''" by (auto simp: EndsWith_iff)
  then have "length name = length (p @ ''_'' @ name @ ''.gz'')" by metis
  then show False by simp
qed

lemma cleanup_keeps_active:
  "lw_files (CleanupOld os dir (''_'' @ name @ ''.gz'') w) (dir @ ''/'' @ name) = lw_files w (dir @ ''/'' @ name)"
  by (rule CleanupOld_only_archives) (use active_not_archive in auto)

lemma CompressFile_frame:
  "CompressFile os path w = (ok, w') \<Longrightarrow> p \<noteq> path \<Longrightarrow> p \<noteq> path @ ''.gz'' \<Longrightarrow> lw_files w' p = lw_files w p"
  by (auto simp: CompressFile_def split: if_splits option.splits)

lemma RotateIfNeeded_ok:
  assumes "writable os" "quiet report" "lf_path log = dir @ ''/'' @ lf_name log"
    and "RotateIfNeeded report os True max_bytes dir log w = (rotated, log', w')"
  shows "(if rotated
      then full max_bytes (file_text_of w (lf_path log)) \<and> lw_files w' (lf_path log) = None \<and>
        log' = log\<lparr>lf_open := False\<rparr>
      else log' = log \<and> w' = w \<and>
        (lf_path log \<in> dom (lw_files w) \<longrightarrow> \<not> full max_bytes (file_text_of w (lf_path log))))"
proof (cases "lw_files w (lf_path log)")
  case None
  then show ?thesis using assms(4) by (simp add: RotateIfNeeded_def domIff)
next
  case (Some old)
  show ?thesis
  proof (cases "full max_bytes old")
    case True
    let ?r = "UniqueRotatedName os (lw_files w) dir (lf_name log)"
    let ?w1 = "set_file (lf_path log) None (set_file ?r (Some old) w)"
    obtain ok w2 where c: "CompressFile os ?r ?w1 = (ok, w2)" by fastforce
    have "lw_files w2 (lf_path log) = None"
      using CompressFile_frame [OF c, of "lf_path log"] rotated_not_active [of os "lw_files w" dir "lf_name log"]
      by (auto simp: assms(3))
    then show ?thesis
      using assms True Some c cleanup_keeps_active [of os dir "lf_name log"]
      by (auto simp: RotateIfNeeded_def full_def file_text_of_def writable_def Let_def split: if_splits)
  next
    case False
    then show ?thesis
      using assms(4) Some by (auto simp: RotateIfNeeded_def full_def file_text_of_def not_le)
  qed
qed

lemma WriteLine_ok:
  assumes "writable os" "quiet report" "lf_path log = dir @ ''/'' @ lf_name log"
    and "lf_open log \<longrightarrow> lf_path log \<in> dom (lw_files w)"
  obtains log' w' where "WriteLine report os True max_bytes dir log w line = (True, log', w')"
    "lf_open log'" "lf_name log' = lf_name log" "lf_path log' = lf_path log"
    "lw_files w' (lf_path log) =
       Some ((if full max_bytes (file_text_of w (lf_path log)) then [] else file_text_of w (lf_path log)) @
             line @ [newline])"
proof -
  let ?path = "lf_path log"
  obtain w1 where o1: "EnsureOpen report os True log w = (True, log\<lparr>lf_open := True\<rparr>, w1)"
    and in1: "lf_open log \<or> ?path \<in> dom (lw_files w1)"
    and t1: "file_text_of w1 ?path = file_text_of w ?path"
    and f1: "?path \<in> dom (lw_files w) \<longrightarrow> w1 = w"
    using EnsureOpen_ok [OF assms(1), of report log w] by blast
  have d1: "?path \<in> dom (lw_files w1)" using in1 f1 assms(4) by auto
  obtain rotated log2 w2 where
    r: "RotateIfNeeded report os True max_bytes dir (log\<lparr>lf_open := True\<rparr>) w1 = (rotated, log2, w2)"
    by (metis prod_cases3)
  have "lf_path (log\<lparr>lf_open := True\<rparr>) = dir @ ''/'' @ lf_name (log\<lparr>lf_open := True\<rparr>)"
    using assms(3) by simp
  note rot = RotateIfNeeded_ok [OF assms(1,2) this r]
  have l2: "lf_name log2 = lf_name log" "lf_path log2 = ?path" using rot by (auto split: if_splits)
  obtain w3 where o3: "EnsureOpen report os True log2 w2 = (True, log2\<lparr>lf_open := True\<rparr>, w3)"
    and t3: "file_text_of w3 ?path = file_text_of w2 ?path"
    using EnsureOpen_ok [OF assms(1), of report log2 w2] unfolding l2 by blast
  have "file_text_of w2 ?path =
      (if full max_bytes (file_text_of w ?path) then [] else file_text_of w ?path)"
    using rot t1 d1 by (auto simp: file_text_of_def split: if_splits)
  with t3 have cont: "(case lw_files w3 ?path of None \<Rightarrow> [] | Some t \<Rightarrow> t) =
      (if full max_bytes (file_text_of w ?path) then [] else file_text_of w ?path)"
    by (simp add: file_text_of_def)
  show ?thesis
  proof (rule that)
    show "WriteLine report os True max_bytes dir log w line =
        (True, log2\<lparr>lf_open := True\<rparr>, append_file ?path [newline] (append_file ?path line w3))"
      using assms(1) by (simp add: WriteLine_def o1 r o3 l2 writable_def min_absorb2 Let_def)
  qed (simp_all add: l2 append_file_def cont)
qed

subsection \<open>Archives\<close>

text \<open>
  The names that rotation gives: the time stamp, a number if that name was taken, the name of the
  log, and the suffix that \<open>gzip\<close> adds.
\<close>

definition archive_name :: "string \<Rightarrow> nat \<Rightarrow> nat option \<Rightarrow> string" where
  "archive_name base t i =
     decimal t @ (case i of None \<Rightarrow> [] | Some i \<Rightarrow> ''_'' @ decimal i) @ ''_'' @ base @ ''.gz''"

lemma rotated_archive_name:
  assumes "0 \<le> l_time os"
  shows "\<exists>i. UniqueRotatedName os fs dir base @ ''.gz'' = dir @ ''/'' @ archive_name base (nat (l_time os)) i"
proof -
  let ?c = "dir @ ''/'' @ signed_decimal (l_time os) @ ''_'' @ base"
  have "signed_decimal (l_time os) = decimal (nat (l_time os))" using assms by (simp add: signed_decimal_def)
  then have 1: "?c @ ''.gz'' = dir @ ''/'' @ archive_name base (nat (l_time os)) None"
    and 2: "(dir @ ''/'' @ signed_decimal (l_time os) @ ''_'' @ decimal j @ ''_'' @ base) @ ''.gz'' =
      dir @ ''/'' @ archive_name base (nat (l_time os)) (Some j)" for j
    by (simp_all add: archive_name_def)
  have "UniqueRotatedName os fs dir base = ?c \<or>
      (\<exists>j. UniqueRotatedName os fs dir base = dir @ ''/'' @ signed_decimal (l_time os) @ ''_'' @ decimal j @ ''_'' @ base)"
    using unique_loop_form [of fs dir "l_time os" base 1 999 ?c]
    unfolding UniqueRotatedName_def Let_def by presburger
  with 1 2 show ?thesis by metis
qed

lemma takeWhile_archive_name: "takeWhile (\<lambda>c. c \<noteq> CHR ''_'') (archive_name base t i) = decimal t"
proof -
  have "c \<noteq> CHR ''_''" if "c \<in> set (decimal t)" for c
    using decimal_digits [of t] that by (auto simp: isdigit_def)
  then show ?thesis by (auto simp: archive_name_def intro!: takeWhile_append_stop split: option.split)
qed

lemma archive_name_time: "archive_name base t i = archive_name base u j \<Longrightarrow> t = u"
  by (metis takeWhile_archive_name decimal_inject)

lemma read_timestamp_decimal: "t < 2 ^ 63 \<Longrightarrow> read_timestamp (decimal t) = int t"
  using read_decimal [of "[]" t]
  by (simp add: read_timestamp_def takeWhile_all [OF decimal_digits])

lemma archive_name_suffix: "\<exists>p. archive_name base t i = p @ ''_'' @ base @ ''.gz''"
  unfolding archive_name_def
  by (intro exI [of _ "decimal t @ (case i of None \<Rightarrow> [] | Some i \<Rightarrow> ''_'' @ decimal i)"]) simp

lemma archive_entry_archive_name:
  assumes "0 < t" "t < 2 ^ 63"
  shows "archive_entry (''_'' @ base @ ''.gz'') (archive_name base t i) = Some (int t, archive_name base t i)"
proof -
  have "CHR ''_'' \<in> set (archive_name base t i)" by (simp add: archive_name_def)
  moreover have "EndsWith (archive_name base t i) (''_'' @ base @ ''.gz'')"
    unfolding EndsWith_iff by (rule archive_name_suffix)
  ultimately show ?thesis
    using assms by (simp add: archive_entry_def takeWhile_archive_name read_timestamp_decimal)
qed

text \<open>The files of a log: the active one, rotated ones, and archives.\<close>

definition belongs :: "string \<Rightarrow> string \<Rightarrow> string \<Rightarrow> bool" where
  "belongs dir base p \<longleftrightarrow> p = dir @ ''/'' @ base \<or>
     (\<exists>pre. p = dir @ ''/'' @ pre @ ''_'' @ base \<or> p = dir @ ''/'' @ pre @ ''_'' @ base @ ''.gz'')"

subsection \<open>What a write leaves alone\<close>

text \<open>A path that is neither the log nor one of its archives, whatever the system calls do.\<close>

definition foreign :: "string \<Rightarrow> string \<Rightarrow> bool" where
  "foreign name p \<longleftrightarrow> \<not> EndsWith p name \<and> \<not> EndsWith p (name @ ''.gz'')"

lemma EndsWith_append: "EndsWith (p @ s) s"
  by (auto simp: EndsWith_iff)

lemma EnsureOpen_frame:
  "quiet report \<Longrightarrow> EnsureOpen report os en log w = (ok, log', w') \<Longrightarrow>
   lf_path log' = lf_path log \<and> lf_name log' = lf_name log \<and>
   (\<forall>p. p \<noteq> lf_path log \<longrightarrow> lw_files w' p = lw_files w p)"
  by (auto simp: EnsureOpen_def split: if_splits)

lemma RotateIfNeeded_frame:
  assumes "quiet report" "RotateIfNeeded report os en max_bytes dir log w = (r, log', w')"
    and "foreign (lf_name log) p" "p \<noteq> lf_path log"
  shows "lf_path log' = lf_path log \<and> lf_name log' = lf_name log \<and> lw_files w' p = lw_files w p"
proof -
  let ?u = "UniqueRotatedName os (lw_files w) dir (lf_name log)"
  obtain pre where "?u = dir @ ''/'' @ pre @ lf_name log" using UniqueRotatedName_form by metis
  then have "EndsWith ?u (lf_name log)" "EndsWith (?u @ ''.gz'') (lf_name log @ ''.gz'')"
    by (auto simp: EndsWith_iff)
  then have u: "p \<noteq> ?u" "p \<noteq> ?u @ ''.gz''" using assms(3) by (auto simp: foreign_def)
  have clean: "lw_files (CleanupOld os dir (''_'' @ lf_name log @ ''.gz'') v) p = lw_files v p" for v
  proof (rule CleanupOld_only_archives, intro allI impI notI)
    fix n assume "p = dir @ ''/'' @ n" "EndsWith n (''_'' @ lf_name log @ ''.gz'')"
    then have "EndsWith p (lf_name log @ ''.gz'')" by (force simp: EndsWith_iff)
    then show False using assms(3) by (simp add: foreign_def)
  qed
  show ?thesis
    using assms(1,2,4) u clean CompressFile_frame [where p = p]
    by (auto simp: RotateIfNeeded_def Let_def split: if_splits option.splits prod.splits)
qed

lemma WriteLine_frame:
  assumes "quiet report" "WriteLine report os en max_bytes dir log w line = (ok, log', w')"
    and "foreign (lf_name log) p" "p \<noteq> lf_path log"
  shows "lf_path log' = lf_path log \<and> lf_name log' = lf_name log \<and> lw_files w' p = lw_files w p"
proof -
  obtain ok1 log1 w1 where 1: "EnsureOpen report os en log w = (ok1, log1, w1)" by (metis prod_cases3)
  obtain r log2 w2 where 2: "RotateIfNeeded report os en max_bytes dir log1 w1 = (r, log2, w2)"
    by (metis prod_cases3)
  obtain ok3 log3 w3 where 3: "EnsureOpen report os en log2 w2 = (ok3, log3, w3)" by (metis prod_cases3)
  note f1 = EnsureOpen_frame [OF assms(1) 1]
  have f2: "lf_path log2 = lf_path log1 \<and> lf_name log2 = lf_name log1 \<and> lw_files w2 p = lw_files w1 p"
    using RotateIfNeeded_frame [OF assms(1) 2, of p] assms(3,4) f1 by simp
  note f3 = EnsureOpen_frame [OF assms(1) 3]
  show ?thesis
    using assms(2,4) f1 f2 f3
    by (auto simp: WriteLine_def 1 2 3 append_file_def Let_def split: if_splits)
qed

subsection \<open>A log that is ready\<close>

definition log_ready :: "string \<Rightarrow> log_file \<Rightarrow> log_world \<Rightarrow> bool" where
  "log_ready dir log w \<longleftrightarrow>
     lf_path log = dir @ ''/'' @ lf_name log \<and> (lf_open log \<longrightarrow> lf_path log \<in> dom (lw_files w)) \<and>
     length (file_text_of w (lf_path log)) < 2 ^ 64"

definition line_fits :: "u64 \<Rightarrow> log_os \<Rightarrow> string \<Rightarrow> bool" where
  "line_fits max_bytes os line \<longleftrightarrow> writable os \<and> unat max_bytes + length line + 1 < 2 ^ 64"

lemma full_iff: "length s < 2 ^ 64 \<Longrightarrow> full m s \<longleftrightarrow> unat m \<le> length s"
  by (simp add: full_def word_le_nat_alt unat_of_nat take_bit_nat_eq_self)

lemma WriteLine_ready:
  assumes "quiet report" "log_ready dir log w" "line_fits max_bytes os line"
  shows "\<exists>log' w'. WriteLine report os True max_bytes dir log w line = (True, log', w') \<and>
    log_ready dir log' w' \<and> lf_name log' = lf_name log \<and> lf_path log' = lf_path log \<and>
    file_text_of w' (lf_path log) =
      (if unat max_bytes \<le> length (file_text_of w (lf_path log)) then []
       else file_text_of w (lf_path log)) @ line @ [newline]"
proof -
  have l: "writable os" "lf_path log = dir @ ''/'' @ lf_name log"
    "lf_open log \<longrightarrow> lf_path log \<in> dom (lw_files w)" "length (file_text_of w (lf_path log)) < 2 ^ 64"
    "unat max_bytes + length line + 1 < 2 ^ 64"
    using assms by (auto simp: log_ready_def line_fits_def)
  obtain log' w' where
    "WriteLine report os True max_bytes dir log w line = (True, log', w')"
    "lf_open log'" "lf_name log' = lf_name log" "lf_path log' = lf_path log"
    "lw_files w' (lf_path log) =
       Some ((if full max_bytes (file_text_of w (lf_path log)) then [] else file_text_of w (lf_path log)) @
             line @ [newline])"
    by (rule WriteLine_ok [OF l(1) assms(1) l(2,3)])
  then show ?thesis
    using l by (intro exI [of _ log'] exI [of _ w']) (auto simp: log_ready_def file_text_of_def full_iff)
qed

subsection \<open>The contract of a rotating log\<close>

text \<open>
  What the users of a log may rely on: a line that fits is appended to the active log, which is
  started afresh first when it has reached its limit. Its clients follow in the locale.
\<close>

locale line_log =
  fixes put_line :: "'s \<Rightarrow> 'l \<Rightarrow> bool \<times> 's"
    and line_of :: "'l \<Rightarrow> string"
    and active :: "'s \<Rightarrow> string"
    and limit :: "'s \<Rightarrow> nat"
    and inv :: "'s \<Rightarrow> bool"
    and fits :: "'s \<Rightarrow> 'l \<Rightarrow> bool"
  assumes write_ok: "inv s \<Longrightarrow> fits s l \<Longrightarrow> fst (put_line s l) \<and> inv (snd (put_line s l))"
    and active_write: "inv s \<Longrightarrow> fits s l \<Longrightarrow> active (snd (put_line s l)) =
      (if limit s \<le> length (active s) then [] else active s) @ line_of l @ [newline]"
    and limit_write: "inv s \<Longrightarrow> fits s l \<Longrightarrow>
      limit (snd (put_line s l)) = limit s \<and> fits (snd (put_line s l)) = fits s"
begin

definition run :: "'s \<Rightarrow> 'l list \<Rightarrow> 's" where
  "run s ls = foldl (\<lambda>s l. snd (put_line s l)) s ls"

lemma run_simps [simp]: "run s [] = s" "run s (l # ls) = run (snd (put_line s l)) ls"
  by (simp_all add: run_def)

lemma run_limit: "inv s \<Longrightarrow> list_all (fits s) ls \<Longrightarrow> inv (run s ls) \<and> limit (run s ls) = limit s"
  by (induction ls arbitrary: s) (simp_all add: write_ok limit_write)

text \<open>
  The active log is made of the last lines written, whole and in order; the latest is always among
  them, and lines are only missing when those before the first one kept had filled a log.
\<close>

lemma run_snoc: "run s (ls @ [l]) = snd (put_line (run s ls) l)"
  by (simp add: run_def)

lemma run_fits: "inv s \<Longrightarrow> list_all (fits s) ls \<Longrightarrow> fits (run s ls) = fits s"
  by (induction ls arbitrary: s) (simp_all add: write_ok limit_write)

lemma run_recent_lines:
  assumes "inv s" "list_all (fits s) ls" "active s = []"
  shows "\<exists>k. (ls \<noteq> [] \<longrightarrow> k < length ls) \<and>
    active (run s ls) = concat (map (\<lambda>l. line_of l @ [newline]) (drop k ls)) \<and>
    (k = 0 \<or> (\<exists>i<k. limit s \<le> length (concat (map (\<lambda>l. line_of l @ [newline]) (drop i (take k ls))))))"
  using assms(2)
proof (induction ls rule: rev_induct)
  case Nil
  then show ?case using assms(3) by (intro exI [of _ 0]) simp
next
  case (snoc l ls)
  let ?t = "\<lambda>ls. concat (map (\<lambda>l. line_of l @ [newline]) ls)"
  have ls: "list_all (fits s) ls" "fits s l" using snoc.prems by simp_all
  from snoc.IH [OF ls(1)] obtain k where k: "ls \<noteq> [] \<longrightarrow> k < length ls" "active (run s ls) = ?t (drop k ls)"
    "k = 0 \<or> (\<exists>i<k. limit s \<le> length (?t (drop i (take k ls))))" by blast
  have a: "active (run s (ls @ [l])) =
      (if limit s \<le> length (?t (drop k ls)) then [] else ?t (drop k ls)) @ line_of l @ [newline]"
    using active_write [of "run s ls" l] run_limit [OF assms(1) ls(1)] run_fits [OF assms(1) ls(1)] ls(2)
    by (simp add: run_snoc k(2))
  show ?case
  proof (cases "limit s \<le> length (?t (drop k ls)) \<and> ls \<noteq> []")
    case True
    then show ?thesis
      using a k(1) by (intro exI [of _ "length ls"]) (auto intro: exI [of _ k])
  next
    case False
    have "k \<le> length ls \<or> k = 0 \<or> ls = []" using k(1) by auto
    with False k a show ?thesis
      by (intro exI [of _ "if ls = [] then 0 else k"]) (cases "ls = []"; auto)
  qed
qed

text \<open>The active log never outgrows its limit by more than one line.\<close>

lemma run_bound:
  assumes "inv s" "list_all (fits s) ls" "\<forall>l\<in>set ls. length (line_of l) < m" "length (active s) < limit s + m"
  shows "length (active (run s ls)) < limit s + m + 1"
  using assms
proof (induction ls arbitrary: s rule: rev_induct)
  case (snoc l ls)
  have "inv (run s ls)" "limit (run s ls) = limit s" using run_limit snoc.prems by auto
  moreover have "fits (run s ls) = fits s" using run_fits snoc.prems by simp
  ultimately show ?case using snoc.prems active_write [of "run s ls" l] by (simp add: run_snoc)
qed simp

end

subsection \<open>A sample environment\<close>

definition sample_log_os :: "int \<Rightarrow> log_os" where
  "sample_log_os now =
     \<lparr>l_mkdir = True, l_fopen = (\<lambda>p. True), l_fwrite = length, l_fwrite_newline = True, l_rename = True,
      l_gzip = True, l_gzip_text = (\<lambda>t. ''gz:'' @ t), l_readdir = (\<lambda>fs d. None), l_unlink = (\<lambda>p. True),
      l_time = now, l_localtime = Some ''T'', l_error = []\<rparr>"

definition empty_log_world :: log_world where
  "empty_log_world = \<lparr>lw_files = Map.empty, lw_dirs = {''d''}, lw_log = initial_log_globals\<rparr>"

end
