(* ===== verification/Query_Logger.thy ===== *)
theory Query_Logger
  imports Log_Files
begin

text \<open>
  \<open>QueryLogger\<close> (\<open>src/query_logger.cpp\<close>): the log of answered queries (\<open>pass.log\<close>) and the
  log of blocked ones (\<open>block.log\<close>) of one directory. Each public operation holds the mutex for
  its whole body and is one step. Errors go to the process log.
\<close>

subsection \<open>The code\<close>

record query_logger =
  ql_dir :: string
  ql_max_bytes :: u64
  ql_enabled :: bool
  ql_pass :: log_file
  ql_block :: log_file

definition report_error :: reporter where
  "report_error m w = w\<lparr>lw_log := LogError (lw_log w) m\<rparr>"

definition new_query_logger :: "log_os \<Rightarrow> string \<Rightarrow> u64 \<Rightarrow> log_world \<Rightarrow> query_logger \<times> log_world" where
  "new_query_logger os dir max_bytes w =
     (case EnsureDirectory report_error os dir w of (enabled, w) \<Rightarrow>
        (\<lparr>ql_dir = dir, ql_max_bytes = max_bytes, ql_enabled = enabled,
          ql_pass = \<lparr>lf_name = ''pass.log'', lf_path = dir @ ''/'' @ ''pass.log'', lf_open = False\<rparr>,
          ql_block = \<lparr>lf_name = ''block.log'', lf_path = dir @ ''/'' @ ''block.log'', lf_open = False\<rparr>\<rparr>, w))"

definition close_query_logger :: "query_logger \<Rightarrow> query_logger" where
  "close_query_logger q =
     q\<lparr>ql_pass := (ql_pass q)\<lparr>lf_open := False\<rparr>, ql_block := (ql_block q)\<lparr>lf_open := False\<rparr>\<rparr>"

definition BuildLine ::
    "log_os \<Rightarrow> string \<Rightarrow> string \<Rightarrow> string \<Rightarrow> string \<Rightarrow> string \<Rightarrow> string \<Rightarrow> string" where
  "BuildLine os client_ip client_name name type resolved_by upstream =
     ''ts='' @ NowString os @ '' client_ip='' @ client_ip @ '' client_name='' @ client_name @
     '' qname='' @ name @ '' qtype='' @ type @ '' resolved_by='' @ resolved_by @
     (if upstream \<noteq> [] then '' upstream='' @ upstream else [])"

definition BuildBlockLine :: "log_os \<Rightarrow> string \<Rightarrow> string \<Rightarrow> string \<Rightarrow> string \<Rightarrow> string" where
  "BuildBlockLine os client_ip client_name name type =
     ''ts='' @ NowString os @ '' client_ip='' @ client_ip @ '' client_name='' @ client_name @
     '' qname='' @ name @ '' qtype='' @ type"

definition LogPass ::
    "log_os \<Rightarrow> query_logger \<Rightarrow> log_world \<Rightarrow> string \<Rightarrow> string \<Rightarrow> string \<Rightarrow> string \<Rightarrow> string \<Rightarrow> string \<Rightarrow>
     bool \<times> query_logger \<times> log_world" where
  "LogPass os q w client_ip client_name name type resolved_by upstream =
     (case WriteLine report_error os (ql_enabled q) (ql_max_bytes q) (ql_dir q) (ql_pass q) w
             (BuildLine os client_ip client_name name type resolved_by upstream) of
        (ok, log, w) \<Rightarrow> (ok, q\<lparr>ql_pass := log\<rparr>, w))"

definition LogBlock ::
    "log_os \<Rightarrow> query_logger \<Rightarrow> log_world \<Rightarrow> string \<Rightarrow> string \<Rightarrow> string \<Rightarrow> string \<Rightarrow>
     bool \<times> query_logger \<times> log_world" where
  "LogBlock os q w client_ip client_name name type =
     (case WriteLine report_error os (ql_enabled q) (ql_max_bytes q) (ql_dir q) (ql_block q) w
             (BuildBlockLine os client_ip client_name name type) of
        (ok, log, w) \<Rightarrow> (ok, q\<lparr>ql_block := log\<rparr>, w))"

lemma quiet_report [simp]: "quiet report_error"
  by (simp add: quiet_def report_error_def)

subsection \<open>The two logs keep the contract\<close>

type_synonym logger_state = "query_logger \<times> log_world"

text \<open>A request to log: the environment of the call and its arguments.\<close>

type_synonym pass_request = "log_os \<times> string \<times> string \<times> string \<times> string \<times> string \<times> string"
type_synonym block_request = "log_os \<times> string \<times> string \<times> string \<times> string"

definition put_pass :: "logger_state \<Rightarrow> pass_request \<Rightarrow> bool \<times> logger_state" where
  "put_pass s r = (case r of (os, ip, client, name, type, by', up) \<Rightarrow>
     LogPass os (fst s) (snd s) ip client name type by' up)"

definition put_block :: "logger_state \<Rightarrow> block_request \<Rightarrow> bool \<times> logger_state" where
  "put_block s r = (case r of (os, ip, client, name, type) \<Rightarrow>
     LogBlock os (fst s) (snd s) ip client name type)"

definition pass_line :: "pass_request \<Rightarrow> string" where
  "pass_line r = (case r of (os, ip, client, name, type, by', up) \<Rightarrow>
     BuildLine os ip client name type by' up)"

definition block_line :: "block_request \<Rightarrow> string" where
  "block_line r = (case r of (os, ip, client, name, type) \<Rightarrow> BuildBlockLine os ip client name type)"

definition log_text :: "(query_logger \<Rightarrow> log_file) \<Rightarrow> logger_state \<Rightarrow> string" where
  "log_text which s = file_text_of (snd s) (lf_path (which (fst s)))"

definition log_limit :: "logger_state \<Rightarrow> nat" where
  "log_limit s = unat (ql_max_bytes (fst s))"

definition log_inv :: "(query_logger \<Rightarrow> log_file) \<Rightarrow> logger_state \<Rightarrow> bool" where
  "log_inv which s \<longleftrightarrow> ql_enabled (fst s) \<and> log_ready (ql_dir (fst s)) (which (fst s)) (snd s)"

definition pass_fits :: "logger_state \<Rightarrow> pass_request \<Rightarrow> bool" where
  "pass_fits s r \<longleftrightarrow> line_fits (ql_max_bytes (fst s)) (fst r) (pass_line r)"

definition block_fits :: "logger_state \<Rightarrow> block_request \<Rightarrow> bool" where
  "block_fits s r \<longleftrightarrow> line_fits (ql_max_bytes (fst s)) (fst r) (block_line r)"

lemma put_pass_step:
  assumes "log_inv ql_pass s" "pass_fits s r"
  shows "\<exists>s'. put_pass s r = (True, s') \<and> log_inv ql_pass s' \<and>
    log_text ql_pass s' = (if log_limit s \<le> length (log_text ql_pass s) then [] else log_text ql_pass s) @
      pass_line r @ [newline] \<and>
    log_limit s' = log_limit s \<and> pass_fits s' = pass_fits s"
proof -
  obtain os ip client name type by' up where r: "r = (os, ip, client, name, type, by', up)"
    by (metis prod.exhaust)
  have "log_ready (ql_dir (fst s)) (ql_pass (fst s)) (snd s)" "ql_enabled (fst s)"
    "line_fits (ql_max_bytes (fst s)) os (BuildLine os ip client name type by' up)"
    using assms by (auto simp: log_inv_def pass_fits_def r pass_line_def)
  from WriteLine_ready [OF quiet_report this(1,3)] this(2) show ?thesis
    by (auto simp: put_pass_def r LogPass_def log_inv_def log_text_def log_limit_def pass_fits_def
        pass_line_def fun_eq_iff)
qed

lemma put_block_step:
  assumes "log_inv ql_block s" "block_fits s r"
  shows "\<exists>s'. put_block s r = (True, s') \<and> log_inv ql_block s' \<and>
    log_text ql_block s' = (if log_limit s \<le> length (log_text ql_block s) then [] else log_text ql_block s) @
      block_line r @ [newline] \<and>
    log_limit s' = log_limit s \<and> block_fits s' = block_fits s"
proof -
  obtain os ip client name type where r: "r = (os, ip, client, name, type)"
    by (metis prod.exhaust)
  have "log_ready (ql_dir (fst s)) (ql_block (fst s)) (snd s)" "ql_enabled (fst s)"
    "line_fits (ql_max_bytes (fst s)) os (BuildBlockLine os ip client name type)"
    using assms by (auto simp: log_inv_def block_fits_def r block_line_def)
  from WriteLine_ready [OF quiet_report this(1,3)] this(2) show ?thesis
    by (auto simp: put_block_def r LogBlock_def log_inv_def log_text_def log_limit_def block_fits_def
        block_line_def fun_eq_iff)
qed

interpretation pass: line_log put_pass pass_line "log_text ql_pass" log_limit "log_inv ql_pass" pass_fits
  by unfold_locales (use put_pass_step in fastforce)+

interpretation blk: line_log put_block block_line "log_text ql_block" log_limit "log_inv ql_block" block_fits
  by unfold_locales (use put_block_step in fastforce)+

subsection \<open>Properties\<close>

text \<open>
  C33: The active log holds the last lines. When the system calls on the log succeed (compression
  and cleanup may fail), then after any sequence of answered queries the pass log, empty at first,
  consists of the lines of the last of them, whole, in order and one per query. The line of the
  latest query is always there; lines are missing only if those just before the first one kept had
  filled the log to its limit; and the log never exceeds the limit by more than one line.
\<close>

theorem query_log_holds_recent_lines:
  assumes "log_inv ql_pass s" "log_text ql_pass s = []"
    and "list_all (pass_fits s) rs" "\<forall>r\<in>set rs. length (pass_line r) < m" "0 < m"
  shows "(\<exists>k. (rs \<noteq> [] \<longrightarrow> k < length rs) \<and>
      log_text ql_pass (foldl (\<lambda>s r. snd (put_pass s r)) s rs) =
        concat (map (\<lambda>r. pass_line r @ [newline]) (drop k rs)) \<and>
      (k = 0 \<or> (\<exists>i<k. log_limit s \<le> length (concat (map (\<lambda>r. pass_line r @ [newline]) (drop i (take k rs))))))) \<and>
    length (log_text ql_pass (foldl (\<lambda>s r. snd (put_pass s r)) s rs)) \<le> log_limit s + m"
proof (rule conjI)
  show "\<exists>k. (rs \<noteq> [] \<longrightarrow> k < length rs) \<and>
      log_text ql_pass (foldl (\<lambda>s r. snd (put_pass s r)) s rs) =
        concat (map (\<lambda>r. pass_line r @ [newline]) (drop k rs)) \<and>
      (k = 0 \<or> (\<exists>i<k. log_limit s \<le> length (concat (map (\<lambda>r. pass_line r @ [newline]) (drop i (take k rs))))))"
    using pass.run_recent_lines [OF assms(1,3,2)] unfolding pass.run_def .
  show "length (log_text ql_pass (foldl (\<lambda>s r. snd (put_pass s r)) s rs)) \<le> log_limit s + m"
    using pass.run_bound [OF assms(1,3,4)] assms(2,5) unfolding pass.run_def by simp
qed

definition sample_requests :: "pass_request list" where
  "sample_requests = map (\<lambda>n. (sample_log_os 7, ''1.2.3.4'', ''-'', n, ''A'', ''local'', [])) [''a.b'', ''c.d'']"

lemma sample_logger_ready:
  "log_inv ql_pass (new_query_logger (sample_log_os 7) ''d'' 10 empty_log_world)"
  "log_text ql_pass (new_query_logger (sample_log_os 7) ''d'' 10 empty_log_world) = []"
  "list_all (pass_fits (new_query_logger (sample_log_os 7) ''d'' 10 empty_log_world)) sample_requests"
  "log_limit (new_query_logger (sample_log_os 7) ''d'' 10 empty_log_world) = 10"
  by (simp_all add: new_query_logger_def EnsureDirectory_def empty_log_world_def log_inv_def log_ready_def
      file_text_of_def log_text_def sample_requests_def pass_fits_def line_fits_def writable_def
      sample_log_os_def pass_line_def BuildLine_def NowString_def log_limit_def)

theorem query_log_holds_recent_lines_witness:
  "log_text ql_pass (foldl (\<lambda>s r. snd (put_pass s r))
       (new_query_logger (sample_log_os 7) ''d'' 10 empty_log_world) sample_requests) =
     pass_line (last sample_requests) @ [newline]"
proof -
  let ?t = "log_text ql_pass (foldl (\<lambda>s r. snd (put_pass s r))
       (new_query_logger (sample_log_os 7) ''d'' 10 empty_log_world) sample_requests)"
  obtain r1 r2 where rs: "sample_requests = [r1, r2]" by (simp add: sample_requests_def)
  have l: "length (pass_line r1) = 72" "length (pass_line r2) = 72"
    using rs by (auto simp: sample_requests_def pass_line_def BuildLine_def NowString_def sample_log_os_def)
  then have m: "\<forall>r\<in>set sample_requests. length (pass_line r) < 73" by (simp add: rs)
  note q = query_log_holds_recent_lines [OF sample_logger_ready(1,2,3) m zero_less_numeral, unfolded sample_logger_ready(4)]
  have b: "length ?t \<le> 83" using conjunct2 [OF q] by simp
  from conjunct1 [OF q] obtain k where k: "sample_requests \<noteq> [] \<longrightarrow> k < length sample_requests"
    "?t = concat (map (\<lambda>r. pass_line r @ [newline]) (drop k sample_requests))" by (elim exE conjE) (rule that)
  have "k < 2" using k(1) by (simp add: rs)
  moreover have "k \<noteq> 0" using b l unfolding k(2) by (intro notI) (simp add: rs)
  ultimately have "k = 1" by simp
  then show ?thesis using k(2) by (simp add: rs)
qed

text \<open>The paths that the constructor gives.\<close>

definition standard_paths :: "query_logger \<Rightarrow> bool" where
  "standard_paths q \<longleftrightarrow>
     lf_name (ql_pass q) = ''pass.log'' \<and> lf_path (ql_pass q) = ql_dir q @ ''/pass.log'' \<and>
     lf_name (ql_block q) = ''block.log'' \<and> lf_path (ql_block q) = ql_dir q @ ''/block.log''"

lemma standard_paths_new: "standard_paths (fst (new_query_logger os dir m w))"
  by (simp add: standard_paths_def new_query_logger_def split: prod.split)

lemma not_suffix: "length s \<le> length v \<Longrightarrow> drop (length v - length s) v \<noteq> s \<Longrightarrow> \<not> EndsWith (p @ v) s"
  by (simp add: EndsWith_def)

lemma EndsWith_last: "EndsWith v s \<Longrightarrow> s \<noteq> [] \<Longrightarrow> last v = last s"
  by (auto simp: EndsWith_iff)

lemma suffix_foreign:
  assumes "p = pre @ c # ''block.log'' \<or> p = pre @ c # ''block.log.gz''"
  shows "foreign ''pass.log'' p"
  using assms
proof
  assume p: "p = pre @ c # ''block.log''"
  then have "last p = CHR ''g''" "\<not> EndsWith p ''pass.log''" by (simp_all add: not_suffix)
  then show ?thesis using EndsWith_last [of p "''pass.log.gz''"] by (auto simp: foreign_def)
next
  assume p: "p = pre @ c # ''block.log.gz''"
  then have "last p = CHR ''z''" "\<not> EndsWith p ''pass.log.gz''" by (simp_all add: not_suffix)
  then show ?thesis using EndsWith_last [of p "''pass.log''"] by (auto simp: foreign_def)
qed

lemma suffix_foreign_block:
  assumes "p = pre @ c # ''pass.log'' \<or> p = pre @ c # ''pass.log.gz''" "c \<noteq> CHR ''b''"
  shows "foreign ''block.log'' p"
  using assms(1)
proof
  assume p: "p = pre @ c # ''pass.log''"
  then have "last p = CHR ''g''" "\<not> EndsWith p ''block.log''" by (simp_all add: not_suffix)
  then show ?thesis using EndsWith_last [of p "''block.log.gz''"] by (auto simp: foreign_def)
next
  assume p: "p = pre @ c # ''pass.log.gz''"
  then have "last p = CHR ''z''" "\<not> EndsWith p ''block.log.gz''" by (simp_all add: not_suffix)
  then show ?thesis using EndsWith_last [of p "''block.log''"] by (auto simp: foreign_def)
qed

lemma belongs_suffix:
  "belongs dir base p \<Longrightarrow> \<exists>pre c. c \<in> {CHR ''/'', CHR ''_''} \<and> (p = pre @ c # base \<or> p = pre @ c # base @ ''.gz'')"
  unfolding belongs_def
proof (elim disjE exE)
  fix pre assume "p = dir @ ''/'' @ pre @ ''_'' @ base @ ''.gz''"
  then have "p = (dir @ ''/'' @ pre) @ CHR ''_'' # base @ ''.gz''" by simp
  then show ?thesis by blast
next
  fix pre assume "p = dir @ ''/'' @ pre @ ''_'' @ base"
  then have "p = (dir @ ''/'' @ pre) @ CHR ''_'' # base" by simp
  then show ?thesis by blast
qed auto

lemma foreign_logs:
  "belongs dir ''block.log'' p \<Longrightarrow> foreign ''pass.log'' p \<and> p \<noteq> dir' @ ''/pass.log''"
  "belongs dir ''pass.log'' p \<Longrightarrow> foreign ''block.log'' p \<and> p \<noteq> dir' @ ''/block.log''"
proof -
  have own: "\<not> foreign ''pass.log'' (dir' @ ''/pass.log'')" "\<not> foreign ''block.log'' (dir' @ ''/block.log'')"
    by (simp_all add: foreign_def EndsWith_def)
  show "foreign ''pass.log'' p \<and> p \<noteq> dir' @ ''/pass.log''" if "belongs dir ''block.log'' p"
    using belongs_suffix [OF that] suffix_foreign own(1) by fastforce
  show "foreign ''block.log'' p \<and> p \<noteq> dir' @ ''/block.log''" if "belongs dir ''pass.log'' p"
    using belongs_suffix [OF that] suffix_foreign_block own(2) by fastforce
qed

text \<open>
  C35: The two logs do not disturb each other. Whatever the system calls do, writing to the pass log
  leaves every file of the block log (the active one, rotated ones, archives) and its state as they
  are, rotation and cleanup included, and the other way round.
\<close>

theorem query_logs_separate:
  assumes "standard_paths q"
  shows "(case LogPass os q w ip client name type by' up of (ok, q', w') \<Rightarrow>
      standard_paths q' \<and> ql_block q' = ql_block q \<and>
      (\<forall>p. belongs (ql_dir q) ''block.log'' p \<longrightarrow> lw_files w' p = lw_files w p)) \<and>
    (case LogBlock os q w ip client name type of (ok, q', w') \<Rightarrow>
      standard_paths q' \<and> ql_pass q' = ql_pass q \<and>
      (\<forall>p. belongs (ql_dir q) ''pass.log'' p \<longrightarrow> lw_files w' p = lw_files w p))"
proof (rule conjI)
  have sp: "lf_name (ql_pass q) = ''pass.log''" "lf_path (ql_pass q) = ql_dir q @ ''/pass.log''"
    "lf_name (ql_block q) = ''block.log''" "lf_path (ql_block q) = ql_dir q @ ''/block.log''"
    using assms by (simp_all add: standard_paths_def)
  obtain ok log w' where p: "WriteLine report_error os (ql_enabled q) (ql_max_bytes q) (ql_dir q) (ql_pass q) w
      (BuildLine os ip client name type by' up) = (ok, log, w')" by (metis prod_cases3)
  note frame = WriteLine_frame [OF quiet_report p, unfolded sp]
  have "lf_path log = ql_dir q @ ''/pass.log'' \<and> lf_name log = ''pass.log''"
    using frame [of "ql_dir q @ ''/block.log''"] foreign_logs(1) [of "ql_dir q" "ql_dir q @ ''/block.log''" "ql_dir q"]
    by (simp add: belongs_def)
  then show "case LogPass os q w ip client name type by' up of (ok, q', w') \<Rightarrow>
      standard_paths q' \<and> ql_block q' = ql_block q \<and>
      (\<forall>p. belongs (ql_dir q) ''block.log'' p \<longrightarrow> lw_files w' p = lw_files w p)"
    using frame foreign_logs(1) [of "ql_dir q"] by (simp add: LogPass_def p sp standard_paths_def)
  obtain ok2 log2 w2 where b: "WriteLine report_error os (ql_enabled q) (ql_max_bytes q) (ql_dir q) (ql_block q) w
      (BuildBlockLine os ip client name type) = (ok2, log2, w2)" by (metis prod_cases3)
  note frame2 = WriteLine_frame [OF quiet_report b, unfolded sp]
  have "lf_path log2 = ql_dir q @ ''/block.log'' \<and> lf_name log2 = ''block.log''"
    using frame2 [of "ql_dir q @ ''/pass.log''"] foreign_logs(2) [of "ql_dir q" "ql_dir q @ ''/pass.log''" "ql_dir q"]
    by (simp add: belongs_def)
  then show "case LogBlock os q w ip client name type of (ok, q', w') \<Rightarrow>
      standard_paths q' \<and> ql_pass q' = ql_pass q \<and>
      (\<forall>p. belongs (ql_dir q) ''pass.log'' p \<longrightarrow> lw_files w' p = lw_files w p)"
    using frame2 foreign_logs(2) [of "ql_dir q"] by (simp add: LogBlock_def b sp standard_paths_def)
qed

theorem query_logs_separate_witness:
  "case LogPass (sample_log_os 7) (fst (new_query_logger (sample_log_os 7) ''d'' 10 empty_log_world))
      (empty_log_world\<lparr>lw_files := [''d/pass.log'' \<mapsto> ''0123456789'', ''d/5_block.log.gz'' \<mapsto> ''x'']\<rparr>)
      ''1.2.3.4'' ''-'' ''a.b'' ''A'' ''local'' [] of
    (ok, q', w') \<Rightarrow> lw_files w' ''d/5_block.log.gz'' = Some ''x''"
proof -
  let ?q = "fst (new_query_logger (sample_log_os 7) ''d'' 10 empty_log_world)"
  let ?w = "empty_log_world\<lparr>lw_files := [''d/pass.log'' \<mapsto> ''0123456789'', ''d/5_block.log.gz'' \<mapsto> ''x'']\<rparr>"
  have "ql_dir ?q = ''d''" by (simp add: new_query_logger_def split: prod.split)
  then have "belongs (ql_dir ?q) ''block.log'' ''d/5_block.log.gz''"
    unfolding belongs_def by (intro disjI2 exI [of _ "''5''"]) simp
  moreover obtain ok q' w' where r: "LogPass (sample_log_os 7) ?q ?w ''1.2.3.4'' ''-'' ''a.b'' ''A'' ''local'' [] = (ok, q', w')"
    by (metis prod_cases3)
  ultimately have "lw_files w' ''d/5_block.log.gz'' = lw_files ?w ''d/5_block.log.gz''"
    using query_logs_separate [where q = ?q and os = "sample_log_os 7" and w = ?w and
        ip = "''1.2.3.4''" and client = "''-''" and name = "''a.b''" and type = "''A''" and
        by' = "''local''" and up = "[]", OF standard_paths_new, THEN conjunct1]
    unfolding r by simp
  then show ?thesis unfolding r by simp
qed

text \<open>Cleanup in terms of the entries that its scan of the directory collects.\<close>

lemma cleanup_entries:
  assumes "l_readdir os (lw_files w) dir = Some names" "distinct names" "\<And>p. l_unlink os p"
    and "\<And>n. n \<in> set names \<Longrightarrow> dir @ ''/'' @ n \<in> dom (lw_files w)"
    and "es = List.map_filter (archive_entry suffix) names"
    and "w' = CleanupOld os dir suffix w"
  shows "card {e \<in> set es. dir @ ''/'' @ snd e \<in> dom (lw_files w')} = min 10 (length es) \<and>
    (\<forall>r\<in>set es. \<forall>k\<in>set es. dir @ ''/'' @ snd r \<notin> dom (lw_files w') \<longrightarrow>
       dir @ ''/'' @ snd k \<in> dom (lw_files w') \<longrightarrow> r \<le> k) \<and>
    (\<forall>p. p \<notin> (\<lambda>e. dir @ ''/'' @ snd e) ` set es \<or> p \<in> dom (lw_files w') \<longrightarrow> lw_files w' p = lw_files w p)"
proof -
  obtain removed kept where c: "sort es = removed @ kept" "length kept = min 10 (length es)"
    "\<And>e. e \<in> set removed \<Longrightarrow> lw_files w' (dir @ ''/'' @ snd e) = None"
    "\<And>p. p \<notin> (\<lambda>e. dir @ ''/'' @ snd e) ` set removed \<Longrightarrow> lw_files w' p = lw_files w p"
    "\<And>r k. r \<in> set removed \<Longrightarrow> k \<in> set kept \<Longrightarrow> r \<le> k \<and> snd r \<noteq> snd k"
    using CleanupOld_cases [OF assms(1,2,3,5)] unfolding assms(6) by metis
  have es: "set es = set removed \<union> set kept" using c(1) by (metis set_append set_sort)
  have live: "dir @ ''/'' @ snd k \<in> dom (lw_files w')" if "k \<in> set kept" for k
  proof -
    have "dir @ ''/'' @ snd k \<notin> (\<lambda>e. dir @ ''/'' @ snd e) ` set removed"
      using c(5) [OF _ that] by force
    moreover have "snd k \<in> set names" using map_filter_entries [of k suffix names] that es assms(5) by blast
    ultimately show ?thesis using c(4) assms(4) by (simp add: domIff)
  qed
  have iff: "dir @ ''/'' @ snd e \<in> dom (lw_files w') \<longleftrightarrow> e \<in> set kept" if "e \<in> set es" for e
  proof
    assume "dir @ ''/'' @ snd e \<in> dom (lw_files w')"
    then have "e \<notin> set removed" using c(3) by (metis domIff)
    then show "e \<in> set kept" using that es by blast
  qed (rule live)
  have "{e \<in> set es. dir @ ''/'' @ snd e \<in> dom (lw_files w')} = set kept"
    using iff es by blast
  moreover have "distinct kept"
  proof -
    have "distinct (sort es)" using distinct_entries [OF assms(2)] by (simp add: assms(5) distinct_map)
    then show ?thesis by (simp add: c(1))
  qed
  ultimately have "card {e \<in> set es. dir @ ''/'' @ snd e \<in> dom (lw_files w')} = min 10 (length es)"
    using c(2) by (simp add: distinct_card)
  moreover have "r \<le> k" if "r \<in> set es" "k \<in> set es" "dir @ ''/'' @ snd r \<notin> dom (lw_files w')"
      "dir @ ''/'' @ snd k \<in> dom (lw_files w')" for r k
    using that iff es c(5) by blast
  moreover have "lw_files w' p = lw_files w p"
    if "p \<notin> (\<lambda>e. dir @ ''/'' @ snd e) ` set es \<or> p \<in> dom (lw_files w')" for p
  proof (rule c(4))
    show "p \<notin> (\<lambda>e. dir @ ''/'' @ snd e) ` set removed" using that c(3) es by (auto simp: domIff)
  qed
  ultimately show ?thesis by blast
qed

lemma set_map_filter: "set (List.map_filter f xs) = {y. \<exists>x\<in>set xs. f x = Some y}"
  by (induction xs) (auto simp: List.map_filter_simps split: option.splits)

text \<open>The archives of a log in a directory listing, with the time stamps in their names.\<close>

definition archives_in :: "string \<Rightarrow> string list \<Rightarrow> (nat \<times> string) set" where
  "archives_in base names = {(t, n). n \<in> set names \<and> (\<exists>i. n = archive_name base t i)}"

lemma entries_are_archives:
  assumes "\<And>n p. n \<in> set names \<Longrightarrow> n = p @ ''_'' @ base @ ''.gz'' \<Longrightarrow>
      \<exists>t i. n = archive_name base t i \<and> 0 < t \<and> t < 2 ^ 63"
  shows "set (List.map_filter (archive_entry (''_'' @ base @ ''.gz'')) names) =
    (\<lambda>(t, n). (int t, n)) ` archives_in base names"
proof -
  let ?s = "''_'' @ base @ ''.gz''"
  have stamp: "0 < t \<and> t < 2 ^ 63" if n: "n \<in> set names" "n = archive_name base t i" for n t i
    using assms [OF n(1)] archive_name_suffix [of base t i] n(2) by (metis archive_name_time)
  have "archive_entry ?s n = Some e \<longleftrightarrow> (\<exists>t i. n = archive_name base t i \<and> e = (int t, n))"
    if n: "n \<in> set names" for n e
  proof
    assume e: "archive_entry ?s n = Some e"
    then obtain p where "n = p @ ?s" using archive_entry_name EndsWith_iff by metis
    with assms n obtain t i where t: "n = archive_name base t i" "0 < t" "t < 2 ^ 63" by metis
    with e archive_entry_archive_name [OF t(2,3)] show "\<exists>t i. n = archive_name base t i \<and> e = (int t, n)"
      by auto
  next
    assume "\<exists>t i. n = archive_name base t i \<and> e = (int t, n)"
    with stamp [OF n] archive_entry_archive_name show "archive_entry ?s n = Some e" by blast
  qed
  then show ?thesis by (force simp: set_map_filter archives_in_def)
qed

text \<open>
  C36: Cleanup keeps the newest archives. In a directory that can be listed and whose files can be
  removed, and where the names that end like an archive of the log are names that rotation gives
  (a time stamp, perhaps a number, the name of the log, \<open>.gz\<close>), cleanup leaves exactly ten of
  the archives when there are more, and all of them otherwise; none that it removes is newer than
  one that it keeps; and it leaves every other file as it is, the archives of another log included.
\<close>

theorem cleanup_keeps_newest:
  assumes "l_readdir os (lw_files w) dir = Some names" "distinct names" "\<And>p. l_unlink os p"
    and "\<And>n. n \<in> set names \<Longrightarrow> dir @ ''/'' @ n \<in> dom (lw_files w)"
    and "\<And>n p. n \<in> set names \<Longrightarrow> n = p @ ''_'' @ base @ ''.gz'' \<Longrightarrow>
      \<exists>t i. n = archive_name base t i \<and> 0 < t \<and> t < 2 ^ 63"
    and "w' = CleanupOld os dir (''_'' @ base @ ''.gz'') w"
  shows "card {a \<in> archives_in base names. dir @ ''/'' @ snd a \<in> dom (lw_files w')} =
      min 10 (card (archives_in base names)) \<and>
    (\<forall>r\<in>archives_in base names. \<forall>k\<in>archives_in base names. dir @ ''/'' @ snd r \<notin> dom (lw_files w') \<longrightarrow>
       dir @ ''/'' @ snd k \<in> dom (lw_files w') \<longrightarrow> fst r \<le> fst k) \<and>
    (\<forall>p. p \<notin> (\<lambda>a. dir @ ''/'' @ snd a) ` archives_in base names \<or> p \<in> dom (lw_files w') \<longrightarrow>
       lw_files w' p = lw_files w p)"
proof -
  let ?A = "archives_in base names" and ?f = "\<lambda>(t, n). (int t, n :: string)"
  define es where "es = List.map_filter (archive_entry (''_'' @ base @ ''.gz'')) names"
  have es: "set es = ?f ` ?A" unfolding es_def using assms(5) by (rule entries_are_archives)
  note c = cleanup_entries [OF assms(1-4) es_def assms(6)]
  have inj: "inj ?f" by (auto intro: injI)
  have "distinct es" using distinct_entries [OF assms(2)] by (simp add: es_def distinct_map)
  then have len: "length es = card ?A"
    using inj by (simp add: distinct_card [symmetric] es card_image inj_on_subset)
  have "{e \<in> set es. dir @ ''/'' @ snd e \<in> dom (lw_files w')} =
      ?f ` {a \<in> ?A. dir @ ''/'' @ snd a \<in> dom (lw_files w')}" unfolding es by auto
  then have "card {e \<in> set es. dir @ ''/'' @ snd e \<in> dom (lw_files w')} =
      card {a \<in> ?A. dir @ ''/'' @ snd a \<in> dom (lw_files w')}"
    using inj by (simp add: card_image inj_on_subset)
  moreover have "fst r \<le> fst k" if "r \<in> ?A" "k \<in> ?A" "dir @ ''/'' @ snd r \<notin> dom (lw_files w')"
      "dir @ ''/'' @ snd k \<in> dom (lw_files w')" for r k
  proof -
    have "?f r \<le> ?f k" using c that unfolding es by (force simp: case_prod_unfold)
    then show ?thesis by (auto simp: case_prod_unfold less_eq_prod_def)
  qed
  moreover have "(\<lambda>e. dir @ ''/'' @ snd e) ` set es = (\<lambda>a. dir @ ''/'' @ snd a) ` ?A"
    unfolding es by (force simp: image_image case_prod_unfold)
  ultimately show ?thesis using c len by simp
qed

definition listed_names :: "string list" where
  "listed_names = map (\<lambda>t. archive_name ''pass.log'' t None) [1..<12] @ [''5_block.log.gz'', ''notes'']"

definition listing_os :: log_os where
  "listing_os = (sample_log_os 7)\<lparr>l_readdir := (\<lambda>fs d. Some listed_names)\<rparr>"

definition listing_world :: log_world where
  "listing_world = empty_log_world\<lparr>lw_files :=
     (\<lambda>p. if p \<in> (\<lambda>n. ''d/'' @ n) ` set listed_names then Some ''x'' else None)\<rparr>"

lemma listed_names_archives:
  "n \<in> set listed_names \<Longrightarrow> n = p @ ''_'' @ ''pass.log'' @ ''.gz'' \<Longrightarrow>
   \<exists>t\<in>{1..<12}. n = archive_name ''pass.log'' t None"
proof -
  assume n: "n \<in> set listed_names" "n = p @ ''_'' @ ''pass.log'' @ ''.gz''"
  from n(2) have "EndsWith n ''_pass.log.gz''" by (simp add: EndsWith_append)
  then have "n \<noteq> ''5_block.log.gz'' \<and> n \<noteq> ''notes''" by (auto simp: EndsWith_def)
  with n(1) show ?thesis by (auto simp: listed_names_def)
qed

lemma listed_archives:
  "archives_in ''pass.log'' listed_names = (\<lambda>t. (t, archive_name ''pass.log'' t None)) ` {1..<12}"
proof (rule set_eqI)
  fix a :: "nat \<times> string"
  obtain t n where a: "a = (t, n)" by (cases a)
  have "t \<in> {1..<12} \<and> n = archive_name ''pass.log'' t None"
    if n: "n \<in> set listed_names" "n = archive_name ''pass.log'' t i" for i
    using listed_names_archives [OF n(1)] archive_name_suffix [of "''pass.log''" t i] n(2)
    by (metis archive_name_time)
  moreover have "archive_name ''pass.log'' t None \<in> set listed_names" if "t \<in> {1..<12}"
    using that by (simp add: listed_names_def)
  ultimately show "a \<in> archives_in ''pass.log'' listed_names \<longleftrightarrow>
      a \<in> (\<lambda>t. (t, archive_name ''pass.log'' t None)) ` {1..<12}"
    unfolding a archives_in_def by blast
qed

lemma listed_others: "''5_block.log.gz'' \<noteq> archive_name ''pass.log'' t i" "''notes'' \<noteq> archive_name ''pass.log'' t i"
proof -
  have "\<exists>p. archive_name ''pass.log'' t i = p @ ''_pass.log.gz''"
    using archive_name_suffix [of "''pass.log''" t i] by simp
  then have "EndsWith (archive_name ''pass.log'' t i) ''_pass.log.gz''" by (simp add: EndsWith_iff)
  moreover have "\<not> EndsWith ''5_block.log.gz'' ''_pass.log.gz''" "\<not> EndsWith ''notes'' ''_pass.log.gz''"
    by (simp_all add: EndsWith_def)
  ultimately show "''5_block.log.gz'' \<noteq> archive_name ''pass.log'' t i" "''notes'' \<noteq> archive_name ''pass.log'' t i"
    by metis+
qed

theorem cleanup_keeps_newest_witness:
  "lw_files (CleanupOld listing_os ''d'' (''_'' @ ''pass.log'' @ ''.gz'') listing_world)
      (''d'' @ ''/'' @ archive_name ''pass.log'' 1 None) = None \<and>
   lw_files (CleanupOld listing_os ''d'' (''_'' @ ''pass.log'' @ ''.gz'') listing_world)
      (''d'' @ ''/'' @ archive_name ''pass.log'' 2 None) = Some ''x'' \<and>
   lw_files (CleanupOld listing_os ''d'' (''_'' @ ''pass.log'' @ ''.gz'') listing_world) ''d/5_block.log.gz'' = Some ''x''"
proof -
  let ?w = "CleanupOld listing_os ''d'' (''_'' @ ''pass.log'' @ ''.gz'') listing_world"
  let ?n = "\<lambda>t. archive_name ''pass.log'' t None"
  have inj: "inj_on ?n {1..<12}" using archive_name_time by (auto intro: inj_onI)
  have 1: "l_readdir listing_os (lw_files listing_world) ''d'' = Some listed_names"
    and 2: "\<And>p. l_unlink listing_os p"
    and 3: "\<And>n. n \<in> set listed_names \<Longrightarrow> ''d'' @ ''/'' @ n \<in> dom (lw_files listing_world)"
    by (auto simp: listing_os_def sample_log_os_def listing_world_def)
  have 4: "distinct listed_names"
    using inj listed_others by (auto simp: listed_names_def distinct_map)
  have 5: "\<exists>t i. n = archive_name ''pass.log'' t i \<and> 0 < t \<and> t < 2 ^ 63"
    if "n \<in> set listed_names" "n = p @ ''_'' @ ''pass.log'' @ ''.gz''" for n p
    using listed_names_archives [OF that] by (auto intro: exI [of _ "None"])
  note c = cleanup_keeps_newest [OF 1 4 2 3 5 refl, unfolded listed_archives]
  define K where "K = {t \<in> {1..<12}. ''d'' @ ''/'' @ ?n t \<in> dom (lw_files ?w)}"
  have "{a \<in> (\<lambda>t. (t, ?n t)) ` {1..<12}. ''d'' @ ''/'' @ snd a \<in> dom (lw_files ?w)} = (\<lambda>t. (t, ?n t)) ` K"
    by (auto simp: K_def)
  then have K: "card K = 10"
    using conjunct1 [OF c] by (simp add: card_image inj_on_def)
  have "1 \<notin> K"
  proof
    assume "1 \<in> K"
    have "K \<noteq> {1..<12}" using K by auto
    moreover have "K \<subseteq> {1..<12}" by (auto simp: K_def)
    ultimately obtain r where r: "r \<in> {1..<12}" "r \<notin> K" by blast
    then have "r \<le> 1" using c \<open>1 \<in> K\<close> by (fastforce simp: K_def)
    with \<open>1 \<in> K\<close> \<open>r \<notin> K\<close> \<open>r \<in> {1..<12}\<close> show False by (cases "r = 1") auto
  qed
  have sub: "K \<subseteq> {2..<12}"
  proof
    fix t assume t: "t \<in> K"
    then have "t \<noteq> 1" using \<open>1 \<notin> K\<close> by blast
    with t show "t \<in> {2..<12}" by (auto simp: K_def)
  qed
  have "K = {2..<12}" using K by (intro card_subset_eq [OF _ sub]) simp_all
  then have "2 \<in> K" by simp
  then have "''d'' @ ''/'' @ ?n 2 \<in> dom (lw_files ?w)" by (simp add: K_def)
  then have "lw_files ?w (''d'' @ ''/'' @ ?n 2) = Some ''x''"
    using c by (simp add: listing_world_def listed_names_def)
  moreover have "lw_files ?w ''d/5_block.log.gz'' = Some ''x''"
    using c listed_others(1) by (simp add: listing_world_def listed_names_def image_iff)
  ultimately show ?thesis using \<open>1 \<notin> K\<close> by (auto simp: K_def)
qed

subsection \<open>What the log does not guard against\<close>

text \<open>
  The names in a line are written as they came, so a name that holds a line break makes two
  lines of one query, and the second one is what the client chose.
\<close>

lemma query_log_injection:
  "BuildLine os ip client (''a'' @ newline # ''ts=0 forged'') type by' up =
     ''ts='' @ NowString os @ '' client_ip='' @ ip @ '' client_name='' @ client @ '' qname=a'' @ [newline] @
     ''ts=0 forged qtype='' @ type @ '' resolved_by='' @ by' @ (if up \<noteq> [] then '' upstream='' @ up else [])"
  by (simp add: BuildLine_def)

text \<open>
  The rotated name is chosen so that it meets no file, but \<open>gzip\<close> then replaces it by the
  compressed one: a second rotation in the same second takes the same name again and
  overwrites the first archive.
\<close>

lemma same_second_archive_lost:
  assumes "w = empty_log_world\<lparr>lw_files := [''d/pass.log'' \<mapsto> ''first'', ''d/7_pass.log.gz'' \<mapsto> ''gz:older'']\<rparr>"
  shows "case RotateIfNeeded report_error (sample_log_os 7) True 5 ''d''
      \<lparr>lf_name = ''pass.log'', lf_path = ''d/pass.log'', lf_open = True\<rparr> w of
      (rotated, log, w') \<Rightarrow> rotated \<and> lw_files w' = [''d/7_pass.log.gz'' \<mapsto> ''gz:first'']"
proof -
  have "char_of (55::nat) = CHR ''7''" by (simp add: char_of_eq_iff)
  then show ?thesis
    unfolding assms
    by (simp add: RotateIfNeeded_def UniqueRotatedName_def CompressFile_def CleanupOld_def sample_log_os_def
      empty_log_world_def signed_decimal_def decimal.simps digit_char_def
        Let_def fun_eq_iff set_file_def)
qed

end
