(* ===== verification/Controller_Logger.thy ===== *)
theory Controller_Logger
  imports Log_Files
begin

text \<open>
  \<open>ControllerLogger\<close> (\<open>src/controller_logger.cpp\<close>): the process log. Its file handling
  repeats that of the query logger with errors on standard error; it is modelled from its own text,
  with the prefix \<open>controller_\<close>, and shown to agree with theory \<open>Log_Files\<close>. Its clients are the logging
  functions of theory \<open>Util\<close>: \<open>LogInternal\<close> filters by level, takes the line breaks out of a
  message and calls \<open>Log\<close>.
\<close>

subsection \<open>The code\<close>

record controller_logger =
  cl_dir :: string
  cl_max_bytes :: u64
  cl_enabled :: bool
  cl_log :: log_file

definition report_stderr :: reporter where
  "report_stderr m w = w\<lparr>lw_log := (lw_log w)\<lparr>stderr_lines := stderr_lines (lw_log w) @ [m @ [newline]]\<rparr>\<rparr>"

definition controller_EnsureDirectory :: "log_os \<Rightarrow> string \<Rightarrow> log_world \<Rightarrow> bool \<times> log_world" where
  "controller_EnsureDirectory os dir w =
     (if dir \<in> lw_dirs w then (True, w)
      else if l_mkdir os then (True, w\<lparr>lw_dirs := insert dir (lw_dirs w)\<rparr>)
      else if dir \<in> lw_dirs w then (True, w)
      else (False, report_stderr (''Failed to create log dir '' @ dir @ '': '' @ l_error os) w))"

definition new_controller_logger :: "log_os \<Rightarrow> string \<Rightarrow> u64 \<Rightarrow> log_world \<Rightarrow> controller_logger \<times> log_world" where
  "new_controller_logger os dir max_bytes w =
     (case controller_EnsureDirectory os dir w of (enabled, w) \<Rightarrow>
        (\<lparr>cl_dir = dir, cl_max_bytes = max_bytes, cl_enabled = enabled,
          cl_log = \<lparr>lf_name = ''controller.log'', lf_path = dir @ ''/'' @ ''controller.log'', lf_open = False\<rparr>\<rparr>, w))"

definition close_controller_logger :: "controller_logger \<Rightarrow> controller_logger" where
  "close_controller_logger c = c\<lparr>cl_log := (cl_log c)\<lparr>lf_open := False\<rparr>\<rparr>"

definition controller_EnsureOpen ::
    "log_os \<Rightarrow> controller_logger \<Rightarrow> log_world \<Rightarrow> bool \<times> controller_logger \<times> log_world" where
  "controller_EnsureOpen os c w =
     (if \<not> cl_enabled c then (False, c, w)
      else if lf_open (cl_log c) then (True, c, w)
      else
        let path = lf_path (cl_log c) in
        if \<not> l_fopen os path then
          (False, c, report_stderr (''Failed to open log file '' @ path @ '': '' @ l_error os) w)
        else (True, c\<lparr>cl_log := (cl_log c)\<lparr>lf_open := True\<rparr>\<rparr>,
              if path \<in> dom (lw_files w) then w else set_file path (Some []) w))"

text \<open>\<open>k\<close> more attempts, the next one with suffix \<open>i\<close>.\<close>

fun controller_unique_loop ::
    "(string \<rightharpoonup> string) \<Rightarrow> controller_logger \<Rightarrow> int \<Rightarrow> nat \<Rightarrow> nat \<Rightarrow> string \<Rightarrow> string" where
  "controller_unique_loop fs c now i 0 candidate = candidate"
| "controller_unique_loop fs c now i (Suc k) candidate =
     (let candidate = cl_dir c @ ''/'' @ signed_decimal now @ ''_'' @ decimal i @ ''_'' @ lf_name (cl_log c) in
      if candidate \<notin> dom fs then candidate
      else controller_unique_loop fs c now (i + 1) k candidate)"

definition controller_UniqueRotatedName :: "log_os \<Rightarrow> (string \<rightharpoonup> string) \<Rightarrow> controller_logger \<Rightarrow> string" where
  "controller_UniqueRotatedName os fs c =
     (let now = l_time os;
          candidate = cl_dir c @ ''/'' @ signed_decimal now @ ''_'' @ lf_name (cl_log c) in
      if candidate \<notin> dom fs then candidate
      else controller_unique_loop fs c now 1 999 candidate)"

definition controller_CompressFile :: "log_os \<Rightarrow> string \<Rightarrow> log_world \<Rightarrow> bool \<times> log_world" where
  "controller_CompressFile os path w =
     (if \<not> l_gzip os then (False, w)
      else case lw_files w path of
        None \<Rightarrow> (False, w)
      | Some text \<Rightarrow>
          (True, set_file path None (set_file (path @ ''.gz'') (Some (l_gzip_text os text)) w)))"

definition controller_EndsWith :: "string \<Rightarrow> string \<Rightarrow> bool" where
  "controller_EndsWith value suffix =
     (if length value < length suffix then False
      else drop (length value - length suffix) value = suffix)"

text \<open>The loop over the directory, and the loop that removes the oldest entries.\<close>

fun controller_scan :: "string \<Rightarrow> (int \<times> string) list \<Rightarrow> string list \<Rightarrow> (int \<times> string) list" where
  "controller_scan suffix entries [] = entries"
| "controller_scan suffix entries (name # names) =
     (if \<not> controller_EndsWith name suffix then controller_scan suffix entries names
      else if CHR ''_'' \<notin> set name then controller_scan suffix entries names
      else
        let ts = read_timestamp (takeWhile (\<lambda>c. c \<noteq> CHR ''_'') name) in
        if ts \<le> 0 then controller_scan suffix entries names
        else controller_scan suffix (entries @ [(ts, name)]) names)"

fun controller_unlink_loop :: "log_os \<Rightarrow> string \<Rightarrow> (int \<times> string) list \<Rightarrow> log_world \<Rightarrow> log_world" where
  "controller_unlink_loop os dir [] w = w"
| "controller_unlink_loop os dir (e # es) w =
     (let path = dir @ ''/'' @ snd e in
      controller_unlink_loop os dir es (if l_unlink os path then set_file path None w else w))"

definition controller_CleanupOld :: "log_os \<Rightarrow> controller_logger \<Rightarrow> string \<Rightarrow> log_world \<Rightarrow> log_world" where
  "controller_CleanupOld os c suffix w =
     (case l_readdir os (lw_files w) (cl_dir c) of
        None \<Rightarrow> w
      | Some names \<Rightarrow>
          let entries = controller_scan suffix [] names in
          if length entries \<le> 10 then w
          else controller_unlink_loop os (cl_dir c) (take (length entries - 10) (sort entries)) w)"

definition controller_RotateIfNeeded ::
    "log_os \<Rightarrow> controller_logger \<Rightarrow> log_world \<Rightarrow> bool \<times> controller_logger \<times> log_world" where
  "controller_RotateIfNeeded os c w =
     (if \<not> cl_enabled c then (False, c, w)
      else case lw_files w (lf_path (cl_log c)) of
        None \<Rightarrow> (False, c, w)
      | Some text \<Rightarrow>
          if (word_of_nat (length text) :: u64) < cl_max_bytes c then (False, c, w)
          else
            let c = (if lf_open (cl_log c) then c\<lparr>cl_log := (cl_log c)\<lparr>lf_open := False\<rparr>\<rparr> else c);
                path = lf_path (cl_log c);
                rotated = controller_UniqueRotatedName os (lw_files w) c in
            if \<not> l_rename os then
              (False, c, report_stderr (''Failed to rotate log file '' @ path @ '': '' @ l_error os) w)
            else
              let w = set_file path None (set_file rotated (Some text) w) in
              (case controller_CompressFile os rotated w of (ok, w) \<Rightarrow>
                 let w = (if \<not> ok then report_stderr (''Failed to compress log file '' @ rotated) w else w);
                     w = controller_CleanupOld os c (''_'' @ lf_name (cl_log c) @ ''.gz'') w
                 in (True, c, w)))"

definition controller_WriteLine ::
    "log_os \<Rightarrow> controller_logger \<Rightarrow> log_world \<Rightarrow> string \<Rightarrow> bool \<times> controller_logger \<times> log_world" where
  "controller_WriteLine os c w line =
     (case controller_EnsureOpen os c w of (ok, c, w) \<Rightarrow>
      if \<not> ok then (False, c, w)
      else case controller_RotateIfNeeded os c w of (rotated, c, w) \<Rightarrow>
        case controller_EnsureOpen os c w of (ok, c, w) \<Rightarrow>
          if \<not> ok then (False, c, w)
          else
            let path = lf_path (cl_log c);
                written = min (l_fwrite os line) (length line);
                w = append_file path (take written line) w in
            if written \<noteq> length line then (False, c, w)
            else if \<not> l_fwrite_newline os then (False, c, w)
            else (True, c, append_file path [newline] w))"

fun LevelString :: "log_level \<Rightarrow> string" where
  "LevelString LOG_DEBUG = ''DEBUG''"
| "LevelString LOG_INFO = ''INFO''"
| "LevelString LOG_WARN = ''WARN''"
| "LevelString LOG_ERROR = ''ERROR''"

definition controller_NowString :: "log_os \<Rightarrow> string" where
  "controller_NowString os = (case l_localtime os of None \<Rightarrow> ''1970-01-01T00:00:00'' | Some s \<Rightarrow> s)"

definition controller_line :: "log_os \<Rightarrow> log_level \<Rightarrow> string \<Rightarrow> string" where
  "controller_line os level msg = ''ts='' @ controller_NowString os @ '' level='' @ LevelString level @ '' msg='' @ msg"

definition Log ::
    "log_os \<Rightarrow> controller_logger \<Rightarrow> log_world \<Rightarrow> log_level \<Rightarrow> string \<Rightarrow> bool \<times> controller_logger \<times> log_world" where
  "Log os c w level msg = controller_WriteLine os c w (controller_line os level msg)"

subsection \<open>The code of the two loggers agrees\<close>

lemma controller_helpers_agree:
  "controller_EnsureDirectory os dir w = EnsureDirectory report_stderr os dir w"
  "controller_EnsureOpen os c w =
     (case EnsureOpen report_stderr os (cl_enabled c) (cl_log c) w of
        (ok, log, w) \<Rightarrow> (ok, c\<lparr>cl_log := log\<rparr>, w))"
  "controller_CompressFile os path w = CompressFile os path w"
  by (auto simp: controller_EnsureDirectory_def EnsureDirectory_def controller_EnsureOpen_def EnsureOpen_def
      controller_CompressFile_def CompressFile_def Let_def)

lemma controller_NowString_eq [simp]: "controller_NowString os = NowString os"
  by (simp add: controller_NowString_def NowString_def)

lemma controller_UniqueRotatedName_eq:
  "controller_UniqueRotatedName os fs c = UniqueRotatedName os fs (cl_dir c) (lf_name (cl_log c))"
proof -
  have "controller_unique_loop fs c now i k cand = unique_loop fs (cl_dir c) now (lf_name (cl_log c)) i k cand"
    for now i k cand
    by (induction k arbitrary: i cand) (simp_all add: Let_def)
  then show ?thesis by (simp add: controller_UniqueRotatedName_def UniqueRotatedName_def Let_def)
qed

lemma controller_scan_eq:
  "controller_scan suffix entries names = entries @ List.map_filter (archive_entry suffix) names"
proof (induction names arbitrary: entries)
  case (Cons name names)
  have "controller_EndsWith name suffix = EndsWith name suffix"
    by (simp add: controller_EndsWith_def EndsWith_def)
  with Cons show ?case by (simp add: archive_entry_def List.map_filter_simps Let_def)
qed (simp add: List.map_filter_simps)

lemma controller_CleanupOld_eq: "controller_CleanupOld os c suffix w = CleanupOld os (cl_dir c) suffix w"
proof -
  have "controller_unlink_loop os dir es w = unlink_loop os dir es w" for dir es w
    by (induction es arbitrary: w) (simp_all add: Let_def)
  then show ?thesis
    by (simp add: controller_CleanupOld_def CleanupOld_def controller_scan_eq Let_def split: option.split)
qed

lemma controller_RotateIfNeeded_eq:
  "controller_RotateIfNeeded os c w =
     (case RotateIfNeeded report_stderr os (cl_enabled c) (cl_max_bytes c) (cl_dir c) (cl_log c) w of
        (ok, log, w) \<Rightarrow> (ok, c\<lparr>cl_log := log\<rparr>, w))"
  by (simp add: controller_RotateIfNeeded_def RotateIfNeeded_def controller_UniqueRotatedName_eq
      controller_CleanupOld_eq controller_helpers_agree Let_def split: option.split prod.split)

lemma controller_WriteLine_eq:
  "controller_WriteLine os c w line =
     (case WriteLine report_stderr os (cl_enabled c) (cl_max_bytes c) (cl_dir c) (cl_log c) w line of
        (ok, log, w) \<Rightarrow> (ok, c\<lparr>cl_log := log\<rparr>, w))"
proof -
  let ?open = "EnsureOpen report_stderr os (cl_enabled c)"
  obtain ok1 l1 w1 where 1: "?open (cl_log c) w = (ok1, l1, w1)" by (metis prod_cases3)
  obtain r l2 w2 where 2: "RotateIfNeeded report_stderr os (cl_enabled c) (cl_max_bytes c) (cl_dir c) l1 w1 = (r, l2, w2)"
    by (metis prod_cases3)
  obtain ok3 l3 w3 where 3: "?open l2 w2 = (ok3, l3, w3)" by (metis prod_cases3)
  show ?thesis
    by (simp add: controller_WriteLine_def WriteLine_def controller_helpers_agree
        controller_RotateIfNeeded_eq 1 2 3 Let_def)
qed

lemma quiet_stderr [simp]: "quiet report_stderr"
  by (simp add: quiet_def report_stderr_def)

subsection \<open>The log keeps the contract\<close>

type_synonym controller_state = "controller_logger \<times> log_world"
type_synonym message = "log_os \<times> log_level \<times> string"

definition put_message :: "controller_state \<Rightarrow> message \<Rightarrow> bool \<times> controller_state" where
  "put_message s m = (case m of (os, level, msg) \<Rightarrow> Log os (fst s) (snd s) level msg)"

definition message_line :: "message \<Rightarrow> string" where
  "message_line m = (case m of (os, level, msg) \<Rightarrow> controller_line os level msg)"

definition controller_text :: "controller_state \<Rightarrow> string" where
  "controller_text s = file_text_of (snd s) (lf_path (cl_log (fst s)))"

definition controller_limit :: "controller_state \<Rightarrow> nat" where
  "controller_limit s = unat (cl_max_bytes (fst s))"

definition controller_inv :: "controller_state \<Rightarrow> bool" where
  "controller_inv s \<longleftrightarrow> cl_enabled (fst s) \<and> log_ready (cl_dir (fst s)) (cl_log (fst s)) (snd s)"

definition message_fits :: "controller_state \<Rightarrow> message \<Rightarrow> bool" where
  "message_fits s m \<longleftrightarrow> line_fits (cl_max_bytes (fst s)) (fst m) (message_line m)"

lemma put_message_step:
  assumes "controller_inv s" "message_fits s m"
  shows "\<exists>s'. put_message s m = (True, s') \<and> controller_inv s' \<and>
    controller_text s' = (if controller_limit s \<le> length (controller_text s) then [] else controller_text s) @
      message_line m @ [newline] \<and>
    controller_limit s' = controller_limit s \<and> message_fits s' = message_fits s"
proof -
  obtain os level msg where m: "m = (os, level, msg)" by (metis prod.exhaust)
  have "log_ready (cl_dir (fst s)) (cl_log (fst s)) (snd s)" "cl_enabled (fst s)"
    "line_fits (cl_max_bytes (fst s)) os (controller_line os level msg)"
    using assms by (auto simp: controller_inv_def message_fits_def m message_line_def)
  from WriteLine_ready [OF quiet_stderr this(1,3)] this(2) show ?thesis
    by (auto simp: put_message_def m Log_def controller_WriteLine_eq controller_inv_def controller_text_def
        controller_limit_def message_fits_def message_line_def fun_eq_iff)
qed

interpretation ctl: line_log put_message message_line controller_text controller_limit controller_inv message_fits
  by unfold_locales (use put_message_step in fastforce)+

subsection \<open>The logging front end over the controller log\<close>

text \<open>
  \<open>LogInternal\<close> with the calls it makes on the attached controller logger carried out.
\<close>

type_synonym logging_state = "log_globals \<times> controller_state"

definition log_message :: "logging_state \<Rightarrow> message \<Rightarrow> logging_state" where
  "log_message s m = (case m of (os, level, msg) \<Rightarrow>
     (let g = LogInternal (fst s) level msg;
          calls = drop (length (controller_calls (fst s))) (controller_calls g)
      in (g, foldl (\<lambda>c (l, text'). snd (put_message c (os, l, text'))) (snd s) calls)))"

definition accepted :: "log_level \<Rightarrow> message list \<Rightarrow> message list" where
  "accepted threshold ms =
     map (\<lambda>(os, l, msg). (os, l, EscapeLogMessage msg)) (filter (\<lambda>(os, l, msg). threshold \<le> l) ms)"

lemma log_message_step:
  assumes "g_controller_attached g"
  shows "\<exists>g'. log_message (g, c) (os, l, msg) =
      (g', ctl.run c (accepted (g_log_level g) [(os, l, msg)])) \<and>
    g_controller_attached g' \<and> g_log_level g' = g_log_level g"
  using assms by (auto simp: log_message_def LogInternal_def accepted_def Let_def)

lemma log_messages_run:
  "g_controller_attached g \<Longrightarrow>
   snd (foldl log_message (g, c) ms) = ctl.run c (accepted (g_log_level g) ms)"
proof (induction ms arbitrary: g c)
  case (Cons m ms)
  obtain os l msg where m: "m = (os, l, msg)" by (metis prod.exhaust)
  from log_message_step [OF Cons.prems, of c os l msg] obtain g' where
    "log_message (g, c) m = (g', ctl.run c (accepted (g_log_level g) [m]))"
    "g_controller_attached g'" "g_log_level g' = g_log_level g" unfolding m by blast
  with Cons.IH [of g'] show ?case by (simp add: m accepted_def ctl.run_def)
qed (simp add: accepted_def)

lemma newline_not_in_Escape: "newline \<notin> set (EscapeLogMessage msg)"
  by (auto simp: EscapeLogMessage_def)

lemma line_of_delivered:
  "m \<in> set (accepted t ms) \<Longrightarrow> \<forall>m\<in>set ms. newline \<notin> set (NowString (fst m)) \<Longrightarrow>
   newline \<notin> set (message_line m)"
proof -
  assume "m \<in> set (accepted t ms)" "\<forall>m\<in>set ms. newline \<notin> set (NowString (fst m))"
  then obtain os l msg where m: "m = (os, l, EscapeLogMessage msg)" "newline \<notin> set (NowString os)"
    by (auto simp: accepted_def)
  have "newline \<notin> set (LevelString l)" by (cases l) simp_all
  with m show ?thesis
    by (simp add: message_line_def controller_line_def newline_not_in_Escape)
qed

subsection \<open>Properties\<close>

text \<open>
  C34: One line per message. When the controller logger is attached and its system calls succeed,
  then after any sequence of messages the controller log, empty at first, consists of the lines of
  the last of those at or above the log level, whole, in order and one line per message: no line
  holds a line break, whatever the messages hold. The latest such message is always there; earlier
  ones are missing only if those just before the first one kept had filled the log to its limit.
\<close>

theorem controller_log_one_line_per_message:
  assumes "g_controller_attached g" "controller_inv c" "controller_text c = []"
    and "list_all (message_fits c) (accepted (g_log_level g) ms)"
    and "\<forall>m\<in>set ms. newline \<notin> set (NowString (fst m))"
  shows "\<exists>k. (accepted (g_log_level g) ms \<noteq> [] \<longrightarrow> k < length (accepted (g_log_level g) ms)) \<and>
    controller_text (snd (foldl log_message (g, c) ms)) =
      concat (map (\<lambda>m. message_line m @ [newline]) (drop k (accepted (g_log_level g) ms))) \<and>
    length (filter (\<lambda>ch. ch = newline) (controller_text (snd (foldl log_message (g, c) ms)))) =
      length (accepted (g_log_level g) ms) - k \<and>
    (k = 0 \<or> (\<exists>i<k. controller_limit c \<le> length (concat (map (\<lambda>m. message_line m @ [newline])
      (drop i (take k (accepted (g_log_level g) ms)))))))"
proof -
  let ?d = "accepted (g_log_level g) ms"
  have "length (filter (\<lambda>ch. ch = newline) (concat (map (\<lambda>m. message_line m @ [newline]) xs))) = length xs"
    if "set xs \<subseteq> set ?d" for xs
    using that
  proof (induction xs)
    case (Cons m xs)
    then have "filter (\<lambda>ch. ch = newline) (message_line m) = []"
      using line_of_delivered [OF _ assms(5), of m] by (auto simp: filter_empty_conv)
    with Cons show ?case by simp
  qed simp
  from this [OF set_drop_subset] have
    "length (filter (\<lambda>ch. ch = newline) (concat (map (\<lambda>m. message_line m @ [newline]) (drop k ?d)))) =
      length ?d - k" for k by simp
  with ctl.run_recent_lines [OF assms(2,4,3)] show ?thesis
    unfolding log_messages_run [OF assms(1)] by (elim ex_forward) simp
qed

definition sample_messages :: "message list" where
  "sample_messages = [(sample_log_os 7, LOG_INFO, ''a'' @ [newline] @ ''b''), (sample_log_os 8, LOG_DEBUG, ''c'')]"

theorem controller_log_one_line_per_message_witness:
  "controller_text (snd (foldl log_message
      (SetLogLevel (SetControllerLogger initial_log_globals True) LOG_INFO,
       new_controller_logger (sample_log_os 7) ''d'' 100 empty_log_world) sample_messages)) =
     message_line (sample_log_os 7, LOG_INFO, ''a b'') @ [newline]"
proof -
  let ?g = "SetLogLevel (SetControllerLogger initial_log_globals True) LOG_INFO"
  let ?c = "new_controller_logger (sample_log_os 7) ''d'' 100 empty_log_world"
  have d: "accepted (g_log_level ?g) sample_messages = [(sample_log_os 7, LOG_INFO, ''a b'')]"
    by (simp add: SetLogLevel_def accepted_def sample_messages_def level_order_simps EscapeLogMessage_def)
  have "g_controller_attached ?g" "controller_inv ?c" "controller_text ?c = []"
    "list_all (message_fits ?c) (accepted (g_log_level ?g) sample_messages)"
    "\<forall>m\<in>set sample_messages. newline \<notin> set (NowString (fst m))"
    unfolding d
    by (simp_all add: SetLogLevel_def SetControllerLogger_def new_controller_logger_def controller_EnsureDirectory_def EnsureDirectory_def
        empty_log_world_def controller_inv_def log_ready_def file_text_of_def controller_text_def
        message_fits_def line_fits_def writable_def sample_log_os_def message_line_def controller_line_def
        NowString_def sample_messages_def)
  from controller_log_one_line_per_message [OF this] show ?thesis unfolding d by auto
qed

end
