(* ===== verification/Dns_Server.thy ===== *)
theory Dns_Server
  imports Blocklist Cache_Laws Local_Records Dns_Rebind Upstream_Resolver Query_Logger
begin

text \<open>
  \<open>DnsServer\<close> (\<open>src/dns_server.cpp\<close>): how one query is answered. The sources are asked in
  the order blocklist, local records, cache, DNS-over-TLS, UDP; what comes from an upstream passes
  rebind protection and is put into the cache; the answer is sent and the query is logged with
  the name of the client, which is found by a lookup of its own.

  The server's parts are the models of the other theories. What a query meets outside (clock
  readings, \<open>inet_pton\<close>, \<open>inet_ntop\<close>, the upstream) is the record \<open>query_env\<close>. A result \<open>None\<close>
  stands for a lookup that is still waiting for a DNS-over-TLS server; undefined behaviour is
  shown not to arise. The threads are in theory \<open>Worker_Pool\<close>.
\<close>

subsection \<open>Helpers\<close>

definition MakeCacheKey :: "string \<Rightarrow> u16 \<Rightarrow> string" where
  "MakeCacheKey name q =
     (let key = ToLower name;
          key = (if key \<noteq> [] \<and> last key = CHR ''.'' then butlast key else key)
      in key @ ''|'' @ decimal (unat q))"

definition QTypeToString :: "u16 \<Rightarrow> string" where
  "QTypeToString t =
     (if t = DNS_TYPE_A then ''A''
      else if t = DNS_TYPE_AAAA then ''AAAA''
      else if t = DNS_TYPE_CNAME then ''CNAME''
      else if t = DNS_TYPE_PTR then ''PTR''
      else if t = DNS_TYPE_MX then ''MX''
      else if t = DNS_TYPE_TXT then ''TXT''
      else ''TYPE'' @ decimal (unat t))"

text \<open>The preference and the exchange.\<close>

definition ParseMxValue :: "string \<Rightarrow> u16 \<times> string" where
  "ParseMxValue value =
     (case extract_ulong value of
        (None, rest) \<Rightarrow> (10, Trim value)
      | (Some parsed_pref, rest) \<Rightarrow>
          (case extract_word rest of
             (None, rest) \<Rightarrow> (10, Trim value)
           | (Some parsed_target, rest) \<Rightarrow>
               ((if parsed_pref \<le> 65535 then ucast parsed_pref else 10), parsed_target)))"

subsection \<open>The server\<close>

text \<open>The address and the port of a client, as the socket call gives them.\<close>

type_synonym client = "bytes \<times> u16"

datatype ResolveSource =
  RESOLVE_BLOCKLIST | RESOLVE_LOCAL | RESOLVE_CACHE | RESOLVE_UPSTREAM | RESOLVE_NONE

record ResolveResult =
  rr_response :: bytes
  rr_source :: ResolveSource
  rr_upstream :: string

record job =
  job_packet :: bytes
  job_client :: client

text \<open>\<open>srv_sent\<close> are the datagrams passed to \<open>sendto\<close>; its result is ignored by the code.\<close>

record dns_server =
  srv_config :: ServerConfig
  srv_blocklist :: "blocklist option"
  srv_local :: local_records
  srv_cache :: "dns_cache option"
  srv_resolver :: upstream_resolver
  srv_logger :: "query_logger option"
  srv_net :: net
  srv_files :: log_world
  srv_sent :: "(client \<times> bytes) list"

record query_env =
  e_pton4 :: "string \<Rightarrow> bytes option"
  e_pton6 :: "string \<Rightarrow> bytes option"
  e_ntop :: "client \<Rightarrow> string option"
  e_get_time :: int
  e_put_time :: int
  e_expiry_time :: int
  e_dot :: dot_env
  e_udp :: udp_env
  e_log :: log_os

definition new_server ::
    "ServerConfig \<Rightarrow> blocklist option \<Rightarrow> local_records \<Rightarrow> dns_cache option \<Rightarrow> upstream_resolver \<Rightarrow>
     query_logger option \<Rightarrow> net \<Rightarrow> log_world \<Rightarrow> dns_server" where
  "new_server config b l c r logger n w =
     \<lparr>srv_config = config, srv_blocklist = b, srv_local = l, srv_cache = c, srv_resolver = r,
      srv_logger = logger, srv_net = n, srv_files = w, srv_sent = []\<rparr>"

definition debug :: "dns_server \<Rightarrow> string \<Rightarrow> dns_server" where
  "debug s m = s\<lparr>srv_net := say (srv_net s) m\<rparr>"

subsection \<open>Answering a question\<close>

definition answer_blocked :: "query_env \<Rightarrow> DnsHeader \<Rightarrow> DnsQuestion \<Rightarrow> bytes" where
  "answer_blocked e header question =
     (if qtype question = DNS_TYPE_A then BuildAResponse (e_pton4 e) header question ''0.0.0.0''
      else if qtype question = DNS_TYPE_AAAA then BuildAAAAResponse (e_pton6 e) header question ''::1''
      else BuildEmptyResponse header question)"

definition answer_local :: "query_env \<Rightarrow> DnsHeader \<Rightarrow> DnsQuestion \<Rightarrow> string \<Rightarrow> u16 \<Rightarrow> bytes" where
  "answer_local e header question local_value local_type =
     (if local_type = DNS_TYPE_A then BuildAResponse (e_pton4 e) header question local_value
      else if local_type = DNS_TYPE_AAAA then BuildAAAAResponse (e_pton6 e) header question local_value
      else if local_type = DNS_TYPE_CNAME then BuildCNAMEResponse header question local_value
      else if local_type = DNS_TYPE_PTR then BuildPTRResponse header question local_value
      else if local_type = DNS_TYPE_TXT then BuildTXTResponse header question local_value
      else if local_type = DNS_TYPE_MX then
        (case ParseMxValue local_value of (pref, mx) \<Rightarrow> BuildMXResponse header question pref mx)
      else [])"

text \<open>The response and the upstream's name.\<close>

definition ask_upstream ::
    "query_env \<Rightarrow> dns_server \<Rightarrow> bytes \<Rightarrow> DnsHeader \<Rightarrow> DnsQuestion \<Rightarrow> (bytes \<times> string \<times> dns_server) option" where
  "ask_upstream e s packet header question =
     (case ResolveDot (e_dot e) (srv_resolver s) (srv_net s) packet ([], []) of
        None \<Rightarrow> None
      | Some (True, (response, upstream), n) \<Rightarrow>
          Some (response, upstream, debug (s\<lparr>srv_net := n\<rparr>) ''DoT resolution success'')
      | Some (False, out, n) \<Rightarrow>
          (case ResolveUdp (e_udp e) (srv_resolver s) n packet out of
             (True, (response, upstream), n) \<Rightarrow>
               Some (response, upstream, debug (s\<lparr>srv_net := n\<rparr>) ''Upstream resolution success'')
           | (False, (response, upstream), n) \<Rightarrow>
               Some (BuildEmptyResponse header question, upstream,
                     debug (s\<lparr>srv_net := n\<rparr>) ''Upstream resolution failed'')))"

definition protect ::
    "dns_server \<Rightarrow> DnsHeader \<Rightarrow> DnsQuestion \<Rightarrow> bytes \<Rightarrow> (bytes \<times> dns_server) option" where
  "protect s header question response =
     (if response \<noteq> [] \<and> rebind_protection (srv_config s) then
        (case RewritePrivateARecordsToZero response False of
           None \<Rightarrow> None
         | Some (ok, response, rewritten) \<Rightarrow>
             if \<not> ok then
               Some (BuildEmptyResponse header question,
                     debug s ''Upstream response parse failed during rebind protection'')
             else if rewritten then
               Some (response, debug s ''Rebind protection rewrote upstream private A record(s) to 0.0.0.0'')
             else Some (response, s))
      else Some (response, s))"

definition cache_lookup :: "query_env \<Rightarrow> dns_server \<Rightarrow> string \<Rightarrow> bytes option \<times> dns_server" where
  "cache_lookup e s key =
     (case srv_cache s of
        None \<Rightarrow> (None, s)
      | Some c \<Rightarrow>
          (case cache_get (e_get_time e) c key of
             (Some cached, c) \<Rightarrow> (Some cached, debug (s\<lparr>srv_cache := Some c\<rparr>) ''Cache hit'')
           | (None, c) \<Rightarrow> (None, debug (s\<lparr>srv_cache := Some c\<rparr>) ''Cache miss'')))"

definition cache_store :: "query_env \<Rightarrow> dns_server \<Rightarrow> string \<Rightarrow> bytes \<Rightarrow> dns_server" where
  "cache_store e s key response =
     (case srv_cache s of
        None \<Rightarrow> s
      | Some c \<Rightarrow>
          if response = [] then s
          else s\<lparr>srv_cache := Some (cache_put (e_put_time e) (e_expiry_time e) c key response)\<rparr>)"

text \<open>
  \<open>ResolveQuery\<close> as its callers use it, with an output parameter that is not null: it returns
  true with the result.
\<close>

definition ResolveQuery ::
    "query_env \<Rightarrow> dns_server \<Rightarrow> bytes \<Rightarrow> DnsHeader \<Rightarrow> DnsQuestion \<Rightarrow> (ResolveResult \<times> dns_server) option" where
  "ResolveQuery e s packet header question =
     (if (case srv_blocklist s of None \<Rightarrow> False | Some b \<Rightarrow> IsBlocked b (qname question)) then
        Some (\<lparr>rr_response = answer_blocked e header question, rr_source = RESOLVE_BLOCKLIST,
               rr_upstream = []\<rparr>, debug s ''Blocklist match'')
      else
        (case Resolve (srv_local s) (qname question) (qtype question) of
           Some (local_value, local_type) \<Rightarrow>
             Some (\<lparr>rr_response = answer_local e header question local_value local_type,
                    rr_source = RESOLVE_LOCAL, rr_upstream = []\<rparr>, debug s ''Local record match'')
         | None \<Rightarrow>
             let key = MakeCacheKey (qname question) (qtype question) in
             (case cache_lookup e s key of
                (Some cached, s) \<Rightarrow>
                  Some (\<lparr>rr_response = cached, rr_source = RESOLVE_CACHE, rr_upstream = []\<rparr>, s)
              | (None, s) \<Rightarrow> do {
                  (response, upstream, s) \<leftarrow> ask_upstream e s packet header question;
                  (response, s) \<leftarrow> protect s header question response;
                  Some (\<lparr>rr_response = response, rr_source = RESOLVE_UPSTREAM, rr_upstream = upstream\<rparr>,
                        cache_store e s key response)
                })))"

subsection \<open>The name of the client\<close>

text \<open>The loop over the labels of the name is that of \<open>WriteQName\<close>.\<close>

definition ptr_query :: "string \<Rightarrow> bytes" where
  "ptr_query name =
     (let i = (0x4242 :: u16) in
      [ucast (drop_bit 8 i AND 0xFF), ucast (i AND 0xFF), 0x01, 0x00, 0x00, 0x01, 0x00, 0x00, 0x00, 0x00, 0x00, 0x00] @
      WriteLabels name @ [0, 0x00, ucast DNS_TYPE_PTR, 0x00, 0x01])"

definition reverse_name :: "string list \<Rightarrow> string" where
  "reverse_name parts =
     parts ! 3 @ ''.'' @ parts ! 2 @ ''.'' @ parts ! 1 @ ''.'' @ parts ! 0 @ ''.in-addr.arpa''"

definition ResolveClientName :: "query_env \<Rightarrow> dns_server \<Rightarrow> client \<Rightarrow> (string \<times> dns_server) option" where
  "ResolveClientName e s client =
     (case e_ntop e client of
        None \<Rightarrow> Some (''-'', s)
      | Some addr_str \<Rightarrow>
          let parts = Split addr_str CHR ''.'' in
          if length parts \<noteq> 4 then Some (''-'', s)
          else let query = ptr_query (reverse_name parts) in
            do {
              parsed \<leftarrow> ParseDnsQuery query;
              case parsed of
                None \<Rightarrow> Some (''-'', s)
              | Some (header, question) \<Rightarrow> do {
                  (result, s) \<leftarrow> ResolveQuery e s query header question;
                  target \<leftarrow> ExtractFirstPtrTarget (rr_response result);
                  case target of
                    None \<Rightarrow> Some (''-'', s)
                  | Some ptr_name \<Rightarrow> if ptr_name = [] then Some (''-'', s) else Some (ptr_name, s)
                }
            })"

subsection \<open>Handling a query\<close>

text \<open>The logger writes errors to the same process log as the rest.\<close>

definition with_files ::
    "dns_server \<Rightarrow> (log_world \<Rightarrow> bool \<times> query_logger \<times> log_world) \<Rightarrow> dns_server" where
  "with_files s put =
     (case put ((srv_files s)\<lparr>lw_log := net_log (srv_net s)\<rparr>) of (ok, logger, w) \<Rightarrow>
        s\<lparr>srv_logger := Some logger, srv_files := w, srv_net := (srv_net s)\<lparr>net_log := lw_log w\<rparr>\<rparr>)"

definition log_query ::
    "query_env \<Rightarrow> dns_server \<Rightarrow> query_logger \<Rightarrow> string \<Rightarrow> string \<Rightarrow> DnsQuestion \<Rightarrow> ResolveResult \<Rightarrow> dns_server" where
  "log_query e s logger client_ip client_name question result =
     (let type = QTypeToString (qtype question) in
      if rr_source result = RESOLVE_BLOCKLIST then
        with_files s (\<lambda>w. LogBlock (e_log e) logger w client_ip client_name (qname question) type)
      else
        let resolved_by =
              (if rr_source result = RESOLVE_LOCAL then ''local''
               else if rr_source result = RESOLVE_CACHE then ''cache''
               else ''external'')
        in with_files s (\<lambda>w. LogPass (e_log e) logger w client_ip client_name (qname question) type
                               resolved_by (rr_upstream result)))"

definition send_response :: "dns_server \<Rightarrow> client \<Rightarrow> DnsHeader \<Rightarrow> ResolveResult \<Rightarrow> dns_server" where
  "send_response s client header result =
     (if rr_response result \<noteq> [] then
        let response = (if rr_source result = RESOLVE_CACHE
                        then PatchResponseId (rr_response result) (hdr_id header) else rr_response result)
        in s\<lparr>srv_sent := srv_sent s @ [(client, response)]\<rparr>
      else s)"

text \<open>The second environment is that of the lookup of the client's name.\<close>

definition HandleQuery ::
    "query_env \<Rightarrow> query_env \<Rightarrow> dns_server \<Rightarrow> bytes \<Rightarrow> client \<Rightarrow> (bool \<times> dns_server) option" where
  "HandleQuery e e' s packet client = do {
     parsed \<leftarrow> ParseDnsQuery packet;
     case parsed of
       None \<Rightarrow> Some (False, debug s ''Failed to parse DNS query'')
     | Some (header, question) \<Rightarrow> do {
         let s = (if DebugEnabled (net_log (srv_net s))
                  then debug s (''Query: '' @ qname question @ '' '' @ QTypeToString (qtype question))
                  else s);
         (result, s) \<leftarrow> ResolveQuery e s packet header question;
         let s = send_response s client header result;
         case srv_logger s of
           None \<Rightarrow> Some (True, s)
         | Some logger \<Rightarrow> do {
             let client_ip = (case e_ntop e client of None \<Rightarrow> ''unknown'' | Some a \<Rightarrow> a);
             (client_name, s) \<leftarrow> ResolveClientName e' s client;
             Some (True, log_query e s logger client_ip client_name question result)
           }
       }
   }"

end
