(* ===== verification/Server_Laws.thy ===== *)
theory Server_Laws
  imports Dns_Server Resolver_Laws Dns_Responses
begin

text \<open>
  Properties of the answers of \<open>DnsServer\<close>: which source answers a query, and the notions of a
  clean packet and of a well-formed server state that the later theories use.
\<close>

subsection \<open>Keys\<close>

lemma MakeCacheKey_eq: "MakeCacheKey = MakeKey"
  by (intro ext) (simp add: MakeCacheKey_def MakeKey_def strip_final_dot_def Let_def)

interpretation cache_key: lookup_key MakeCacheKey
  unfolding MakeCacheKey_eq by (rule local_key.lookup_key_axioms)

subsection \<open>The cases of a lookup\<close>

definition blocked_name :: "dns_server \<Rightarrow> string \<Rightarrow> bool" where
  "blocked_name s name \<longleftrightarrow> (case srv_blocklist s of None \<Rightarrow> False | Some b \<Rightarrow> IsBlocked b name)"

definition cached_answer :: "query_env \<Rightarrow> dns_server \<Rightarrow> DnsQuestion \<Rightarrow> bytes option" where
  "cached_answer e s q =
     (case srv_cache s of
        None \<Rightarrow> None
      | Some c \<Rightarrow> fst (cache_get (e_get_time e) c (MakeCacheKey (qname q) (qtype q))))"

lemma debug_simps [simp]:
  "srv_config (debug s m) = srv_config s" "srv_blocklist (debug s m) = srv_blocklist s"
  "srv_local (debug s m) = srv_local s" "srv_cache (debug s m) = srv_cache s"
  "srv_resolver (debug s m) = srv_resolver s" "srv_logger (debug s m) = srv_logger s"
  "srv_files (debug s m) = srv_files s" "srv_sent (debug s m) = srv_sent s"
  "udp_sent (srv_net (debug s m)) = udp_sent (srv_net s)"
  "dot_sent (srv_net (debug s m)) = dot_sent (srv_net s)"
  "resources (srv_net (debug s m)) = resources (srv_net s)"
  by (simp_all add: debug_def say_def resources_def)

text \<open>What the parts of a lookup leave alone: everything but the cache and the network.\<close>

definition same_setup :: "dns_server \<Rightarrow> dns_server \<Rightarrow> bool" where
  "same_setup s s' \<longleftrightarrow>
     srv_config s' = srv_config s \<and> srv_blocklist s' = srv_blocklist s \<and> srv_local s' = srv_local s \<and>
     srv_resolver s' = srv_resolver s \<and> srv_logger s' = srv_logger s \<and> srv_files s' = srv_files s \<and>
     srv_sent s' = srv_sent s"

lemma cache_lookup_result:
  "cache_lookup e s (MakeCacheKey (qname q) (qtype q)) = (r, s') \<Longrightarrow>
   r = cached_answer e s q \<and> same_setup s s' \<and>
   udp_sent (srv_net s') = udp_sent (srv_net s) \<and> dot_sent (srv_net s') = dot_sent (srv_net s) \<and>
   resources (srv_net s') = resources (srv_net s) \<and>
   srv_cache s' = map_option (\<lambda>c. snd (cache_get (e_get_time e) c (MakeCacheKey (qname q) (qtype q)))) (srv_cache s)"
  by (auto simp: cache_lookup_def cached_answer_def same_setup_def debug_def say_def resources_def
      split: option.splits prod.splits)

lemma ask_upstream_setup:
  "ask_upstream e s packet h q = Some (resp, up, s') \<Longrightarrow>
   same_setup s s' \<and> srv_cache s' = srv_cache s \<and> resources (srv_net s') = resources (srv_net s)"
  using ResolveUdp_resources ResolveDot_resources
  by (fastforce simp: ask_upstream_def same_setup_def split: option.splits prod.splits bool.splits)

lemma protect_setup:
  "protect s h q resp = Some (resp', s') \<Longrightarrow>
   same_setup s s' \<and> srv_cache s' = srv_cache s \<and> resources (srv_net s') = resources (srv_net s)"
  by (auto simp: protect_def same_setup_def split: option.splits prod.splits if_splits)

lemma protect_defined: "protect s h q resp \<noteq> None"
  by (auto simp: protect_def simp del: not_None_eq split: option.split)

lemma cache_store_simps [simp]:
  "same_setup s (cache_store e s k r)" "srv_net (cache_store e s k r) = srv_net s"
  "srv_cache (cache_store e s k r) =
     (if r = [] then srv_cache s
      else map_option (\<lambda>c. cache_put (e_put_time e) (e_expiry_time e) c k r) (srv_cache s))"
  by (auto simp: cache_store_def same_setup_def split: option.split)

lemma same_setup_trans [trans]: "same_setup a b \<Longrightarrow> same_setup b c \<Longrightarrow> same_setup a c"
  by (simp add: same_setup_def)

text \<open>The four ways a lookup ends.\<close>

lemma ResolveQuery_cases [consumes 1, case_names blocked local cached upstream]:
  assumes "ResolveQuery e s packet h q = Some (r, s')"
  obtains
    "blocked_name s (qname q)" "rr_source r = RESOLVE_BLOCKLIST" "rr_response r = answer_blocked e h q"
      "s' = debug s ''Blocklist match''"
  | v t where "\<not> blocked_name s (qname q)" "Resolve (srv_local s) (qname q) (qtype q) = Some (v, t)"
      "rr_source r = RESOLVE_LOCAL" "rr_response r = answer_local e h q v t"
      "s' = debug s ''Local record match''"
  | c where "\<not> blocked_name s (qname q)" "Resolve (srv_local s) (qname q) (qtype q) = None"
      "cached_answer e s q = Some c" "rr_source r = RESOLVE_CACHE" "rr_response r = c"
      "cache_lookup e s (MakeCacheKey (qname q) (qtype q)) = (Some c, s')"
  | s1 s2 s3 resp up resp' where "\<not> blocked_name s (qname q)" "Resolve (srv_local s) (qname q) (qtype q) = None"
      "cached_answer e s q = None" "rr_source r = RESOLVE_UPSTREAM" "rr_response r = resp'"
      "cache_lookup e s (MakeCacheKey (qname q) (qtype q)) = (None, s1)"
      "ask_upstream e s1 packet h q = Some (resp, up, s2)" "protect s2 h q resp = Some (resp', s3)"
      "s' = cache_store e s3 (MakeCacheKey (qname q) (qtype q)) resp'"
proof -
  let ?key = "MakeCacheKey (qname q) (qtype q)"
  show thesis
  proof (cases "blocked_name s (qname q)")
    case True
    with assms that(1) show ?thesis by (auto simp: ResolveQuery_def blocked_name_def)
  next
    case nb: False
    then have b: "\<not> (case srv_blocklist s of None \<Rightarrow> False | Some b \<Rightarrow> IsBlocked b (qname q))"
      by (simp add: blocked_name_def)
    show ?thesis
    proof (cases "Resolve (srv_local s) (qname q) (qtype q)")
      case (Some vt)
      with assms nb b that(2) show ?thesis by (cases vt) (auto simp: ResolveQuery_def)
    next
      case None
      obtain c s1 where l: "cache_lookup e s ?key = (c, s1)" by (cases "cache_lookup e s ?key")
      then have c: "cached_answer e s q = c" using cache_lookup_result by metis
      show ?thesis
      proof (cases c)
        case (Some a)
        with assms None b nb l c that(3) show ?thesis by (auto simp: ResolveQuery_def Let_def)
      next
        case n: None
        with assms None b l obtain resp up s2 where
          a: "ask_upstream e s1 packet h q = Some (resp, up, s2)"
          by (auto simp: ResolveQuery_def Let_def split: Option.bind_splits)
        obtain resp' s3 where p: "protect s2 h q resp = Some (resp', s3)"
          using protect_defined [of s2 h q resp] by auto
        from assms None b l n a p
        have "rr_source r = RESOLVE_UPSTREAM" "rr_response r = resp'" "s' = cache_store e s3 ?key resp'"
          by (auto simp: ResolveQuery_def Let_def)
        with that(4) [OF nb None _ _ _ _ a p] c l n show ?thesis by auto
      qed
    qed
  qed
qed

lemma ResolveQuery_frame:
  assumes "ResolveQuery e s packet h q = Some (r, s')"
  shows "same_setup s s' \<and> resources (srv_net s') = resources (srv_net s)"
  using assms
proof (cases rule: ResolveQuery_cases)
  case (cached c)
  from cache_lookup_result [OF cached(6)] show ?thesis by simp
next
  case (upstream s1 s2 s3 resp up resp')
  have "same_setup s s1" using cache_lookup_result [OF upstream(6)] by simp
  also have "same_setup s1 s2" using ask_upstream_setup [OF upstream(7)] by simp
  also have "same_setup s2 s3" using protect_setup [OF upstream(8)] by simp
  also have "same_setup s3 s'" by (simp add: upstream(9))
  finally show ?thesis
    using cache_lookup_result [OF upstream(6)] ask_upstream_setup [OF upstream(7)]
      protect_setup [OF upstream(8)] by (simp add: upstream(9))
qed (simp_all add: same_setup_def)

text \<open>
  C12: The sources are asked in order. A lookup is answered by the blocklist when the name is
  blocked, else by a local record when there is one, else by the cache when it has a live answer,
  and by an upstream otherwise; unless the answer comes from an upstream, nothing is sent to one,
  and blocked names and local names do not touch the cache.
\<close>

theorem sources_in_order:
  assumes "ResolveQuery e s packet h q = Some (r, s')"
  shows "rr_source r =
      (if blocked_name s (qname q) then RESOLVE_BLOCKLIST
       else if Resolve (srv_local s) (qname q) (qtype q) \<noteq> None then RESOLVE_LOCAL
       else if cached_answer e s q \<noteq> None then RESOLVE_CACHE
       else RESOLVE_UPSTREAM) \<and>
    (rr_source r \<noteq> RESOLVE_UPSTREAM \<longrightarrow>
       udp_sent (srv_net s') = udp_sent (srv_net s) \<and> dot_sent (srv_net s') = dot_sent (srv_net s)) \<and>
    (rr_source r \<in> {RESOLVE_BLOCKLIST, RESOLVE_LOCAL} \<longrightarrow> srv_cache s' = srv_cache s)"
  using assms
proof (cases rule: ResolveQuery_cases)
  case (cached c)
  from cache_lookup_result [OF cached(6)] cached show ?thesis by simp
qed simp_all

definition sample_query_env :: "int \<Rightarrow> bytes \<Rightarrow> query_env" where
  "sample_query_env t answer =
     \<lparr>e_pton4 = (\<lambda>a. if a = ''0.0.0.0'' then Some [0, 0, 0, 0] else None), e_pton6 = (\<lambda>a. None),
      e_ntop = (\<lambda>c. Some ''10.0.0.7''), e_get_time = t, e_put_time = t, e_expiry_time = t,
      e_dot = sample_dot_env,
      e_udp = \<lparr>u_socket = True, u_pton = (\<lambda>a. Some [9, 9, 9, 9]), u_sendto = True, u_ready = True,
               u_recv = Some answer, u_error = []\<rparr>,
      e_log = sample_log_os t\<rparr>"

definition sample_server :: dns_server where
  "sample_server = new_server default_config (Some sample_blocklist) (Load no_records two_records)
     (Some (new_cache 4096 60)) (SetUdpServers new_resolver [''9.9.9.9'']) None initial_net empty_log_world"

definition lookup_header :: DnsHeader where
  "lookup_header = \<lparr>hdr_id = 7, hdr_flags = 0x0100, hdr_qdcount = 1, hdr_ancount = 0, hdr_nscount = 0, hdr_arcount = 0\<rparr>"

definition ask_for :: "string \<Rightarrow> DnsQuestion" where
  "ask_for name = \<lparr>qname = name, qtype = 1, qclass = 1, raw_offset = 12, raw_length = 10\<rparr>"

definition sample_lookup :: "string \<Rightarrow> (ResolveResult \<times> dns_server) option" where
  "sample_lookup name = ResolveQuery (sample_query_env 100 (private_packet 10 1)) sample_server [1, 2] lookup_header (ask_for name)"

lemma sample_lookup_upstream:
  "map_option (\<lambda>(r, s'). (rr_source r, rr_response r, udp_sent (srv_net s'))) (sample_lookup ''ab.c'') =
     Some (RESOLVE_UPSTREAM, take 38 (private_packet 10 1) @ [0, 0, 0, 0], [([9, 9, 9, 9], [1, 2])])"
  by code_simp

theorem sources_in_order_witness:
  "\<exists>r s'. sample_lookup ''www.ads.example'' = Some (r, s') \<and> rr_source r = RESOLVE_BLOCKLIST \<and>
     udp_sent (srv_net s') = []"
proof -
  have b: "blocked_name sample_server ''www.ads.example''" by code_simp
  have "sample_lookup ''www.ads.example'' \<noteq> None" by code_simp
  then obtain r s' where l: "sample_lookup ''www.ads.example'' = Some (r, s')" by auto
  have "udp_sent (srv_net sample_server) = []" by code_simp
  with sources_in_order [OF l [unfolded sample_lookup_def]] b l show ?thesis by (auto simp: ask_for_def)
qed

subsection \<open>Rebind protection of answers\<close>

definition rebind_clean :: "bytes \<Rightarrow> bool" where
  "rebind_clean p \<longleftrightarrow> (\<forall>rs. record_layout p = Some rs \<longrightarrow> (\<forall>r\<in>set rs. \<not> private_record p r))"

text \<open>What may be stored: not empty, and clean when rebind protection is on.\<close>

definition good_response :: "bool \<Rightarrow> bytes \<Rightarrow> bool" where
  "good_response protected r \<longleftrightarrow> r \<noteq> [] \<and> (protected \<longrightarrow> rebind_clean r)"

definition cache_clean :: "bool \<Rightarrow> dns_cache \<Rightarrow> bool" where
  "cache_clean protected c \<longleftrightarrow> (\<forall>k r x. cache_stored c k = Some (r, x) \<longrightarrow> good_response protected r)"

lemma empty_response_clean: "rebind_clean (BuildEmptyResponse h q)"
proof -
  let ?p = "BuildEmptyResponse h q"
  have p: "?p = BuildResponseHeader h 1 0 @ encode_question q"
    by (simp add: BuildEmptyResponse_def AppendQuestion_eq)
  have "u16_at ?p 6 = 0" "u16_at ?p 8 = 0" "u16_at ?p 10 = 0"
    using header_fields(4-6) [of h 1 0, THEN ReadU16_SomeD] by (simp_all add: p)
  then show ?thesis
    by (auto simp: rebind_clean_def record_layout_def record_count_def split: if_splits option.splits)
qed

lemma short_clean: "length p < 12 \<Longrightarrow> rebind_clean p"
  by (simp add: rebind_clean_def record_layout_def)

lemma protect_clean:
  assumes "rebind_protection (srv_config s)" "protect s h q resp = Some (resp', s')"
  shows "rebind_clean resp'"
proof -
  have "rebind_clean p" if "RewritePrivateARecordsToZero resp False = Some (True, p, w)" for p w
    using rewrite_layout [OF that] unfolding rebind_clean_def by (metis option.inject)
  then show ?thesis
    using assms empty_response_clean
    by (auto simp: protect_def short_clean split: if_splits option.splits)
qed

text \<open>The transaction id is outside every record.\<close>

lemma record_layout_frame:
  assumes "record_layout p = Some rs" "length q = length p" "\<And>i. 4 \<le> i \<Longrightarrow> i < length p \<Longrightarrow> q ! i = p ! i"
  shows "record_layout q = Some rs \<and> (\<forall>r\<in>set rs. private_record q r \<longleftrightarrow> private_record p r)"
proof -
  from assms(1) obtain off where l: "12 \<le> length p" "question_end p 12 (unat (u16_at p 4)) = Some off"
    "layout_from p off (record_count p) = Some rs"
    by (auto simp: record_layout_def split: if_splits option.splits)
  have off: "12 \<le> off" "off \<le> length p"
    using question_end_frame [OF l(2) refl] question_end_bound [OF l(2) l(1)] by auto
  have u: "u16_at q i = u16_at p i" if "4 \<le> i" "i < 11" for i
    using that l(1) assms(2,3) by (simp add: u16_at_def)
  have "question_end q 12 (unat (u16_at p 4)) = Some off"
    using question_end_frame [OF l(2) assms(2)] assms(3) off by auto
  moreover have "layout_from q off (record_count p) = Some rs"
    using off by (intro layout_from_frame [OF assms(2) _ l(3)]) (auto simp: assms(3))
  ultimately have "record_layout q = Some rs"
    using l(1) u by (simp add: record_layout_def record_count_def assms(2))
  moreover have "private_record q r \<longleftrightarrow> private_record p r" if "r \<in> set rs" for r
    using layout_from_offsets [OF l(3) that] off
    by (intro private_record_frame [OF assms(2), of off]) (auto simp: assms(3))
  ultimately show ?thesis by blast
qed

lemma PatchResponseId_clean: "rebind_clean p \<Longrightarrow> rebind_clean (PatchResponseId p i)"
proof (unfold rebind_clean_def, intro allI impI ballI)
  fix rs r
  assume c: "\<forall>rs. record_layout p = Some rs \<longrightarrow> (\<forall>r\<in>set rs. \<not> private_record p r)"
    and l: "record_layout (PatchResponseId p i) = Some rs" "r \<in> set rs"
  have "length p = length (PatchResponseId p i)" by (simp add: PatchResponseId_def)
  from record_layout_frame [OF l(1) this] PatchResponseId_rest c l(2)
  show "\<not> private_record (PatchResponseId p i) r" by auto
qed

subsection \<open>The cache of the server\<close>

text \<open>A cache that is well formed, holds good responses, and can take any DNS message.\<close>

definition cache_ok :: "bool \<Rightarrow> dns_cache \<Rightarrow> bool" where
  "cache_ok protected c \<longleftrightarrow>
     cache_inv c \<and> cache_clean protected c \<and> unat (max_bytes c) + 2 ^ 17 < 2 ^ 64"

definition server_ok :: "dns_server \<Rightarrow> bool" where
  "server_ok s \<longleftrightarrow> (\<forall>c. srv_cache s = Some c \<longrightarrow> cache_ok (rebind_protection (srv_config s)) c)"

lemma new_cache_ok: "unat limit + 2 ^ 17 < 2 ^ 64 \<Longrightarrow> cache_ok b (new_cache limit ttl)"
  using new_cache_inv [of limit ttl]
  by (simp add: cache_ok_def cache_clean_def cache_stored_def contents_def) (simp add: new_cache_def)

lemma cache_ok_storable: "cache_ok b c \<Longrightarrow> length r \<le> 2 ^ 17 \<Longrightarrow> storable c r"
  by (simp add: cache_ok_def storable_def)

lemma cache_get_ok:
  assumes "cache_ok b c"
  shows "cache_ok b (snd (cache_get t c k)) \<and> (fst (cache_get t c k) = Some r \<longrightarrow> good_response b r)"
proof -
  from assms have i: "cache_inv c" and cl: "cache_clean b c" by (simp_all add: cache_ok_def)
  have "cache_clean b (snd (cache_get t c k))"
    using cl by (auto simp: cache_clean_def dnscache.get_stored [OF i] split: option.splits if_splits)
  moreover have "max_bytes (snd (cache_get t c k)) = max_bytes c"
    by (rule cache_get_refines(3) [OF cache_inv_wf [OF i]])
  ultimately have "cache_ok b (snd (cache_get t c k))"
    using assms dnscache.inv_get [OF i] by (auto simp: cache_ok_def)
  moreover have "good_response b r" if *: "fst (cache_get t c k) = Some r"
  proof -
    obtain x where "cache_stored c k = Some (r, x)"
      using dnscache.get_result [OF i, of t k] * by (auto split: option.splits if_splits)
    with cl show ?thesis unfolding cache_clean_def by blast
  qed
  ultimately show ?thesis by blast
qed

lemma cache_put_ok:
  assumes "cache_ok b c" "length r \<le> 2 ^ 17" "good_response b r"
  shows "cache_ok b (cache_put t t' c k r)"
proof -
  from assms(1) have i: "cache_inv c" and cl: "cache_clean b c" by (simp_all add: cache_ok_def)
  note st = cache_ok_storable [OF assms(1,2)]
  have "total_size (contents c) + length r < 2 ^ 64"
    using i st by (simp add: cache_inv_def storable_def)
  then have "max_bytes (cache_put t t' c k r) = max_bytes c"
    by (rule cache_put_refines(3) [OF cache_inv_wf [OF i]])
  moreover have "good_response b q" if "cache_stored (cache_put t t' c k r) j = Some (q, x)" for j q x
    using dnscache.put_stored [OF i st that] cl assms(3)
    by (auto simp: cache_clean_def split: if_splits)
  ultimately show ?thesis
    using assms(1) dnscache.inv_put [OF i st] by (auto simp: cache_ok_def cache_clean_def)
qed

text \<open>
  The messages that the upstream calls return are no longer than a DNS message: \<open>recvfrom\<close> has
  a buffer of 4096 bytes, and a framed answer has a 16-bit length. \<open>inet_ntop\<close> writes at most
  16 bytes, the terminator included.
\<close>

definition env_ok :: "query_env \<Rightarrow> bool" where
  "env_ok e \<longleftrightarrow>
     (\<forall>b. u_recv (e_udp e) = Some b \<longrightarrow> length b \<le> 4096) \<and> reads_fit (d_reads (e_dot e)) \<and>
     (\<forall>c a. e_ntop e c = Some a \<longrightarrow> length a < 16)"

end
