(* ===== verification/Server_Answers.thy ===== *)
theory Server_Answers
  imports Server_Laws
begin

text \<open>
  What a client of \<open>DnsServer\<close> receives: bounds on the messages, rebind protection of every
  datagram that comes from an upstream or the cache, the transaction id, repeated questions,
  and the lookup of the client's name.
\<close>

subsection \<open>The size of messages\<close>

lemma be_length_less: "be_length b < 2 ^ 16"
proof -
  let ?w = "push_bit 8 (ucast (b ! 0) :: u64) OR ucast (b ! 1)"
  have w: "?w = take_bit 16 ?w" by (rule bit_word_eqI) (auto simp: bit_simps dest: bit_imp_le_length)
  have "unat (take_bit 16 ?w) < 2 ^ 16" by (simp only: unsigned_take_bit_eq take_bit_nat_less_exp)
  then show ?thesis unfolding be_length_def by (subst w)
qed

lemma receive_length:
  assumes "receive e n = Some (Some resp, n')" "reads_fit (d_reads e)"
  shows "resp \<noteq> [] \<and> length resp < 2 ^ 16"
proof -
  obtain lb rs n1 rs' where r1: "TlsReadAll (d_tls_error e) n 2 [] (d_reads e) = Some (Some lb, rs, n1)"
    and r2: "TlsReadAll (d_tls_error e) n1 (be_length lb) [] rs = Some (Some resp, rs', n')"
    using assms(1) by (auto simp: receive_def split: option.splits if_splits)
  have "fits 2 0 (d_reads e)" using assms(2) by (simp add: reads_fit_def)
  with TlsReadAll_sound [OF r1] have 1: "delivered (d_reads e) = lb @ delivered rs" "length lb = 2"
    "rs = rest_after 2 0 (d_reads e)" by simp_all
  then have "fits (be_length lb) 0 rs" using assms(2) by (simp add: reads_fit_def)
  with TlsReadAll_sound [OF r2] have "length resp = be_length lb" by simp
  with receive_sound [OF assms] be_length_less [of lb] show ?thesis by simp
qed

lemma ResolveDot_length:
  assumes "ResolveDot e r n q out = Some (True, (resp, up), n')" "reads_fit (d_reads e)"
  shows "resp \<noteq> [] \<and> length resp < 2 ^ 16"
proof -
  obtain m m' where "tls_session e (dot_verify_on r) m q = Some (Some resp, m')"
    using assms(1) by (auto simp: ResolveDot_def Let_def split: if_splits option.splits prod.splits bool.splits)
  then obtain k k' where "exchange e k q = Some (Some resp, k')"
    by (auto simp: tls_session_def Let_def split: if_splits option.splits)
  then obtain l l' where "receive e l = Some (Some resp, l')"
    by (auto simp: exchange_def split: if_splits option.splits bool.splits)
  then show ?thesis by (rule receive_length [OF _ assms(2)])
qed

lemma ResolveUdp_length:
  "ResolveUdp e r n q out = (True, (resp, up), n') \<Longrightarrow> u_recv e = Some resp \<and> resp \<noteq> []"
  by (auto simp: ResolveUdp_def Let_def split: if_splits option.splits)

lemma length_WriteLabels: "length (WriteLabels s) \<le> length s + 1"
proof (induction s rule: WriteLabels.induct)
  case (1 s)
  show ?case
  proof (cases "s = []")
    case False
    let ?l = "takeWhile (\<lambda>c. c \<noteq> CHR ''.'') s"
    have "length ?l \<le> length s" by (rule length_takeWhile_le)
    moreover have "length (WriteLabels (drop (length ?l + 1) s)) \<le> length (drop (length ?l + 1) s) + 1"
      using 1 False by simp
    moreover have "length ?l = length s \<Longrightarrow> WriteLabels (drop (length ?l + 1) s) = []" by simp
    ultimately show ?thesis
      using False by (subst WriteLabels.simps) (cases "length ?l = length s"; simp add: Let_def)
  qed simp
qed

lemma length_BuildEmptyResponse: "length (BuildEmptyResponse h q) \<le> length (qname q) + 18"
  using length_WriteLabels [of "qname q"]
  by (simp add: BuildEmptyResponse_def AppendQuestion_eq encode_question_def WriteQName_def)

lemma ParseQName_loop_length:
  "ParseQName_loop p pos name = returns_true (n, e) \<Longrightarrow> length n + pos \<le> length name + e"
proof (induction rule: ParseQName_loop_induct)
  case (label pos name n e)
  then show ?case
    using length_append_label [of name "label_bytes p pos"] length_label_bytes [of p pos] by simp
qed auto

lemma ParseDnsQuery_qname:
  assumes "ParseDnsQuery p = returns_true (h, q)"
  shows "length (qname q) \<le> length p \<and> ReadHeader p = Some h"
proof -
  from assms obtain n e where "ParseQName p 12 = returns_true (n, e)" "qname q = n" "ReadHeader p = Some h"
    by (auto simp: ParseDnsQuery_def split: if_splits Option.bind_splits option.splits)
  then show ?thesis
    using ParseQName_loop_length [of p 12 "[]" n e] ParseQName_loop_end [of p 12 "[]" n e]
    by (simp add: ParseQName_def)
qed

lemma length_rewrite:
  "RewritePrivateARecordsToZero p w = Some (True, p', w') \<Longrightarrow> length p' = length p"
  by (metis rewrite_layout length_scrub)

lemma ask_upstream_length:
  assumes "ask_upstream e s packet h q = Some (resp, up, s')" "env_ok e" "length (qname q) \<le> 2 ^ 16"
  shows "length resp \<le> 2 ^ 17 \<and> resp \<noteq> []"
proof -
  have d: "reads_fit (d_reads (e_dot e))" and u: "\<And>b. u_recv (e_udp e) = Some b \<Longrightarrow> length b \<le> 4096"
    using assms(2) by (simp_all add: env_ok_def)
  have b: "length (BuildEmptyResponse h q) \<le> 2 ^ 17 \<and> BuildEmptyResponse h q \<noteq> []"
    using length_BuildEmptyResponse [of h q] assms(3)
    by (auto simp: BuildEmptyResponse_def AppendQuestion_eq BuildResponseHeader_def WriteU16_def)
  show ?thesis
    using assms(1) b
    by (auto simp: ask_upstream_def split: option.splits prod.splits bool.splits
        dest!: ResolveDot_length [OF _ d] ResolveUdp_length u)
qed

lemma protect_length:
  assumes "protect s h q resp = Some (resp', s')" "length resp \<le> 2 ^ 17" "resp \<noteq> []" "length (qname q) \<le> 2 ^ 16"
  shows "length resp' \<le> 2 ^ 17 \<and> resp' \<noteq> []"
proof -
  have b: "length (BuildEmptyResponse h q) \<le> 2 ^ 17 \<and> BuildEmptyResponse h q \<noteq> []"
    using length_BuildEmptyResponse [of h q] assms(4)
    by (auto simp: BuildEmptyResponse_def AppendQuestion_eq BuildResponseHeader_def WriteU16_def)
  have "length p = length resp" if "RewritePrivateARecordsToZero resp False = Some (True, p, w)" for p w
    using length_rewrite [OF that] .
  then show ?thesis
    using assms b by (fastforce simp: protect_def split: if_splits option.splits)
qed

subsection \<open>Lookups keep the cache\<close>

lemma cache_lookup_ok:
  assumes "cache_lookup e s k = (r, s')" "server_ok s"
  shows "server_ok s' \<and> srv_config s' = srv_config s \<and>
    (\<forall>d. r = Some d \<longrightarrow> good_response (rebind_protection (srv_config s)) d)"
proof (cases "srv_cache s")
  case None
  with assms show ?thesis by (simp add: cache_lookup_def)
next
  case (Some c)
  let ?g = "cache_get (e_get_time e) c k"
  have ok: "cache_ok (rebind_protection (srv_config s)) c" using assms(2) Some by (simp add: server_ok_def)
  obtain a c' where g: "?g = (a, c')" by (cases ?g)
  from assms(1) have "r = a" "srv_cache s' = Some c'" "srv_config s' = srv_config s"
    by (auto simp: cache_lookup_def Some g split: option.splits)
  with cache_get_ok [OF ok, of "e_get_time e" k] show ?thesis by (simp add: g server_ok_def)
qed

lemma upstream_answer_ok:
  assumes "ask_upstream e s packet h q = Some (resp, up, s2)" "protect s2 h q resp = Some (resp', s3)"
    and "server_ok s" "env_ok e" "length (qname q) \<le> 2 ^ 16"
  shows "good_response (rebind_protection (srv_config s)) resp' \<and> server_ok (cache_store e s3 k resp')"
proof -
  let ?b = "rebind_protection (srv_config s)"
  note a = ask_upstream_setup [OF assms(1)] and p = protect_setup [OF assms(2)]
  have "length resp \<le> 2 ^ 17 \<and> resp \<noteq> []" by (rule ask_upstream_length [OF assms(1,4,5)])
  then have len: "length resp' \<le> 2 ^ 17" "resp' \<noteq> []" using protect_length [OF assms(2) _ _ assms(5)] by auto
  have c: "srv_config s2 = srv_config s" "srv_config (cache_store e s3 k resp') = srv_config s"
    using a p cache_store_simps(1) [of s3 e k resp'] by (simp_all add: same_setup_def)
  then have "?b \<longrightarrow> rebind_clean resp'" using protect_clean [OF _ assms(2)] by simp
  then have g: "good_response ?b resp'" using len by (simp add: good_response_def)
  moreover have "cache_ok ?b (cache_put t t' d k resp')" if "srv_cache s = Some d" for d t t'
    using cache_put_ok [OF _ len(1) g] that assms(3) by (simp add: server_ok_def)
  ultimately show ?thesis using a p c(2) len(2) by (auto simp: server_ok_def)
qed

lemma ResolveQuery_ok:
  assumes "ResolveQuery e s packet h q = Some (r, s')" "server_ok s" "env_ok e" "length (qname q) \<le> 2 ^ 16"
  shows "server_ok s' \<and> (rr_source r \<in> {RESOLVE_CACHE, RESOLVE_UPSTREAM} \<longrightarrow>
    good_response (rebind_protection (srv_config s)) (rr_response r))"
  using assms(1)
proof (cases rule: ResolveQuery_cases)
  case (cached c)
  with cache_lookup_ok [OF cached(6) assms(2)] show ?thesis by simp
next
  case (upstream s1 s2 s3 resp up resp')
  note l = cache_lookup_ok [OF upstream(6) assms(2)]
  from upstream_answer_ok [OF upstream(7,8) _ assms(3,4)] l show ?thesis
    by (simp add: upstream(4,5,9))
qed (use assms(2) in \<open>simp_all add: server_ok_def\<close>)

lemma length_reverse_name:
  assumes "length (Split a CHR ''.'') = 4"
  shows "length (reverse_name (Split a CHR ''.'')) = length a + 13"
proof -
  obtain w x y z where p: "Split a CHR ''.'' = [w, x, y, z]"
    using assms by (auto simp: numeral_eq_Suc length_Suc_conv)
  have "a = join_with CHR ''.'' [w, x, y, z]" using join_Split [of "CHR ''.''" a] by (simp only: p)
  then have "length a = length (join_with CHR ''.'' [w, x, y, z])" by (simp only:)
  then show ?thesis unfolding p by (simp add: reverse_name_def)
qed

abbreviation client_query :: "string \<Rightarrow> bytes" where
  "client_query a \<equiv> ptr_query (reverse_name (Split a CHR ''.''))"

lemma ResolveClientName_cases:
  assumes "ResolveClientName e s client = Some (name, s')"
  obtains "s' = s" "name = ''-''"
  | a h q r where "e_ntop e client = Some a" "length (Split a CHR ''.'') = 4"
      "ParseDnsQuery (client_query a) = returns_true (h, q)"
      "ResolveQuery e s (client_query a) h q = Some (r, s')"
      "ExtractFirstPtrTarget (rr_response r) = returns_true name \<or> name = ''-''"
proof (cases "e_ntop e client")
  case None
  with assms that(1) show ?thesis by (simp add: ResolveClientName_def)
next
  case (Some a)
  show ?thesis
  proof (cases "length (Split a CHR ''.'') = 4 \<and> ParseDnsQuery (client_query a) \<noteq> returns_false")
    case False
    with assms Some have "Some (''-'', s) = Some (name, s')"
      by (cases "length (Split a CHR ''.'') = 4") (simp_all add: ResolveClientName_def Let_def)
    with that(1) show ?thesis by simp
  next
    case True
    then obtain h q where p: "ParseDnsQuery (client_query a) = returns_true (h, q)"
      using ParseDnsQuery_safe [of "client_query a"] by (cases "ParseDnsQuery (client_query a)") force+
    with assms Some True obtain r s1 where r: "ResolveQuery e s (client_query a) h q = Some (r, s1)"
      by (cases "ResolveQuery e s (client_query a) h q") (auto simp: ResolveClientName_def Let_def)
    obtain t where t: "ExtractFirstPtrTarget (rr_response r) = Some t"
      using ExtractFirstPtrTarget_safe [of "rr_response r"] by (cases "ExtractFirstPtrTarget (rr_response r)") blast+
    have "s1 = s' \<and> (t = Some name \<or> name = ''-'')"
      using assms Some True p r t
      by (simp add: ResolveClientName_def Let_def split: option.splits if_splits)
    with that(2) [OF Some _ p] True r t show ?thesis by blast
  qed
qed

lemma client_query_qname:
  assumes "ParseDnsQuery (client_query a) = returns_true (h, q)" "length (Split a CHR ''.'') = 4"
    and "e_ntop e client = Some a" "env_ok e"
  shows "length (qname q) \<le> 2 ^ 16"
proof -
  have "length a < 16" using assms(3,4) unfolding env_ok_def by blast
  then have "length (reverse_name (Split a CHR ''.'')) < 29"
    using length_reverse_name [OF assms(2)] by simp
  then have "length (client_query a) \<le> 100"
    using length_WriteLabels [of "reverse_name (Split a CHR ''.'')"] by (simp add: ptr_query_def Let_def)
  then show ?thesis using ParseDnsQuery_qname [OF assms(1)] by simp
qed

lemma ResolveClientName_ok:
  assumes "ResolveClientName e s client = Some (name, s')" "server_ok s" "env_ok e"
  shows "server_ok s' \<and> same_setup s s' \<and> resources (srv_net s') = resources (srv_net s)"
  using assms(1)
proof (cases rule: ResolveClientName_cases)
  case 1
  with assms(2) show ?thesis by (simp add: same_setup_def)
next
  case (2 a h q r)
  have "length (qname q) \<le> 2 ^ 16" by (rule client_query_qname [OF 2(3,2,1) assms(3)])
  from ResolveQuery_ok [OF 2(4) assms(2,3) this] ResolveQuery_frame [OF 2(4)] show ?thesis by simp
qed

lemma log_query_frame:
  "srv_sent (log_query e s lg ip nm q r) = srv_sent s \<and> srv_cache (log_query e s lg ip nm q r) = srv_cache s \<and>
   srv_config (log_query e s lg ip nm q r) = srv_config s \<and>
   srv_blocklist (log_query e s lg ip nm q r) = srv_blocklist s \<and>
   srv_local (log_query e s lg ip nm q r) = srv_local s \<and>
   srv_resolver (log_query e s lg ip nm q r) = srv_resolver s"
  by (simp add: log_query_def with_files_def Let_def split: prod.split)

text \<open>What one handled query comes to.\<close>

lemma HandleQuery_cases:
  assumes "HandleQuery e e' s packet client = Some (ok, s')"
  obtains "ParseDnsQuery packet = returns_false" "\<not> ok" "s' = debug s ''Failed to parse DNS query''"
  | h q s0 r s1 where "ParseDnsQuery packet = returns_true (h, q)" "ok" "same_setup s s0" "srv_cache s0 = srv_cache s"
      "resources (srv_net s0) = resources (srv_net s)" "ResolveQuery e s0 packet h q = Some (r, s1)"
      "srv_logger s = None" "s' = send_response s1 client h r"
  | h q s0 r s1 s2 name lg ip where "ParseDnsQuery packet = returns_true (h, q)" "ok" "same_setup s s0"
      "srv_cache s0 = srv_cache s" "resources (srv_net s0) = resources (srv_net s)"
      "ResolveQuery e s0 packet h q = Some (r, s1)" "srv_logger s = Some lg"
      "ResolveClientName e' (send_response s1 client h r) client = Some (name, s2)"
      "s' = log_query e s2 lg ip name q r"
proof -
  consider "ParseDnsQuery packet = returns_false"
    | h q where "ParseDnsQuery packet = returns_true (h, q)"
    using ParseDnsQuery_safe [of packet] by (cases "ParseDnsQuery packet") force+
  then show thesis
  proof cases
    case 1
    with assms that(1) show ?thesis by (simp add: HandleQuery_def)
  next
    case (2 h q)
    let ?s0 = "if DebugEnabled (net_log (srv_net s))
      then debug s (''Query: '' @ qname q @ '' '' @ QTypeToString (qtype q)) else s"
    have s0: "same_setup s ?s0" "srv_cache ?s0 = srv_cache s" "resources (srv_net ?s0) = resources (srv_net s)"
      by (simp_all add: same_setup_def)
    from assms 2 obtain r s1 where r: "ResolveQuery e ?s0 packet h q = Some (r, s1)"
      by (auto simp: HandleQuery_def Let_def split: Option.bind_splits)
    have lg: "srv_logger (send_response s1 client h r) = srv_logger s"
      using ResolveQuery_frame [OF r] s0(1) by (simp add: send_response_def same_setup_def Let_def)
    show ?thesis
    proof (cases "srv_logger s")
      case None
      with assms 2 r lg have "ok" "s' = send_response s1 client h r"
        by (simp_all add: HandleQuery_def Let_def)
      with that(2) [OF 2 _ s0 r None] show ?thesis by blast
    next
      case (Some l)
      with assms 2 r lg obtain name s2 where
        c: "ResolveClientName e' (send_response s1 client h r) client = Some (name, s2)"
        by (auto simp: HandleQuery_def Let_def split: Option.bind_splits)
      have "ok" "\<exists>ip. s' = log_query e s2 l ip name q r"
        using assms 2 r lg Some c by (auto simp: HandleQuery_def Let_def)
      with that(3) [OF 2 _ s0 r Some c] show ?thesis by blast
    qed
  qed
qed

subsection \<open>Every reply\<close>

lemma send_response_simps [simp]:
  "srv_cache (send_response s c h r) = srv_cache s" "srv_config (send_response s c h r) = srv_config s"
  "srv_net (send_response s c h r) = srv_net s"
  by (simp_all add: send_response_def Let_def)

lemma log_query_resources: "resources (srv_net (log_query e s lg ip nm q r)) = resources (srv_net s)"
  by (simp add: log_query_def with_files_def Let_def resources_def split: prod.split)

definition reply_of :: "DnsHeader \<Rightarrow> ResolveResult \<Rightarrow> bytes" where
  "reply_of h r =
     (if rr_source r = RESOLVE_CACHE then PatchResponseId (rr_response r) (hdr_id h) else rr_response r)"

lemma HandleQuery_result:
  assumes "HandleQuery e e' s packet client = Some (ok, s')" "server_ok s" "env_ok e" "env_ok e'"
    and "length packet \<le> 2 ^ 16"
  shows "server_ok s' \<and> srv_config s' = srv_config s \<and> resources (srv_net s') = resources (srv_net s) \<and>
    (case ParseDnsQuery packet of
       returns_true (h, q) \<Rightarrow> ok \<and> (\<exists>s0 r s1. same_setup s s0 \<and> srv_cache s0 = srv_cache s \<and>
         ResolveQuery e s0 packet h q = Some (r, s1) \<and>
         srv_sent s' = srv_sent s @ (if rr_response r = [] then [] else [(client, reply_of h r)]))
     | _ \<Rightarrow> \<not> ok \<and> srv_sent s' = srv_sent s)"
proof -
  have sent: "srv_sent (send_response s1 client h r) =
      srv_sent s @ (if rr_response r = [] then [] else [(client, reply_of h r)])"
    if "same_setup s s0" "ResolveQuery e s0 packet h q = Some (r, s1)" for s0 s1 h q r
    using ResolveQuery_frame [OF that(2)] that(1)
    by (simp add: send_response_def reply_of_def same_setup_def Let_def)
  have ok1: "server_ok (send_response s1 client h r)" "srv_config s1 = srv_config s"
      "resources (srv_net s1) = resources (srv_net s0)"
    if "ParseDnsQuery packet = returns_true (h, q)" "same_setup s s0" "srv_cache s0 = srv_cache s"
      "ResolveQuery e s0 packet h q = Some (r, s1)" for h q s0 r s1
  proof -
    have "length (qname q) \<le> 2 ^ 16" using ParseDnsQuery_qname [OF that(1)] assms(5) by simp
    moreover have "server_ok s0" using assms(2) that(2,3) by (simp add: server_ok_def same_setup_def)
    ultimately have "server_ok s1" using ResolveQuery_ok [OF that(4) _ assms(3)] by simp
    then show "server_ok (send_response s1 client h r)" by (simp add: server_ok_def)
    show "srv_config s1 = srv_config s" "resources (srv_net s1) = resources (srv_net s0)"
      using ResolveQuery_frame [OF that(4)] that(2) by (simp_all add: same_setup_def)
  qed
  from assms(1) show ?thesis
  proof (cases rule: HandleQuery_cases)
    case 1
    with assms(2) show ?thesis by (simp add: server_ok_def)
  next
    case (2 h q s0 r s1)
    from ok1 [OF 2(1,3,4,6)] sent [OF 2(3,6)] 2 show ?thesis by auto
  next
    case (3 h q s0 r s1 s2 name lg ip)
    note o = ok1 [OF 3(1,3,4,6)]
    have c: "server_ok s2 \<and> same_setup (send_response s1 client h r) s2 \<and>
        resources (srv_net s2) = resources (srv_net (send_response s1 client h r))"
      by (rule ResolveClientName_ok [OF 3(8) o(1) assms(4)])
    have "srv_sent s' = srv_sent (send_response s1 client h r)" "srv_config s' = srv_config s"
      "resources (srv_net s') = resources (srv_net s)" "server_ok s'"
      using c o(2,3) 3(5) log_query_frame [of e s2 lg ip name q r] log_query_resources [of e s2 lg ip name q r]
      by (auto simp: 3(9) same_setup_def server_ok_def)
    with sent [OF 3(3,6)] 3(1-4,6) show ?thesis by auto
  qed
qed

text \<open>
  Rebind protection of what clients receive. With protection on, whatever the upstream sends
  and over any number of queries (the cache stays clean from one to the next), a datagram that
  answers a name which is neither blocked nor local holds no A record with a private address,
  whether the answer is fresh or from the cache.
\<close>

lemma answers_rebind_clean:
  assumes "HandleQuery e e' s packet client = Some (ok, s')" "server_ok s" "env_ok e" "env_ok e'"
    and "length packet \<le> 2 ^ 16" "rebind_protection (srv_config s)"
    and "ParseDnsQuery packet = returns_true (h, q)"
    and "\<not> blocked_name s (qname q)" "Resolve (srv_local s) (qname q) (qtype q) = None"
  shows "server_ok s' \<and> rebind_protection (srv_config s') \<and>
    (\<forall>d\<in>set (drop (length (srv_sent s)) (srv_sent s')). rebind_clean (snd d))"
proof -
  from HandleQuery_result [OF assms(1-5)] assms(7) obtain s0 r s1 where
    r: "same_setup s s0" "srv_cache s0 = srv_cache s" "ResolveQuery e s0 packet h q = Some (r, s1)"
    and s': "server_ok s'" "srv_config s' = srv_config s"
      "srv_sent s' = srv_sent s @ (if rr_response r = [] then [] else [(client, reply_of h r)])"
    by auto
  have "length (qname q) \<le> 2 ^ 16" using ParseDnsQuery_qname [OF assms(7)] assms(5) by simp
  moreover have "server_ok s0" using assms(2) r(1,2) by (simp add: server_ok_def same_setup_def)
  ultimately have g: "rr_source r \<in> {RESOLVE_CACHE, RESOLVE_UPSTREAM} \<longrightarrow> rebind_clean (rr_response r)"
    using ResolveQuery_ok [OF r(3) _ assms(3)] assms(6) r(1) by (simp add: good_response_def same_setup_def)
  have "\<not> blocked_name s0 (qname q)" "Resolve (srv_local s0) (qname q) (qtype q) = None"
    using assms(8,9) r(1) by (simp_all add: same_setup_def blocked_name_def)
  with r(3) have "rr_source r \<in> {RESOLVE_CACHE, RESOLVE_UPSTREAM}"
    by (cases rule: ResolveQuery_cases) simp_all
  with g have "rebind_clean (reply_of h r)" by (auto simp: reply_of_def PatchResponseId_clean)
  with s' assms(6) show ?thesis by simp
qed

definition sample_packet :: bytes where
  "sample_packet = [0, 7, 1, 0, 0, 1, 0, 0, 0, 0, 0, 0, 2, 97, 98, 1, 99, 0, 0, 1, 0, 1]"

definition sample_handled :: "(bool \<times> dns_server) option" where
  "sample_handled = HandleQuery (sample_query_env 100 (private_packet 10 1)) (sample_query_env 100 [])
     sample_server sample_packet ([10, 0, 0, 7], 5353)"

lemma sample_env_ok: "length a \<le> 4096 \<Longrightarrow> env_ok (sample_query_env t a)"
  using sample_reads_fit by (simp add: env_ok_def sample_query_env_def)

lemma sample_server_ok: "server_ok sample_server"
  using new_cache_ok [of 4096 _ 60] by (simp add: server_ok_def sample_server_def new_server_def)

lemma sample_envs: "env_ok (sample_query_env t (private_packet 10 1))" "env_ok (sample_query_env t [])"
proof -
  have "length (private_packet 10 1) = 42" by code_simp
  then show "env_ok (sample_query_env t (private_packet 10 1))" by (intro sample_env_ok) simp
qed (simp add: sample_env_ok)

lemma sample_packet_length: "length sample_packet \<le> 2 ^ 16"
  by (simp add: sample_packet_def)

lemma sample_handled_sent:
  "map_option (\<lambda>(ok, s'). (ok, srv_sent s')) sample_handled =
     Some (True, [(([10, 0, 0, 7], 5353), take 38 (private_packet 10 1) @ [0, 0, 0, 0])])"
  by code_simp

lemma sample_packet_parsed:
  "ParseDnsQuery sample_packet = returns_true (lookup_header, ask_for ''ab.c'')"
  by code_simp

lemma known_types:
  "TypeFromString t \<noteq> 0 \<Longrightarrow> TypeFromString t \<in>
     {DNS_TYPE_A, DNS_TYPE_AAAA, DNS_TYPE_CNAME, DNS_TYPE_PTR, DNS_TYPE_MX, DNS_TYPE_TXT}"
  by (auto simp: TypeFromString_def split: if_splits)

lemma address_response_header:
  "\<exists>body. BuildAResponse p h q s = BuildResponseHeader h 1 1 @ body"
  "\<exists>body. BuildAAAAResponse p h q s = BuildResponseHeader h 1 1 @ body"
  by (simp_all add: BuildAResponse_def BuildAAAAResponse_def Let_def AppendQuestion_eq WriteU16_def
      WriteU32_def WriteQName_append [of "_ @ _"])

lemma blocked_header: "\<exists>n body. answer_blocked e h q = BuildResponseHeader h 1 n @ body"
  unfolding answer_blocked_def BuildEmptyResponse_eq encode_response_def
  using address_response_header by metis

lemma local_header:
  assumes "t \<in> {DNS_TYPE_A, DNS_TYPE_AAAA, DNS_TYPE_CNAME, DNS_TYPE_PTR, DNS_TYPE_MX, DNS_TYPE_TXT}"
  shows "\<exists>body. answer_local e h q v t = BuildResponseHeader h 1 1 @ body"
proof -
  have "answer_local e h q v t \<in> {BuildAResponse (e_pton4 e) h q v, BuildAAAAResponse (e_pton6 e) h q v,
      BuildCNAMEResponse h q v, BuildPTRResponse h q v, BuildTXTResponse h q v,
      BuildMXResponse h q (fst (ParseMxValue v)) (snd (ParseMxValue v))}"
    using assms unfolding answer_local_def case_prod_unfold by (simp split del: if_split) (elim disjE; simp)
  moreover have "\<exists>body. encode_response h q 1 x = BuildResponseHeader h 1 1 @ body" for x
    by (simp add: encode_response_def)
  ultimately show ?thesis
    unfolding BuildCNAMEResponse_eq BuildPTRResponse_eq BuildTXTResponse_eq BuildMXResponse_eq
    using address_response_header by (metis insertE emptyE)
qed

lemma header_nonempty [simp]: "BuildResponseHeader h qd an \<noteq> []"
  by (simp add: BuildResponseHeader_def WriteU16_def)

lemma local_type_known:
  "Resolve (Load t rs) name q = Some (v, ty) \<Longrightarrow>
   ty \<in> {DNS_TYPE_A, DNS_TYPE_AAAA, DNS_TYPE_CNAME, DNS_TYPE_PTR, DNS_TYPE_MX, DNS_TYPE_TXT}"
proof -
  assume r: "Resolve (Load t rs) name q = Some (v, ty)"
  have m: "records (Load t rs) (MakeKey name q) = last_answer name q rs"
    by (simp add: Load_def load_loop_lookup option.case_eq_if)
  obtain a where a: "last_answer name q rs = Some a" "ty = q"
    using r by (cases "last_answer name q rs") (simp_all add: Resolve_def m)
  from a(1) have "answers name q a" unfolding last_answer_def find_Some_iff by blast
  then have "TypeFromString (ToLower (rec_type a)) = ty" "ty \<noteq> 0" by (simp_all add: answers_def a(2))
  then show ?thesis using known_types [of "ToLower (rec_type a)"] by simp
qed

text \<open>
  C13: One reply per query. On a server with loaded records, every packet that parses as a query is
  answered by exactly one datagram, which goes to the client that asked and is not empty; any
  other packet is answered by none. An answer that does not come from an upstream carries the
  transaction id of the query.
\<close>

theorem one_reply:
  assumes "HandleQuery e e' s packet client = Some (ok, s')" "server_ok s" "env_ok e" "env_ok e'"
    and "length packet \<le> 2 ^ 16" "srv_local s = Load t rs"
  shows "case ParseDnsQuery packet of
      returns_true (h, q) \<Rightarrow> ok \<and> (\<exists>d. srv_sent s' = srv_sent s @ [(client, d)] \<and> d \<noteq> [] \<and>
        (2 \<le> length d \<and> (blocked_name s (qname q) \<or> Resolve (srv_local s) (qname q) (qtype q) \<noteq> None \<or>
            cached_answer e s q \<noteq> None) \<longrightarrow>
         ReadU16 d 0 = Some (hdr_id h)))
    | _ \<Rightarrow> \<not> ok \<and> srv_sent s' = srv_sent s"
proof (cases "ParseDnsQuery packet = returns_false")
  case True
  with HandleQuery_result [OF assms(1-5)] show ?thesis by simp
next
  case False
  then obtain h q where p: "ParseDnsQuery packet = returns_true (h, q)"
    using ParseDnsQuery_safe [of packet] by (cases "ParseDnsQuery packet") force+
  from HandleQuery_result [OF assms(1-5)] obtain s0 r s1 where
    r: "same_setup s s0" "srv_cache s0 = srv_cache s" "ResolveQuery e s0 packet h q = Some (r, s1)"
    and s': "ok" "srv_sent s' = srv_sent s @ (if rr_response r = [] then [] else [(client, reply_of h r)])"
    by (auto simp: p)
  have "length (qname q) \<le> 2 ^ 16" using ParseDnsQuery_qname [OF p] assms(5) by simp
  moreover have "server_ok s0" using assms(2) r(1,2) by (simp add: server_ok_def same_setup_def)
  ultimately have g: "rr_source r \<in> {RESOLVE_CACHE, RESOLVE_UPSTREAM} \<longrightarrow> rr_response r \<noteq> []"
    using ResolveQuery_ok [OF r(3) _ assms(3)] by (auto simp: good_response_def)
  have same: "blocked_name s0 = blocked_name s" "srv_local s0 = Load t rs" "cached_answer e s0 q = cached_answer e s q"
    using r(1,2) assms(6) by (auto simp: same_setup_def blocked_name_def cached_answer_def)
  have patched: "ReadU16 (PatchResponseId d i) 0 = Some i" if "2 \<le> length d" for d i
    by (rule PatchResponseId_id [OF that])
  from r(3) have "rr_response r \<noteq> [] \<and> (2 \<le> length (reply_of h r) \<and>
      (blocked_name s (qname q) \<or> Resolve (srv_local s) (qname q) (qtype q) \<noteq> None \<or> cached_answer e s q \<noteq> None) \<longrightarrow>
      ReadU16 (reply_of h r) 0 = Some (hdr_id h))"
  proof (cases rule: ResolveQuery_cases)
    case blocked
    from blocked_header obtain n body where "answer_blocked e h q = BuildResponseHeader h 1 n @ body" by blast
    with blocked show ?thesis by (simp add: reply_of_def)
  next
    case (local v ty)
    have "ty \<in> {DNS_TYPE_A, DNS_TYPE_AAAA, DNS_TYPE_CNAME, DNS_TYPE_PTR, DNS_TYPE_MX, DNS_TYPE_TXT}"
      using local(2) unfolding same by (rule local_type_known)
    from local_header [OF this] obtain body where
      "answer_local e h q v ty = BuildResponseHeader h 1 1 @ body" by blast
    with local show ?thesis by (simp add: reply_of_def)
  next
    case (cached c)
    with g patched [of c "hdr_id h"] show ?thesis by (auto simp: reply_of_def PatchResponseId_def split: if_splits)
  next
    case upstream
    with g same assms(6) show ?thesis by simp
  qed
  moreover have "rr_response r \<noteq> [] \<Longrightarrow> reply_of h r \<noteq> []"
    by (auto simp: reply_of_def PatchResponseId_def)
  ultimately show ?thesis using s' by (simp add: p)
qed

theorem one_reply_witness:
  "\<exists>s'. sample_handled = Some (True, s') \<and> (\<exists>d. srv_sent s' = [(([10, 0, 0, 7], 5353), d)] \<and> d \<noteq> [])"
proof -
  have pre: "srv_local sample_server = Load no_records two_records" and no: "srv_sent sample_server = []"
    by (simp_all add: sample_server_def new_server_def)
  obtain s' where s': "sample_handled = Some (True, s')" using sample_handled_sent by auto
  from one_reply [OF this [unfolded sample_handled_def] sample_server_ok sample_envs
      sample_packet_length pre] s' no show ?thesis
    by (auto simp: sample_packet_parsed)
qed

end
