(* ===== verification/Server_Lookups.thy ===== *)
theory Server_Lookups
  imports Server_Answers
begin

text \<open>
  Lookups over time and for clients: an answered question is repeated from the cache for the
  lifetime, answers that stand for a failure included; the query for a client's name is well
  formed and finds local PTR records; MX values are read as they are written.
\<close>

subsection \<open>Repeated questions\<close>

lemma ResolveQuery_cached:
  assumes "\<not> blocked_name s (qname q)" "Resolve (srv_local s) (qname q) (qtype q) = None"
    and "cached_answer e s q = Some d"
  shows "\<exists>s'. ResolveQuery e s packet h q =
      Some (\<lparr>rr_response = d, rr_source = RESOLVE_CACHE, rr_upstream = []\<rparr>, s') \<and>
    udp_sent (srv_net s') = udp_sent (srv_net s) \<and> dot_sent (srv_net s') = dot_sent (srv_net s)"
proof -
  obtain c s' where l: "cache_lookup e s (MakeCacheKey (qname q) (qtype q)) = (c, s')"
    by (cases "cache_lookup e s (MakeCacheKey (qname q) (qtype q))")
  note r = cache_lookup_result [OF l]
  have "c = Some d" using r assms(3) by simp
  moreover have "\<not> (case srv_blocklist s of None \<Rightarrow> False | Some b \<Rightarrow> IsBlocked b (qname q))"
    using assms(1) by (simp add: blocked_name_def)
  ultimately show ?thesis using assms(2) l r by (simp add: ResolveQuery_def Let_def)
qed

text \<open>What an upstream lookup leaves in the cache.\<close>

lemma upstream_stored:
  assumes "ResolveQuery e s packet h q = Some (r, s')" "rr_source r = RESOLVE_UPSTREAM"
    and "srv_cache s = Some c" "server_ok s" "env_ok e" "length (qname q) \<le> 2 ^ 16"
  shows "same_setup s s' \<and> rr_response r \<noteq> [] \<and> \<not> blocked_name s (qname q) \<and>
    Resolve (srv_local s) (qname q) (qtype q) = None \<and>
    (\<exists>c1. srv_cache s' = Some (cache_put (e_put_time e) (e_expiry_time e) c1
        (MakeCacheKey (qname q) (qtype q)) (rr_response r)) \<and>
      cache_inv c1 \<and> storable c1 (rr_response r) \<and> max_bytes c1 = max_bytes c \<and> ttl_sec c1 = ttl_sec c)"
  using assms(1)
proof (cases rule: ResolveQuery_cases)
  case (upstream s1 s2 s3 resp up resp')
  let ?k = "MakeCacheKey (qname q) (qtype q)"
  let ?c1 = "snd (cache_get (e_get_time e) c ?k)"
  have ok: "cache_ok (rebind_protection (srv_config s)) c" using assms(3,4) by (simp add: server_ok_def)
  then have i: "cache_inv c" by (simp add: cache_ok_def)
  note g = cache_get_ok [OF ok, of "e_get_time e" ?k, THEN conjunct1]
  have "length resp \<le> 2 ^ 17 \<and> resp \<noteq> []" by (rule ask_upstream_length [OF upstream(7) assms(5,6)])
  then have len: "length resp' \<le> 2 ^ 17" "resp' \<noteq> []" using protect_length [OF upstream(8) _ _ assms(6)] by auto
  have "srv_cache s3 = Some ?c1"
    using cache_lookup_result [OF upstream(6)] ask_upstream_setup [OF upstream(7)] protect_setup [OF upstream(8)]
    by (simp add: assms(3))
  moreover have "same_setup s s'" using ResolveQuery_frame [OF assms(1)] by simp
  ultimately show ?thesis
    using len upstream(1,2,5,9) g cache_ok_storable [OF g len(1)] cache_get_refines(3,4) [OF cache_inv_wf [OF i]]
    by (intro conjI exI [of _ ?c1]) (auto simp: cache_ok_def)
qed (use assms(2) in simp_all)



text \<open>
  When no upstream answers, the client gets the empty response (no error code, no answer), and
  that response is stored like any other: for the whole lifetime the name does not resolve, also
  when the upstream is back.
\<close>

lemma failed_lookup_cached:
  assumes "ResolveQuery e s packet h q = Some (r, s')" "rr_source r = RESOLVE_UPSTREAM"
    and "dot_servers (srv_resolver s) = []" "\<not> u_socket (e_udp e)" "\<not> rebind_protection (srv_config s)"
    and "srv_cache s = Some c" "server_ok s" "env_ok e" "length (qname q) \<le> 2 ^ 16"
  shows "rr_response r = BuildEmptyResponse h q \<and>
    (\<exists>c1. srv_cache s' = Some (cache_put (e_put_time e) (e_expiry_time e) c1
        (MakeCacheKey (qname q) (qtype q)) (BuildEmptyResponse h q)))"
proof -
  have "rr_response r = BuildEmptyResponse h q"
    using assms(1)
  proof (cases rule: ResolveQuery_cases)
    case (upstream s1 s2 s3 resp up resp')
    have "same_setup s s1" "same_setup s1 s2"
      using cache_lookup_result [OF upstream(6)] ask_upstream_setup [OF upstream(7)] by auto
    then have s: "dot_servers (srv_resolver s1) = []" "\<not> rebind_protection (srv_config s2)"
      using assms(3,5) by (simp_all add: same_setup_def)
    have "resp = BuildEmptyResponse h q"
      using upstream(7) s(1) assms(4)
      by (auto simp: ask_upstream_def ResolveDot_def ResolveUdp_def Let_def split: prod.splits bool.splits if_splits)
    with upstream(5,8) s(2) show ?thesis by (simp add: protect_def)
  qed (use assms(2) in simp_all)
  with upstream_stored [OF assms(1,2,6-9)] show ?thesis by auto
qed

subsection \<open>The client's name\<close>

definition ptr_header :: DnsHeader where
  "ptr_header = \<lparr>hdr_id = 0x4242, hdr_flags = 0x0100, hdr_qdcount = 1, hdr_ancount = 0, hdr_nscount = 0,
     hdr_arcount = 0\<rparr>"

definition ptr_question :: "string \<Rightarrow> DnsQuestion" where
  "ptr_question name = \<lparr>qname = name, qtype = DNS_TYPE_PTR, qclass = 1, raw_offset = 12,
     raw_length = length (WriteQName [] name) + 4\<rparr>"

lemma ptr_query_parses:
  assumes "wf_name name" "name \<noteq> []"
  shows "ParseDnsQuery (ptr_query name) = returns_true (ptr_header, ptr_question name)"
proof -
  define H :: bytes where "H = [0x42, 0x42, 0x01, 0x00, 0x00, 0x01, 0x00, 0x00, 0x00, 0x00, 0x00, 0x00]"
  let ?N = "WriteQName [] name"
  have h: "ucast (drop_bit 8 (0x4242 :: u16) AND 0xFF) = (0x42 :: byte)" "ucast ((0x4242 :: u16) AND 0xFF) = (0x42 :: byte)"
    "ucast DNS_TYPE_PTR = (12 :: byte)" "WriteU16 [] DNS_TYPE_PTR = [0, 12]" "WriteU16 [] 1 = [0, 1]"
    by code_simp+
  have p: "ptr_query name = H @ ?N @ WriteU16 [] DNS_TYPE_PTR @ WriteU16 [] 1"
    using assms(2) by (simp add: ptr_query_def Let_def WriteQName_def h H_def)
  have H: "length H = 12" by (simp add: H_def)
  have len: "length (ptr_query name) = 12 + length ?N + 4" by (simp add: p H)
  have n: "ParseQName (ptr_query name) 12 = returns_true (name, 12 + length ?N)"
    using ParseQName_after [OF assms(1), of H "WriteU16 [] DNS_TYPE_PTR @ WriteU16 [] 1"] by (simp add: p H)
  have t: "ReadU16 (ptr_query name) (12 + length ?N) = Some DNS_TYPE_PTR"
    using ReadU16_after [of "H @ ?N" DNS_TYPE_PTR "WriteU16 [] 1"] by (simp add: p H)
  have c: "ReadU16 (ptr_query name) (12 + length ?N + 2) = Some 1"
    using ReadU16_after [of "H @ ?N @ WriteU16 [] DNS_TYPE_PTR" 1 "[]"] by (simp add: p H)
  have f: "ReadU16 (ptr_query name) 4 = Some 1" "ReadHeader (ptr_query name) = Some ptr_header"
    by (simp_all add: p ReadHeader_def ReadU16_def byte_at_def ptr_header_def H_def)
  show ?thesis using len n t c f by (simp add: ParseDnsQuery_def ptr_question_def)
qed

lemma reverse_name_wf:
  assumes "length parts = 4" "list_all wf_label parts"
  shows "wf_name (reverse_name parts) \<and> reverse_name parts \<noteq> []"
proof -
  obtain w x y z where p: "parts = [w, x, y, z]"
    using assms(1) by (auto simp: numeral_eq_Suc length_Suc_conv)
  have "reverse_name parts = join_with CHR ''.'' [z, y, x, w, ''in-addr'', ''arpa'']"
    by (simp add: reverse_name_def p)
  moreover have "list_all wf_label [z, y, x, w, ''in-addr'', ''arpa'']"
    using assms(2) by (simp add: p wf_label_def)
  ultimately show ?thesis by (metis wf_name_join list.distinct(1) join_with_eq_Nil list.inject)
qed

text \<open>
  C37: Clients are named by local PTR records. When the address of a client is a dotted quad, its
  reverse name is not blocked and a local PTR record gives that name a well-formed target, then
  the lookup of the client's name returns that target, without asking an upstream.
\<close>

theorem client_named_by_local_record:
  assumes "e_ntop e client = Some a" "length (Split a CHR ''.'') = 4" "list_all wf_label (Split a CHR ''.'')"
    and "\<not> blocked_name s (reverse_name (Split a CHR ''.''))"
    and "Resolve (srv_local s) (reverse_name (Split a CHR ''.'')) DNS_TYPE_PTR = Some (target, DNS_TYPE_PTR)"
    and "wf_name target" "target \<noteq> []" "length target < 65000"
  shows "ResolveClientName e s client = Some (target, debug s ''Local record match'')"
proof -
  let ?n = "reverse_name (Split a CHR ''.'')"
  have wf: "wf_name ?n" "?n \<noteq> []" using reverse_name_wf [OF assms(2,3)] by simp_all
  have q: "qname (ptr_question ?n) = ?n" "qtype (ptr_question ?n) = DNS_TYPE_PTR"
    by (simp_all add: ptr_question_def)
  have "answer_local e ptr_header (ptr_question ?n) target DNS_TYPE_PTR =
      BuildPTRResponse ptr_header (ptr_question ?n) target"
    by (simp add: answer_local_def wire_simps)
  then have r: "ResolveQuery e s (ptr_query ?n) ptr_header (ptr_question ?n) =
      Some (\<lparr>rr_response = BuildPTRResponse ptr_header (ptr_question ?n) target, rr_source = RESOLVE_LOCAL,
             rr_upstream = []\<rparr>, debug s ''Local record match'')"
    using assms(4,5) by (auto simp: ResolveQuery_def q blocked_name_def split: option.splits)
  have "ExtractFirstPtrTarget (BuildPTRResponse ptr_header (ptr_question ?n) target) = returns_true target"
    by (rule ptr_response_roundtrip) (simp_all add: q wf assms(6,8))
  with assms(1,2,7) show ?thesis
    by (simp add: ResolveClientName_def Let_def ptr_query_parses [OF wf] r)
qed

definition ptr_records :: "LocalRecord list" where
  "ptr_records = [\<lparr>rec_name = ''7.0.0.10.in-addr.arpa'', rec_type = ''ptr'', rec_value = ''laptop.lan''\<rparr>]"

theorem client_named_by_local_record_witness:
  "map_option fst (ResolveClientName (sample_query_env 5 [])
     (sample_server\<lparr>srv_local := Load no_records ptr_records\<rparr>) ([10, 0, 0, 7], 53)) = Some ''laptop.lan''"
proof -
  let ?s = "sample_server\<lparr>srv_local := Load no_records ptr_records\<rparr>"
  have p: "Split ''10.0.0.7'' CHR ''.'' = [''10'', ''0'', ''0'', ''7'']" by code_simp
  then have r: "reverse_name (Split ''10.0.0.7'' CHR ''.'') = ''7.0.0.10.in-addr.arpa''"
    by (simp add: reverse_name_def)
  have "\<not> blocked_name ?s ''7.0.0.10.in-addr.arpa''"
    "Resolve (srv_local ?s) ''7.0.0.10.in-addr.arpa'' DNS_TYPE_PTR = Some (''laptop.lan'', DNS_TYPE_PTR)"
    "wf_name ''laptop.lan''"
    by code_simp+
  moreover have "e_ntop (sample_query_env 5 []) ([10, 0, 0, 7], 53) = Some ''10.0.0.7''"
    by (simp add: sample_query_env_def)
  moreover have "length (Split ''10.0.0.7'' CHR ''.'') = 4" "list_all wf_label (Split ''10.0.0.7'' CHR ''.'')"
    by (simp_all add: p wf_label_def)
  ultimately show ?thesis
    using client_named_by_local_record [of "sample_query_env 5 []" "([10, 0, 0, 7], 53)" "''10.0.0.7''" ?s "''laptop.lan''"]
    unfolding r by simp
qed

subsection \<open>MX values\<close>

lemma extract_ulong_decimal:
  assumes "\<not> (\<exists>c s. t = c # s \<and> isdigit c)" "n < 2 ^ 64"
  shows "extract_ulong (decimal n @ t) = (Some (word_of_nat n), t)"
  using read_decimal [OF assms(1), of n] assms(2) by (simp add: extract_ulong_def)

text \<open>
  MX values. A value that is a preference below 65536, a space and a host name is read as
  that preference and that name; a value that is a host name only gets the preference 10.
\<close>

lemma mx_value_roundtrip:
  assumes "host \<noteq> []" "\<forall>c\<in>set host. \<not> isspace c" "p < 2 ^ 16"
  shows "ParseMxValue (decimal p @ '' '' @ host) = (word_of_nat p, host) \<and>
    (\<not> isdigit (hd host) \<and> hd host \<notin> {CHR ''-'', CHR ''+''} \<longrightarrow> ParseMxValue host = (10, host))"
proof (intro conjI impI)
  have "isspace CHR '' ''" "\<not> isdigit CHR '' ''" by code_simp+
  then have e: "extract_ulong (decimal p @ '' '' @ host) = (Some (word_of_nat p), '' '' @ host)"
    using assms(3) by (intro extract_ulong_decimal) auto
  have "dropWhile isspace ('' '' @ host) = host"
    using assms(1,2) \<open>isspace CHR '' ''\<close> by (cases host) simp_all
  moreover have "takeWhile (\<lambda>c. \<not> isspace c) host = host" using assms(2) by (intro takeWhile_all) auto
  ultimately have w: "extract_word ('' '' @ host) = (Some host, dropWhile (\<lambda>c. \<not> isspace c) host)"
    using assms(1) unfolding extract_word_def Let_def by (simp only: if_False)
  have "(word_of_nat p :: u64) \<le> 65535" using assms(3) by (simp add: word_le_nat_alt unat_of_nat)
  moreover have "(ucast (word_of_nat p :: u64) :: u16) = word_of_nat p" using assms(3) by (simp add: unsigned_of_nat take_bit_nat_eq_self)
  ultimately show "ParseMxValue (decimal p @ '' '' @ host) = (word_of_nat p, host)"
    by (simp add: ParseMxValue_def e [simplified] w [simplified])
next
  assume h: "\<not> isdigit (hd host) \<and> hd host \<notin> {CHR ''-'', CHR ''+''}"
  obtain c s where c: "host = c # s" using assms(1) by (cases host) simp_all
  have "extract_ulong host = (None, host)"
    using h assms(2) by (simp add: extract_ulong_def c)
  moreover have "Trim host = host" using assms(1,2) by (intro Trim_id) auto
  ultimately show "ParseMxValue host = (10, host)" by (simp add: ParseMxValue_def)
qed

end
