(* ===== verification/Worker_Pool.thy ===== *)
theory Worker_Pool
  imports Dns_Server "HOL-Library.Multiset"
begin

text \<open>
  The threads of \<open>DnsServer\<close> (\<open>src/dns_server.cpp\<close>): the main thread receives datagrams and
  enqueues them, the workers dequeue and handle them, and \<open>StopWorkers\<close> lets them drain the
  queue and joins them. What a thread does while it holds \<open>queue_mutex_\<close> is one step; a worker
  that waits on the condition variable sleeps until a signal, a broadcast or a spurious wakeup.
  Handling a job is two steps, so any number of jobs are in progress at once.

  \<open>p_accepted\<close>, \<open>p_taken\<close> and \<open>p_done\<close> record the jobs that were enqueued, dequeued and handled;
  the code has no such variables.
\<close>

subsection \<open>State\<close>

datatype worker = Ready | Sleeping | Busy job | Exited

datatype main_phase = Serving | Joining | Returned

record pool =
  p_queue :: "job list"
  p_running :: bool
  p_workers :: "worker list"
  p_main :: main_phase
  p_accepted :: "job list"
  p_taken :: "job list"
  p_done :: "job list"

subsection \<open>The operations\<close>

text \<open>\<open>StartWorkers\<close>: one thread per successful \<open>pthread_create\<close>, of four attempts.\<close>

fun start_loop :: "bool list \<Rightarrow> worker list \<Rightarrow> worker list" where
  "start_loop [] ws = ws"
| "start_loop (ok # oks) ws = start_loop oks (if ok then ws @ [Ready] else ws)"

definition StartWorkers :: "bool \<times> bool \<times> bool \<times> bool \<Rightarrow> worker list" where
  "StartWorkers create = (case create of (a, b, c, d) \<Rightarrow> start_loop [a, b, c, d] [])"

definition Enqueue :: "job \<Rightarrow> pool \<Rightarrow> pool" where
  "Enqueue j p = p\<lparr>p_queue := p_queue p @ [j], p_accepted := p_accepted p @ [j]\<rparr>"

datatype dequeued = Waits | Stops | Takes job pool

text \<open>One pass of \<open>Dequeue\<close> under the mutex, up to the wait or the unlock.\<close>

definition Dequeue :: "pool \<Rightarrow> dequeued" where
  "Dequeue p =
     (if p_queue p = [] \<and> p_running p then Waits
      else if \<not> p_running p \<and> p_queue p = [] then Stops
      else Takes (hd (p_queue p))
             (p\<lparr>p_queue := tl (p_queue p), p_taken := p_taken p @ [hd (p_queue p)]\<rparr>))"

text \<open>The first half of \<open>StopWorkers\<close>; the broadcast wakes every sleeper.\<close>

definition wake :: "worker \<Rightarrow> worker" where
  "wake w = (if w = Sleeping then Ready else w)"

definition begin_stop :: "pool \<Rightarrow> pool" where
  "begin_stop p = p\<lparr>p_running := False, p_workers := map wake (p_workers p), p_main := Joining\<rparr>"

definition set_worker :: "nat \<Rightarrow> worker \<Rightarrow> pool \<Rightarrow> pool" where
  "set_worker i w p = p\<lparr>p_workers := (p_workers p)[i := w]\<rparr>"

definition finish :: "job \<Rightarrow> pool \<Rightarrow> pool" where
  "finish j p = p\<lparr>p_done := p_done p @ [j]\<rparr>"

inductive pool_step :: "pool \<Rightarrow> pool \<Rightarrow> bool" where
  enqueue_signal: "p_main p = Serving \<Longrightarrow> i < length (p_workers p) \<Longrightarrow> p_workers p ! i = Sleeping \<Longrightarrow>
    pool_step p (set_worker i Ready (Enqueue j p))"
| enqueue_silent: "p_main p = Serving \<Longrightarrow> Sleeping \<notin> set (p_workers p) \<Longrightarrow> pool_step p (Enqueue j p)"
| stop: "p_main p = Serving \<Longrightarrow> pool_step p (begin_stop p)"
| join: "p_main p = Joining \<Longrightarrow> set (p_workers p) \<subseteq> {Exited} \<Longrightarrow>
    pool_step p (p\<lparr>p_workers := [], p_main := Returned\<rparr>)"
| sleep: "i < length (p_workers p) \<Longrightarrow> p_workers p ! i = Ready \<Longrightarrow> Dequeue p = Waits \<Longrightarrow>
    pool_step p (set_worker i Sleeping p)"
| spurious: "i < length (p_workers p) \<Longrightarrow> p_workers p ! i = Sleeping \<Longrightarrow> pool_step p (set_worker i Ready p)"
| take_job: "i < length (p_workers p) \<Longrightarrow> p_workers p ! i = Ready \<Longrightarrow> Dequeue p = Takes j p' \<Longrightarrow>
    pool_step p (set_worker i (Busy j) p')"
| handled: "i < length (p_workers p) \<Longrightarrow> p_workers p ! i = Busy j \<Longrightarrow>
    pool_step p (set_worker i Ready (finish j p))"
| leave: "i < length (p_workers p) \<Longrightarrow> p_workers p ! i = Ready \<Longrightarrow> Dequeue p = Stops \<Longrightarrow>
    pool_step p (set_worker i Exited p)"

definition start_pool :: "bool \<times> bool \<times> bool \<times> bool \<Rightarrow> pool" where
  "start_pool create = \<lparr>p_queue = [], p_running = True, p_workers = StartWorkers create, p_main = Serving,
     p_accepted = [], p_taken = [], p_done = []\<rparr>"

inductive reachable_pool :: "pool \<Rightarrow> bool" where
  at_start: "reachable_pool (start_pool create)"
| after_step: "reachable_pool p \<Longrightarrow> pool_step p p' \<Longrightarrow> reachable_pool p'"

inductive_cases pool_stepE: "pool_step p p'"

subsection \<open>The queue is first in, first out\<close>

locale fifo =
  fixes put :: "'j \<Rightarrow> 's \<Rightarrow> 's"
    and fetch :: "'s \<Rightarrow> ('j \<times> 's) option"
    and items :: "'s \<Rightarrow> 'j list"
  assumes put_items: "items (put j s) = items s @ [j]"
    and fetch_items: "fetch s = Some (j, s') \<Longrightarrow> items s = j # items s'"
    and fetch_empty: "fetch s = None \<longleftrightarrow> items s = []"
begin

text \<open>The jobs that a sequence of operations fetches; \<open>None\<close> is a fetch.\<close>

fun fetched :: "'j option list \<Rightarrow> 's \<Rightarrow> 'j list \<times> 's" where
  "fetched [] s = ([], s)"
| "fetched (Some j # ops) s = fetched ops (put j s)"
| "fetched (None # ops) s =
     (case fetch s of
        None \<Rightarrow> fetched ops s
      | Some (j, s') \<Rightarrow> (case fetched ops s' of (js, s'') \<Rightarrow> (j # js, s'')))"

lemma fetched_in_order:
  "fetched ops s = (js, s') \<Longrightarrow> js @ items s' = items s @ map the (filter (\<lambda>x. x \<noteq> None) ops)"
proof (induction ops arbitrary: s js s')
  case (Cons x ops)
  show ?case
  proof (cases x)
    case (Some j)
    with Cons.IH [of "put j s"] Cons.prems show ?thesis by (simp add: put_items)
  next
    case None
    show ?thesis
    proof (cases "fetch s")
      case n: None
      with Cons.IH [of s] Cons.prems None show ?thesis by simp
    next
      case (Some r)
      obtain j s1 where r: "r = (j, s1)" by (cases r)
      obtain ks s2 where f: "fetched ops s1 = (ks, s2)" by (cases "fetched ops s1")
      with Cons.prems None Some r have "js = j # ks" "s' = s2" by simp_all
      with Cons.IH [OF f] fetch_items [of s j s1] Some r None show ?thesis by simp
    qed
  qed
qed simp

end

definition try_take :: "pool \<Rightarrow> (job \<times> pool) option" where
  "try_take p = (case Dequeue p of Takes j p' \<Rightarrow> Some (j, p') | _ \<Rightarrow> None)"

interpretation jobs: fifo Enqueue try_take p_queue
proof
  fix j and p p' :: pool
  show "p_queue (Enqueue j p) = p_queue p @ [j]" by (simp add: Enqueue_def)
  show "p_queue p = j # p_queue p'" if "try_take p = Some (j, p')"
    using that by (cases "p_queue p") (auto simp: try_take_def Dequeue_def split: if_splits)
  show "try_take p = None \<longleftrightarrow> p_queue p = []"
    by (cases "p_queue p") (auto simp: try_take_def Dequeue_def)
qed

lemma Dequeue_Takes:
  assumes "Dequeue p = Takes j p'"
  shows "p_queue p = j # p_queue p' \<and> p_taken p' = p_taken p @ [j] \<and>
    p_accepted p' = p_accepted p \<and> p_done p' = p_done p \<and> p_workers p' = p_workers p \<and>
    p_running p' = p_running p \<and> p_main p' = p_main p"
proof (cases "p_queue p")
  case Nil
  with assms show ?thesis by (simp add: Dequeue_def split: if_splits)
next
  case (Cons a as)
  then have "Dequeue p = Takes a (p\<lparr>p_queue := as, p_taken := p_taken p @ [a]\<rparr>)"
    by (simp add: Dequeue_def)
  with assms have "j = a" "p' = p\<lparr>p_queue := as, p_taken := p_taken p @ [a]\<rparr>" by auto
  with Cons show ?thesis by simp
qed

subsection \<open>Every job is handled once\<close>

definition busy_jobs :: "worker list \<Rightarrow> job multiset" where
  "busy_jobs ws = mset (List.map_filter (\<lambda>w. case w of Busy j \<Rightarrow> Some j | _ \<Rightarrow> None) ws)"

lemma busy_jobs_simps [simp]:
  "busy_jobs [] = {#}" "busy_jobs (Busy j # ws) = add_mset j (busy_jobs ws)"
  "busy_jobs (Ready # ws) = busy_jobs ws" "busy_jobs (Sleeping # ws) = busy_jobs ws"
  "busy_jobs (Exited # ws) = busy_jobs ws"
  by (simp_all add: busy_jobs_def List.map_filter_simps)

lemma busy_jobs_append [simp]: "busy_jobs (xs @ ys) = busy_jobs xs + busy_jobs ys"
  by (induction xs) (auto simp: busy_jobs_def List.map_filter_simps split: worker.split)

lemma busy_jobs_Cons: "busy_jobs (w # ws) = busy_jobs [w] + busy_jobs ws"
  using busy_jobs_append [of "[w]" ws] by simp

lemma busy_jobs_update:
  "i < length ws \<Longrightarrow> busy_jobs (ws[i := w]) + busy_jobs [ws ! i] = busy_jobs ws + busy_jobs [w]"
proof (induction ws arbitrary: i)
  case (Cons v ws)
  show ?case
  proof (cases i)
    case 0
    then show ?thesis using busy_jobs_Cons [of w ws] busy_jobs_Cons [of v ws] by (simp add: ac_simps)
  next
    case (Suc k)
    then have "busy_jobs (ws[k := w]) + busy_jobs [ws ! k] = busy_jobs ws + busy_jobs [w]"
      using Cons by simp
    then show ?thesis
      using busy_jobs_Cons [of v "ws[k := w]"] busy_jobs_Cons [of v ws] by (simp add: Suc ac_simps)
  qed
qed simp

lemma busy_jobs_wake [simp]: "busy_jobs (map wake ws) = busy_jobs ws"
proof (induction ws)
  case (Cons w ws)
  then show ?case by (cases w) (simp_all add: wake_def)
qed simp

definition accounted :: "pool \<Rightarrow> bool" where
  "accounted p \<longleftrightarrow> p_taken p @ p_queue p = p_accepted p \<and>
     mset (p_done p) + busy_jobs (p_workers p) = mset (p_taken p)"

lemma set_worker_simps [simp]:
  "p_queue (set_worker i w p) = p_queue p" "p_running (set_worker i w p) = p_running p"
  "p_main (set_worker i w p) = p_main p" "p_accepted (set_worker i w p) = p_accepted p"
  "p_taken (set_worker i w p) = p_taken p" "p_done (set_worker i w p) = p_done p"
  "p_workers (set_worker i w p) = (p_workers p)[i := w]"
  by (simp_all add: set_worker_def)

lemma start_loop_workers: "start_loop oks ws = ws @ replicate (length (filter id oks)) Ready"
  by (induction oks ws rule: start_loop.induct) auto

lemma busy_jobs_Ready [simp]: "busy_jobs (replicate n Ready) = {#}"
  by (induction n) auto

lemma busy_jobs_Exited: "set ws \<subseteq> {Exited} \<Longrightarrow> busy_jobs ws = {#}"
  by (induction ws) auto

lemma pool_step_accounted: "pool_step p p' \<Longrightarrow> accounted p \<Longrightarrow> accounted p'"
proof (induction rule: pool_step.induct)
  case (enqueue_signal p i j)
  then show ?case
    using busy_jobs_update [of i "p_workers p" Ready] by (simp add: accounted_def Enqueue_def)
next
  case (join p)
  then show ?case by (simp add: accounted_def busy_jobs_Exited)
next
  case (sleep i p)
  then show ?case using busy_jobs_update [of i "p_workers p" Sleeping] by (simp add: accounted_def)
next
  case (spurious i p)
  then show ?case using busy_jobs_update [of i "p_workers p" Ready] by (simp add: accounted_def)
next
  case (take_job i p j p')
  then show ?case
    using busy_jobs_update [of i "p_workers p" "Busy j"] Dequeue_Takes [OF take_job(3)]
    by (simp add: accounted_def)
next
  case (handled i p j)
  then have "busy_jobs (p_workers p) = add_mset j (busy_jobs ((p_workers p)[i := Ready]))"
    using busy_jobs_update [of i "p_workers p" Ready] by simp
  with handled(3) show ?case by (simp add: accounted_def finish_def)
next
  case (leave i p)
  then show ?case using busy_jobs_update [of i "p_workers p" Exited] by (simp add: accounted_def)
qed (simp_all add: accounted_def Enqueue_def begin_stop_def)

lemma start_accounted: "accounted (start_pool create)"
  by (cases create) (simp add: accounted_def start_pool_def StartWorkers_def start_loop_workers)

lemma reachable_accounted: "reachable_pool p \<Longrightarrow> accounted p"
  by (induction rule: reachable_pool.induct) (simp_all add: start_accounted pool_step_accounted)

text \<open>
  C11: Every job once, in order. In every reachable state, whatever the interleaving, the jobs that
  were dequeued followed by those in the queue are the jobs that were received, in the order of
  their arrival, and each dequeued job is either in the hands of exactly one worker or has been
  handled exactly once.
\<close>

theorem jobs_once_in_order:
  assumes "reachable_pool p"
  shows "p_taken p @ p_queue p = p_accepted p \<and>
    mset (p_done p) + busy_jobs (p_workers p) = mset (p_taken p)"
  using reachable_accounted [OF assms] by (simp add: accounted_def)

subsection \<open>No lost wakeup\<close>

definition count_ready :: "worker list \<Rightarrow> nat" where
  "count_ready ws = length (filter (\<lambda>w. w = Ready) ws)"

definition awake_enough :: "pool \<Rightarrow> bool" where
  "awake_enough p \<longleftrightarrow>
     (Sleeping \<in> set (p_workers p) \<longrightarrow> length (p_queue p) \<le> count_ready (p_workers p) \<and> p_running p)"

lemma count_ready_update:
  "i < length ws \<Longrightarrow> count_ready (ws[i := w]) + (if ws ! i = Ready then 1 else 0) =
     count_ready ws + (if w = Ready then 1 else 0)"
proof (induction ws arbitrary: i)
  case (Cons v ws)
  show ?case
  proof (cases i)
    case (Suc k)
    with Cons.IH [of k] Cons.prems show ?thesis by (auto simp: count_ready_def)
  qed (auto simp: count_ready_def)
qed simp

lemma Sleeping_update: "Sleeping \<in> set (ws[i := w]) \<Longrightarrow> w \<noteq> Sleeping \<Longrightarrow> Sleeping \<in> set ws"
  using set_update_subset_insert [of ws i w] by auto

lemma not_Sleeping_wake: "Sleeping \<notin> wake ` set ws"
  by (auto simp: wake_def)

lemma pool_step_awake: "pool_step p p' \<Longrightarrow> awake_enough p \<Longrightarrow> awake_enough p'"
proof (induction rule: pool_step.induct)
  case (enqueue_signal p i j)
  have "Sleeping \<in> set (p_workers p)" using enqueue_signal(2,3) by (metis nth_mem)
  then have "length (p_queue p) \<le> count_ready (p_workers p)" "p_running p"
    using enqueue_signal(4) by (simp_all add: awake_enough_def)
  then show ?case
    using count_ready_update [OF enqueue_signal(2), of Ready] enqueue_signal(3)
    by (simp add: awake_enough_def Enqueue_def)
next
  case (sleep i p)
  then have "p_queue p = []" "p_running p" by (auto simp: Dequeue_def split: if_splits)
  then show ?case by (simp add: awake_enough_def)
next
  case (spurious i p)
  have "Sleeping \<in> set (p_workers p)" using spurious(1,2) by (metis nth_mem)
  then show ?case
    using spurious(3) count_ready_update [OF spurious(1), of Ready] spurious(2) by (simp add: awake_enough_def)
next
  case (take_job i p j p')
  note d = Dequeue_Takes [OF take_job(3)]
  have "Sleeping \<in> set (p_workers p)" if "Sleeping \<in> set ((p_workers p)[i := Busy j])"
    using Sleeping_update [OF that] by simp
  then show ?case
    using take_job(4) d count_ready_update [OF take_job(1), of "Busy j"] take_job(2)
    by (auto simp: awake_enough_def)
next
  case (handled i p j)
  have "Sleeping \<in> set (p_workers p)" if "Sleeping \<in> set ((p_workers p)[i := Ready])"
    using Sleeping_update [OF that] by simp
  then show ?case
    using handled(3) count_ready_update [OF handled(1), of Ready] handled(2)
    by (auto simp: awake_enough_def finish_def)
next
  case (leave i p)
  have "p_queue p = []" "\<not> p_running p" using leave(3) by (auto simp: Dequeue_def split: if_splits)
  moreover have "Sleeping \<in> set (p_workers p)" if "Sleeping \<in> set ((p_workers p)[i := Exited])"
    using Sleeping_update [OF that] by simp
  ultimately show ?case using leave(4) by (auto simp: awake_enough_def)
qed (simp_all add: awake_enough_def Enqueue_def begin_stop_def not_Sleeping_wake)

lemma start_awake: "awake_enough (start_pool create)"
  by (cases create) (simp add: awake_enough_def start_pool_def StartWorkers_def start_loop_workers)

text \<open>
  C15: No lost wakeup. In every reachable state in which a worker sleeps, no more jobs are queued
  than there are workers that are awake and about to look at the queue; so no job waits for a
  sleeping worker, and after \<open>StopWorkers\<close> has begun no worker sleeps.
\<close>

theorem no_lost_wakeup:
  assumes "reachable_pool p" "Sleeping \<in> set (p_workers p)"
  shows "length (p_queue p) \<le> count_ready (p_workers p) \<and> p_running p"
proof -
  from assms(1) have "awake_enough p"
    by (induction rule: reachable_pool.induct) (simp_all add: start_awake pool_step_awake)
  with assms(2) show ?thesis by (simp add: awake_enough_def)
qed

definition sample_job :: job where
  "sample_job = \<lparr>job_packet = [1], job_client = ([10, 0, 0, 7], 53)\<rparr>"

definition one_asleep :: pool where
  "one_asleep = set_worker 0 Sleeping (start_pool (True, True, False, False))"

lemma one_asleep_reachable: "reachable_pool one_asleep"
  unfolding one_asleep_def
  by (rule after_step [OF at_start [of "(True, True, False, False)"]], rule sleep)
    (simp_all add: start_pool_def StartWorkers_def Dequeue_def)

lemma woken_reachable: "reachable_pool (set_worker 0 Ready (Enqueue sample_job one_asleep))"
  by (rule after_step [OF one_asleep_reachable], rule enqueue_signal)
    (simp_all add: one_asleep_def start_pool_def StartWorkers_def)

theorem jobs_once_in_order_witness:
  "p_taken (set_worker 0 Ready (Enqueue sample_job one_asleep)) @
     p_queue (set_worker 0 Ready (Enqueue sample_job one_asleep)) = [sample_job]"
  using jobs_once_in_order [OF woken_reachable]
  by (simp add: Enqueue_def one_asleep_def start_pool_def)

theorem no_lost_wakeup_witness:
  "length (p_queue one_asleep) \<le> count_ready (p_workers one_asleep) \<and> count_ready (p_workers one_asleep) = 1"
proof -
  have w: "p_workers one_asleep = [Sleeping, Ready]"
    by (simp add: one_asleep_def start_pool_def StartWorkers_def)
  then show ?thesis using no_lost_wakeup [OF one_asleep_reachable] by (simp add: count_ready_def)
qed

subsection \<open>Stopping\<close>

definition phase_inv :: "pool \<Rightarrow> bool" where
  "phase_inv p \<longleftrightarrow>
     (p_running p \<longleftrightarrow> p_main p = Serving) \<and>
     (p_main p \<noteq> Serving \<longrightarrow> Sleeping \<notin> set (p_workers p)) \<and>
     (Exited \<in> set (p_workers p) \<longrightarrow> p_main p \<noteq> Serving \<and> p_queue p = []) \<and>
     (p_main p = Returned \<longrightarrow> p_workers p = [])"

lemma in_set_update: "v \<in> set (ws[i := w]) \<Longrightarrow> v \<noteq> w \<Longrightarrow> v \<in> set ws"
  using set_update_subset_insert [of ws i w] by auto

lemma Exited_wake: "Exited \<in> wake ` S \<Longrightarrow> Exited \<in> S"
  by (auto simp: wake_def split: if_splits)

lemma Exited_not_woken: "Exited \<notin> S \<Longrightarrow> Exited \<notin> wake ` S"
  using Exited_wake by blast

lemma pool_step_phase: "pool_step p p' \<Longrightarrow> phase_inv p \<Longrightarrow> phase_inv p'"
proof (induction rule: pool_step.induct)
  case (enqueue_signal p i j)
  then show ?case
    using in_set_update [of Exited "p_workers p" i Ready] by (auto simp: phase_inv_def Enqueue_def)
next
  case (stop p)
  then have "Exited \<notin> set (p_workers p)" by (auto simp: phase_inv_def)
  then show ?case
    by (simp add: phase_inv_def begin_stop_def not_Sleeping_wake Exited_not_woken)
next
  case (sleep i p)
  then have "p_running p" by (auto simp: Dequeue_def split: if_splits)
  with sleep(4) show ?case
    using in_set_update [of Exited "p_workers p" i Sleeping] by (auto simp: phase_inv_def)
next
  case (spurious i p)
  then show ?case
    using in_set_update [of Exited "p_workers p" i Ready] in_set_update [of Sleeping "p_workers p" i Ready]
    by (auto simp: phase_inv_def)
next
  case (take_job i p j p')
  note d = Dequeue_Takes [OF take_job(3)]
  then have "Exited \<notin> set (p_workers p)" using take_job(4) by (auto simp: phase_inv_def)
  with take_job(4) d show ?case
    using in_set_update [of Exited "p_workers p" i "Busy j"] in_set_update [of Sleeping "p_workers p" i "Busy j"]
    by (auto simp: phase_inv_def)
next
  case (handled i p j)
  then show ?case
    using in_set_update [of Exited "p_workers p" i Ready] in_set_update [of Sleeping "p_workers p" i Ready]
    by (auto simp: phase_inv_def finish_def)
next
  case (leave i p)
  then have "p_queue p = []" "\<not> p_running p" by (auto simp: Dequeue_def split: if_splits)
  with leave(4) show ?case
    using in_set_update [of Sleeping "p_workers p" i Exited] by (auto simp: phase_inv_def)
qed (auto simp: phase_inv_def Enqueue_def)

lemma reachable_phase: "reachable_pool p \<Longrightarrow> phase_inv p"
proof (induction rule: reachable_pool.induct)
  case (at_start create)
  show ?case by (cases create) (simp add: phase_inv_def start_pool_def StartWorkers_def start_loop_workers)
qed (rule pool_step_phase)

text \<open>The steps that are left once the main thread waits.\<close>

fun worker_weight :: "worker \<Rightarrow> nat" where
  "worker_weight Ready = 1"
| "worker_weight Sleeping = 2"
| "worker_weight (Busy j) = 2"
| "worker_weight Exited = 0"

definition weight :: "pool \<Rightarrow> nat" where
  "weight p = 2 * length (p_queue p) + sum_list (map worker_weight (p_workers p)) +
     (if p_main p = Joining then 1 else 0)"

lemma weight_update:
  "i < length ws \<Longrightarrow> sum_list (map worker_weight (ws[i := w])) + worker_weight (ws ! i) =
     sum_list (map worker_weight ws) + worker_weight w"
proof (induction ws arbitrary: i)
  case (Cons v ws)
  show ?case
  proof (cases i)
    case (Suc k)
    with Cons.IH [of k] Cons.prems show ?thesis by simp
  qed simp
qed simp

lemma joining_step:
  assumes "pool_step p p'" "p_main p \<noteq> Serving" "phase_inv p"
  shows "weight p' < weight p \<and> p_main p' \<noteq> Serving \<and> p_accepted p' = p_accepted p \<and>
    (p_main p' = Joining \<longrightarrow> length (p_workers p') = length (p_workers p)) \<and>
    (p_main p' = Returned \<and> p_workers p \<noteq> [] \<and> p_main p = Joining \<longrightarrow> p_queue p' = [])"
  using assms
proof (induction rule: pool_step.induct)
  case (join p)
  then have "p_workers p \<noteq> [] \<Longrightarrow> p_queue p = []" by (cases "p_workers p") (auto simp: phase_inv_def)
  with join show ?case by (simp add: weight_def)
next
  case (sleep i p)
  then have "p_running p" by (auto simp: Dequeue_def split: if_splits)
  with sleep show ?case by (simp add: phase_inv_def)
next
  case (spurious i p)
  then have "Sleeping \<in> set (p_workers p)" by (metis nth_mem)
  with spurious show ?case by (simp add: phase_inv_def)
next
  case (take_job i p j p')
  note d = Dequeue_Takes [OF take_job(3)]
  then show ?case
    using take_job weight_update [OF take_job(1), of "Busy j"] by (auto simp: weight_def)
next
  case (handled i p j)
  then show ?case
    using weight_update [OF handled(1), of Ready] by (auto simp: weight_def finish_def)
next
  case (leave i p)
  then show ?case
    using weight_update [OF leave(1), of Exited] by (auto simp: weight_def)
qed simp_all

lemma returned_stuck: "p_main p = Returned \<Longrightarrow> phase_inv p \<Longrightarrow> \<not> pool_step p p'"
  by (auto simp: phase_inv_def elim: pool_step.cases)

text \<open>A state of a server that is shutting down and has workers has a next step.\<close>

lemma joining_progress:
  assumes "p_main p = Joining" "phase_inv p"
  shows "\<exists>p'. pool_step p p'"
proof (cases "set (p_workers p) \<subseteq> {Exited}")
  case True
  with assms(1) join show ?thesis by blast
next
  case False
  then obtain i where i: "i < length (p_workers p)" "p_workers p ! i \<noteq> Exited"
    by (metis in_set_conv_nth insertI1 subsetI)
  have r: "\<not> p_running p" "Sleeping \<notin> set (p_workers p)" using assms by (simp_all add: phase_inv_def)
  then have "p_workers p ! i \<noteq> Sleeping" using i(1) by (metis nth_mem)
  show ?thesis
  proof (cases "p_workers p ! i")
    case Ready
    show ?thesis
    proof (cases "p_queue p")
      case Nil
      then have "Dequeue p = Stops" using r(1) by (simp add: Dequeue_def)
      with leave [OF i(1) Ready] show ?thesis by blast
    next
      case (Cons a as)
      then have "\<exists>j p'. Dequeue p = Takes j p'" by (simp add: Dequeue_def)
      with take_job [OF i(1) Ready] show ?thesis by blast
    qed
  next
    case (Busy j)
    with handled [OF i(1)] show ?thesis by blast
  qed (use i(2) \<open>p_workers p ! i \<noteq> Sleeping\<close> in simp_all)
qed

lemma joining_run:
  assumes "pool_step\<^sup>*\<^sup>* p p'" "reachable_pool p" "p_main p = Joining" "p_workers p \<noteq> []"
  shows "reachable_pool p' \<and> p_accepted p' = p_accepted p \<and>
    (p_main p' = Joining \<and> p_workers p' \<noteq> [] \<or> p_main p' = Returned \<and> p_queue p' = [])"
  using assms(1)
proof (induction rule: rtranclp_induct)
  case base
  with assms(2-4) show ?case by simp
next
  case (step y z)
  have y: "phase_inv y" using reachable_phase step.IH by blast
  have r: "reachable_pool z" using after_step step by blast
  show ?case
  proof (cases "p_main y = Joining")
    case True
    with joining_step [OF step.hyps(2) _ y] step.IH r show ?thesis by (cases "p_main z") auto
  next
    case False
    with step.IH have "p_main y = Returned" by auto
    with returned_stuck y step.hyps(2) show ?thesis by blast
  qed
qed

text \<open>
  Stopping drains the queue and ends. Once \<open>StopWorkers\<close> has begun with at least one worker, the
  number of steps that are left is bounded, whatever the scheduling; a next step exists until
  \<open>StopWorkers\<close> returns; and when it returns, every job that had been received has been handled
  exactly once.
\<close>

lemma stop_drains:
  assumes "reachable_pool p" "p_main p = Joining" "p_workers p \<noteq> []"
  shows "((pool_step ^^ k) p p' \<longrightarrow> k \<le> weight p) \<and>
    (pool_step\<^sup>*\<^sup>* p p' \<longrightarrow> (\<exists>p''. pool_step p' p'') \<or>
       (p_main p' = Returned \<and> p_accepted p' = p_accepted p \<and> mset (p_done p') = mset (p_accepted p)))"
proof (intro conjI impI)
  show "k \<le> weight p" if "(pool_step ^^ k) p p'"
  proof -
    have "k + weight p' \<le> weight p \<and> p_main p' \<noteq> Serving"
      using that
    proof (induction k arbitrary: p')
      case (Suc k)
      then obtain y where y: "(pool_step ^^ k) p y" "pool_step y p'" by auto
      have "pool_step\<^sup>*\<^sup>* p y" using y(1) by (rule relpowp_imp_rtranclp)
      then have "phase_inv y" using joining_run [OF _ assms] reachable_phase by blast
      with joining_step [OF y(2)] Suc.IH [OF y(1)] show ?case by auto
    qed (use assms(2) in simp)
    then show ?thesis by simp
  qed
next
  assume run: "pool_step\<^sup>*\<^sup>* p p'"
  note j = joining_run [OF run assms]
  have i: "phase_inv p'" using j reachable_phase by blast
  show "(\<exists>p''. pool_step p' p'') \<or>
      (p_main p' = Returned \<and> p_accepted p' = p_accepted p \<and> mset (p_done p') = mset (p_accepted p))"
  proof (cases "p_main p' = Joining")
    case True
    with joining_progress i show ?thesis by blast
  next
    case False
    with j i have r: "p_main p' = Returned" "p_queue p' = []" "p_workers p' = []" "p_accepted p' = p_accepted p"
      by (auto simp: phase_inv_def)
    have "accounted p'" using j by (blast intro: reachable_accounted)
    with r show ?thesis by (auto simp: accounted_def)
  qed
qed

text \<open>
  A server none of whose \<open>pthread_create\<close> calls succeeded runs without a worker: it accepts
  queries and answers none, and \<open>Run\<close> still reports success.
\<close>

lemma no_workers_no_answers:
  assumes "pool_step\<^sup>*\<^sup>* (start_pool (False, False, False, False)) p"
  shows "p_workers p = [] \<and> p_done p = []"
  using assms
proof (induction rule: rtranclp_induct)
  case base
  show ?case by (simp add: start_pool_def StartWorkers_def)
next
  case (step y z)
  from step.hyps(2) step.IH show ?case
    by (cases rule: pool_step.cases) (auto simp: Enqueue_def begin_stop_def)
qed

end
