(* ===== verification/Dns_Run.thy ===== *)
theory Dns_Run
  imports Worker_Pool Server_Laws
begin

text \<open>
  \<open>DnsServer::Run\<close> (\<open>src/dns_server.cpp\<close>): opening the listening socket with its error paths, the
  receive loop of the main thread, and closing. The worker threads that it starts and joins are
  those of theory \<open>Worker_Pool\<close>: the jobs that the loop enqueues are the \<open>Enqueue\<close> steps there.
\<close>

subsection \<open>The main thread\<close>

text \<open>
  What the calls of \<open>Run\<close> return before the loop: the socket, the non-blocking mode, the listen
  address, the bind.
\<close>

record run_env =
  r_socket :: bool
  r_nonblock :: bool
  r_pton :: "string \<Rightarrow> bytes option"
  r_bind :: bool
  r_error :: string
  r_create :: "bool \<times> bool \<times> bool \<times> bool"

definition with_net :: "(net \<Rightarrow> net) \<Rightarrow> dns_server \<Rightarrow> dns_server" where
  "with_net f s = s\<lparr>srv_net := f (srv_net s)\<rparr>"

text \<open>\<open>Run\<close> up to the loop; the workers, or \<open>None\<close> when it returns false.\<close>

definition open_listener :: "run_env \<Rightarrow> dns_server \<Rightarrow> worker list option \<times> dns_server" where
  "open_listener e s =
     (if \<not> r_socket e then (None, debug s (''socket() failed: '' @ r_error e))
      else let s = with_net open_sock s in
        if \<not> r_nonblock e then
          (None, with_net close_sock (debug s (''fcntl(O_NONBLOCK) failed: '' @ r_error e)))
        else if r_pton e (listen_addr (srv_config s)) = None then
          (None, with_net close_sock
                   (debug s (''inet_pton failed for address: '' @ listen_addr (srv_config s))))
        else if \<not> r_bind e then
          (None, with_net close_sock (debug s (''bind() failed: '' @ r_error e)))
        else
          let s = debug s (''Listening on '' @ listen_addr (srv_config s) @ '':'' @
                           decimal (unat (listen_port (srv_config s))));
              workers = StartWorkers (r_create e);
              s = debug s (''Worker threads started: '' @ decimal (length workers))
          in (Some workers, s))"

text \<open>The results of the successive \<open>recvfrom\<close> calls after one \<open>select\<close>.\<close>

datatype recv_result = Datagram bytes client "string option" | Would_Block | Recv_Failed

datatype select_result = Select_Failed | Select_Timeout | Other_Ready | Socket_Ready "recv_result list"

text \<open>The inner loop: the jobs that are enqueued, in order. The buffer has 4096 bytes.\<close>

fun receive_loop :: "string \<Rightarrow> recv_result list \<Rightarrow> dns_server \<Rightarrow> job list \<times> dns_server" where
  "receive_loop err [] s = ([], s)"
| "receive_loop err (Would_Block # rs) s = ([], s)"
| "receive_loop err (Recv_Failed # rs) s = ([], debug s (''recvfrom() failed: '' @ err))"
| "receive_loop err (Datagram b c addr_str # rs) s =
     (let buf = take 4096 b in
      if buf = [] then receive_loop err rs s
      else
        let s = (if DebugEnabled (net_log (srv_net s)) then
                   debug s (''Received '' @ decimal (length buf) @ '' bytes from '' @
                     (case addr_str of None \<Rightarrow> ''unknown'' | Some a \<Rightarrow> a) @ '':'' @ decimal (unat (snd c)))
                 else s);
            (js, s) = receive_loop err rs s
        in (\<lparr>job_packet = buf, job_client = c\<rparr> # js, s))"

text \<open>
  The signal handler, on \<open>g_running\<close>. The outer loop runs over the rounds of \<open>select\<close>, each with
  whether a signal arrives during it; it tests \<open>g_running\<close> before each round. \<open>None\<close> when the
  rounds end before a signal: the server is still serving.
\<close>

definition HandleSignal :: "bool \<Rightarrow> bool" where
  "HandleSignal g_running = False"

type_synonym round = "select_result \<times> bool"

fun serve_loop :: "string \<Rightarrow> bool \<Rightarrow> round list \<Rightarrow> dns_server \<Rightarrow> (job list \<times> dns_server) option" where
  "serve_loop err g_running [] s = (if g_running then None else Some ([], s))"
| "serve_loop err g_running ((ready, signal) # es) s =
     (if \<not> g_running then Some ([], s)
      else
        let g_running = (if signal then HandleSignal g_running else g_running) in
        case ready of
          Select_Failed \<Rightarrow> serve_loop err g_running es (debug s (''select() failed: '' @ err))
        | Select_Timeout \<Rightarrow> serve_loop err g_running es s
        | Other_Ready \<Rightarrow> serve_loop err g_running es s
        | Socket_Ready rs \<Rightarrow>
            (case receive_loop err rs s of (js, s) \<Rightarrow>
               case serve_loop err g_running es s of
                 None \<Rightarrow> None
               | Some (ks, s) \<Rightarrow> Some (js @ ks, s)))"

text \<open>\<open>Run\<close> after \<open>StopWorkers\<close> has returned.\<close>

definition close_listener :: "dns_server \<Rightarrow> dns_server" where
  "close_listener s = with_net close_sock s"

text \<open>
  The main thread's part of \<open>Run\<close>: its result, the jobs it has enqueued, and the server. What the
  workers do meanwhile is in theory \<open>Server_System\<close>.
\<close>

definition Run :: "run_env \<Rightarrow> bool \<Rightarrow> round list \<Rightarrow> dns_server \<Rightarrow> (bool \<times> job list \<times> dns_server) option" where
  "Run e g_running rounds s =
     (case open_listener e s of
        (None, s) \<Rightarrow> Some (False, [], s)
      | (Some workers, s) \<Rightarrow>
          (case serve_loop (r_error e) g_running rounds s of
             None \<Rightarrow> None
           | Some (js, s) \<Rightarrow> Some (True, js, close_listener s)))"

subsection \<open>What the main thread does\<close>

text \<open>The datagrams that one burst delivers: those before the first error, the empty ones dropped.\<close>

fun burst :: "recv_result list \<Rightarrow> job list" where
  "burst [] = []"
| "burst (Datagram b c a # rs) =
     (if b = [] then burst rs else \<lparr>job_packet = take 4096 b, job_client = c\<rparr> # burst rs)"
| "burst (r # rs) = []"

lemma receive_loop_jobs: "fst (receive_loop err rs s) = burst rs"
  by (induction err rs s rule: receive_loop.induct) (auto simp: Let_def split: prod.splits)

text \<open>The rounds that take place: those up to the first with a signal.\<close>

fun served_rounds :: "round list \<Rightarrow> select_result list" where
  "served_rounds [] = []"
| "served_rounds ((ready, signal) # es) = ready # (if signal then [] else served_rounds es)"

definition jobs_of :: "select_result list \<Rightarrow> job list" where
  "jobs_of es = concat (map (\<lambda>e. case e of Socket_Ready rs \<Rightarrow> burst rs | _ \<Rightarrow> []) es)"

lemma stopped_loop [simp]: "serve_loop err False es s = Some ([], s)"
  by (cases es) auto

lemma serve_loop_jobs:
  "map_option fst (serve_loop err True es s) =
     (if list_ex snd es then Some (jobs_of (served_rounds es)) else None)"
proof (induction es arbitrary: s)
  case (Cons e es)
  obtain ready signal where e: "e = (ready, signal)" by (cases e)
  show ?case
  proof (cases ready)
    case (Socket_Ready rs)
    obtain js t where r: "receive_loop err rs s = (js, t)" by (cases "receive_loop err rs s")
    have "js = burst rs" using receive_loop_jobs [of err rs s] by (simp add: r)
    then show ?thesis
      using Cons.IH [of t]
      by (cases signal; cases "serve_loop err True es t")
        (auto simp: e Socket_Ready r HandleSignal_def jobs_of_def split: if_splits)
  qed (use Cons.IH in \<open>auto simp: e HandleSignal_def jobs_of_def\<close>)
qed simp

lemma serve_loop_result:
  assumes "serve_loop err True es s = Some (js, s')"
  shows "list_ex snd es" "js = jobs_of (served_rounds es)"
  using serve_loop_jobs [of err es s] by (simp_all add: assms split: if_splits)

text \<open>
  Receiving. The main thread serves until a signal arrives, and ends after the round in which it
  does. It enqueues exactly the datagrams that arrive in these rounds, each once and in order, cut
  to the 4096 bytes of the buffer, apart from empty ones and from those that a receive error
  leaves for the next round; failed and idle rounds of \<open>select\<close> lose nothing.
\<close>

lemma received_jobs:
  "map_option fst (serve_loop err True es s) =
     (if list_ex snd es then Some (jobs_of (served_rounds es)) else None) \<and>
   (\<forall>rs. list_all (\<lambda>r. case r of Datagram b c a \<Rightarrow> b \<noteq> [] | _ \<Rightarrow> False) rs \<longrightarrow>
      map job_client (burst rs) = map (\<lambda>r. case r of Datagram b c a \<Rightarrow> c) rs)"
proof (intro conjI allI impI)
  fix rs assume "list_all (\<lambda>r. case r of Datagram b c a \<Rightarrow> b \<noteq> [] | _ \<Rightarrow> False) rs"
  then show "map job_client (burst rs) = map (\<lambda>r. case r of Datagram b c a \<Rightarrow> c) rs"
    by (induction rs) (auto split: recv_result.splits)
qed (rule serve_loop_jobs)

text \<open>
  The jobs are such as the receiving thread of theory \<open>Server_System\<close> enqueues, and the pool of theory
  \<open>Worker_Pool\<close> can always take them.
\<close>

lemma burst_fits: "list_all (\<lambda>j. job_packet j \<noteq> [] \<and> length (job_packet j) \<le> 4096) (burst rs)"
  by (induction rs rule: burst.induct) simp_all

lemma received_jobs_fit:
  "list_all (\<lambda>j. job_packet j \<noteq> [] \<and> length (job_packet j) \<le> 4096) (jobs_of es)"
proof (induction es)
  case (Cons e es)
  then show ?case using burst_fits by (cases e) (auto simp: jobs_of_def)
qed (simp add: jobs_of_def)

lemma pool_accepts:
  "\<exists>p. pool_step\<^sup>*\<^sup>* (start_pool create) p \<and> p_accepted p = js \<and> p_main p = Serving"
proof (induction js rule: rev_induct)
  case (snoc j js)
  then obtain p where p: "pool_step\<^sup>*\<^sup>* (start_pool create) p" "p_accepted p = js" "p_main p = Serving" by blast
  obtain p' where "pool_step p p'" "p_accepted p' = js @ [j]" "p_main p' = Serving"
  proof (cases "Sleeping \<in> set (p_workers p)")
    case True
    then obtain i where "i < length (p_workers p)" "p_workers p ! i = Sleeping" by (auto simp: in_set_conv_nth)
    with p(2,3) show thesis
      using that [OF enqueue_signal [of p i j]] by (simp add: set_worker_def Enqueue_def)
  next
    case False
    with p(2,3) show thesis using that [OF enqueue_silent [of p j]] by (simp add: Enqueue_def)
  qed
  with p(1) show ?case by (blast intro: rtranclp.rtrancl_into_rtrancl)
qed (auto simp: start_pool_def)

text \<open>
  The inner loop does not test \<open>g_running\<close>: however many datagrams the round with the signal brings,
  all are enqueued before the server stops.
\<close>

lemma signal_waits_for_burst:
  "map_option fst (serve_loop err True [(Socket_Ready (replicate n (Datagram (b # bs) c a)), True)] s) =
     Some (replicate n \<lparr>job_packet = take 4096 (b # bs), job_client = c\<rparr>)"
proof -
  have "burst (replicate n (Datagram (b # bs) c a)) = replicate n \<lparr>job_packet = take 4096 (b # bs), job_client = c\<rparr>"
    by (induction n) simp_all
  then show ?thesis by (simp add: serve_loop_jobs jobs_of_def del: serve_loop.simps)
qed

lemma receive_loop_resources: "resources (srv_net (snd (receive_loop err rs s))) = resources (srv_net s)"
  by (induction err rs s rule: receive_loop.induct) (auto simp: Let_def split: prod.splits)

lemma serve_loop_resources:
  "serve_loop err g es s = Some (js, s') \<Longrightarrow> resources (srv_net s') = resources (srv_net s)"
proof (induction err g es s arbitrary: js s' rule: serve_loop.induct)
  case (2 err g ready signal es s)
  show ?case
  proof (cases ready)
    case (Socket_Ready rs)
    obtain js1 t where r: "receive_loop err rs s = (js1, t)" by (cases "receive_loop err rs s")
    have "resources (srv_net t) = resources (srv_net s)"
      using receive_loop_resources [of err rs s] by (simp add: r)
    with 2 Socket_Ready r show ?thesis by (fastforce simp: Let_def split: if_splits option.splits)
  qed (use 2 in \<open>fastforce simp: Let_def split: if_splits\<close>)+
qed (simp split: if_splits)

lemma listener_resources:
  "resources (srv_net (with_net open_sock s)) =
     (fst (resources (srv_net s)) + 1, snd (resources (srv_net s)))"
  "resources (srv_net (with_net close_sock s)) =
     (fst (resources (srv_net s)) - 1, snd (resources (srv_net s)))"
  by (simp_all add: with_net_def resources_def open_sock_def close_sock_def)

lemma open_listener_cases:
  "(case open_listener e s of
      (None, s') \<Rightarrow> resources (srv_net s') = resources (srv_net s) \<and>
        \<not> (r_socket e \<and> r_nonblock e \<and> r_pton e (listen_addr (srv_config s)) \<noteq> None \<and> r_bind e)
    | (Some ws, s') \<Rightarrow> resources (srv_net (close_listener s')) = resources (srv_net s) \<and>
        r_socket e \<and> r_nonblock e \<and> r_pton e (listen_addr (srv_config s)) \<noteq> None \<and> r_bind e \<and>
        ws = StartWorkers (r_create e) \<and> length ws \<le> 4)"
proof -
  have "length (StartWorkers x) \<le> 4" for x
    by (cases x) (simp add: StartWorkers_def start_loop_workers)
  moreover have "srv_config (with_net f t) = srv_config t" for f t by (simp add: with_net_def)
  ultimately show ?thesis
    by (auto simp: open_listener_def close_listener_def Let_def listener_resources)
qed

text \<open>
  C40: When \<open>Run\<close> returns, and with what. It returns false at once, with no job taken, exactly when
  one of the four calls that open the listener fails; otherwise it returns true, and only after a
  signal, having enqueued the datagrams of all rounds up to the signal's; and it returns with as
  many sockets and TLS objects open as before, whichever way it took.
\<close>

theorem Run_outcome:
  "let opens = r_socket e \<and> r_nonblock e \<and> r_pton e (listen_addr (srv_config s)) \<noteq> None \<and> r_bind e in
   case Run e True rounds s of
     None \<Rightarrow> opens \<and> \<not> list_ex snd rounds
   | Some (ok, js, s') \<Rightarrow>
       resources (srv_net s') = resources (srv_net s) \<and>
       (if opens then ok \<and> list_ex snd rounds \<and> js = jobs_of (served_rounds rounds) else \<not> ok \<and> js = [])"
proof -
  note o = open_listener_cases [of s e]
  show ?thesis
  proof (cases "open_listener e s")
    case (Pair r t)
    show ?thesis
    proof (cases r)
      case None
      then show ?thesis using o by (auto simp: Run_def Pair Let_def)
    next
      case (Some ws)
      show ?thesis
      proof (cases "serve_loop (r_error e) True rounds t")
        case None
        then show ?thesis using o serve_loop_jobs [of "r_error e" rounds t]
          by (auto simp: Run_def Pair Some Let_def split: if_splits)
      next
        case l: (Some x)
        obtain js u where x: "x = (js, u)" by (cases x)
        have "resources (srv_net u) = resources (srv_net t)"
          using serve_loop_resources l x by blast
        then show ?thesis using o serve_loop_result [of "r_error e" rounds t js u] l x
          by (auto simp: Run_def Pair Some Let_def close_listener_def listener_resources)
      qed
    qed
  qed
qed

end
