(* ===== verification/Server_Threads.thy ===== *)
theory Server_Threads
  imports Server_Answers "HOL-Library.Multiset"
begin

text \<open>
  The stages of a worker's job (\<open>src/dns_server.cpp\<close>). \<open>ResolveQuery\<close> and \<open>HandleQuery\<close> run without a
  lock but for the blocklist, the cache and the query log, so other threads act in between. A stage
  ends where the code has given up a lock, an upstream has answered, or a reply has been sent.

  \<open>lookup_step\<close> is one stage of \<open>ResolveQuery\<close>, \<open>work_step\<close> one stage of \<open>HandleQuery\<close>. A worker
  that nobody interrupts does what the sequential models \<open>ResolveQuery\<close> and \<open>HandleQuery\<close> say.
\<close>

subsection \<open>The stages of a lookup\<close>

text \<open>
  \<open>Unlisted\<close>: neither the blocklist nor the local records answer. \<open>Missed\<close>: nor does the cache.
  \<open>Fetched\<close>: an upstream's answer, or the one that stands for a failure, after rebind protection.
\<close>

datatype progress = Asked | Unlisted | Missed | Fetched bytes string | Found ResolveResult

fun lookup_step ::
    "query_env \<Rightarrow> bytes \<Rightarrow> DnsHeader \<Rightarrow> DnsQuestion \<Rightarrow> dns_server \<Rightarrow> progress \<Rightarrow> (dns_server \<times> progress) option" where
  "lookup_step e packet header question s Asked =
     Some (if (case srv_blocklist s of None \<Rightarrow> False | Some b \<Rightarrow> IsBlocked b (qname question)) then
             (debug s ''Blocklist match'',
              Found \<lparr>rr_response = answer_blocked e header question, rr_source = RESOLVE_BLOCKLIST,
                     rr_upstream = []\<rparr>)
           else
             (case Resolve (srv_local s) (qname question) (qtype question) of
                Some (local_value, local_type) \<Rightarrow>
                  (debug s ''Local record match'',
                   Found \<lparr>rr_response = answer_local e header question local_value local_type,
                          rr_source = RESOLVE_LOCAL, rr_upstream = []\<rparr>)
              | None \<Rightarrow> (s, Unlisted)))"
| "lookup_step e packet header question s Unlisted =
     Some (case cache_lookup e s (MakeCacheKey (qname question) (qtype question)) of
             (Some cached, s) \<Rightarrow>
               (s, Found \<lparr>rr_response = cached, rr_source = RESOLVE_CACHE, rr_upstream = []\<rparr>)
           | (None, s) \<Rightarrow> (s, Missed))"
| "lookup_step e packet header question s Missed = do {
     (response, upstream, s) \<leftarrow> ask_upstream e s packet header question;
     (response, s) \<leftarrow> protect s header question response;
     Some (s, Fetched response upstream)
   }"
| "lookup_step e packet header question s (Fetched response upstream) =
     Some (cache_store e s (MakeCacheKey (qname question) (qtype question)) response,
           Found \<lparr>rr_response = response, rr_source = RESOLVE_UPSTREAM, rr_upstream = upstream\<rparr>)"
| "lookup_step e packet header question s (Found r) = Some (s, Found r)"

subsection \<open>The stages of a query\<close>

datatype stage =
    Received
  | Looking DnsHeader DnsQuestion progress
  | Replied DnsQuestion ResolveResult
  | Naming DnsQuestion ResolveResult string bytes DnsHeader DnsQuestion progress
  | Named DnsQuestion ResolveResult string string
  | Handled bool

text \<open>\<open>Naming\<close> and \<open>Named\<close> carry the client's address as it goes to the log.\<close>

fun work_step :: "query_env \<Rightarrow> job \<Rightarrow> dns_server \<Rightarrow> stage \<Rightarrow> (dns_server \<times> stage) option" where
  "work_step e j s Received = do {
     parsed \<leftarrow> ParseDnsQuery (job_packet j);
     case parsed of
       None \<Rightarrow> Some (debug s ''Failed to parse DNS query'', Handled False)
     | Some (header, question) \<Rightarrow>
         Some (if DebugEnabled (net_log (srv_net s))
               then debug s (''Query: '' @ qname question @ '' '' @ QTypeToString (qtype question))
               else s, Looking header question Asked)
   }"
| "work_step e j s (Looking header question p) =
     (case p of
        Found r \<Rightarrow> Some (send_response s (job_client j) header r, Replied question r)
      | _ \<Rightarrow> do {
          (s, p) \<leftarrow> lookup_step e (job_packet j) header question s p;
          Some (s, Looking header question p)
        })"
| "work_step e j s (Replied question r) =
     (case srv_logger s of
        None \<Rightarrow> Some (s, Handled True)
      | Some logger \<Rightarrow>
          (case e_ntop e (job_client j) of
             None \<Rightarrow> Some (s, Named question r ''unknown'' ''-'')
           | Some addr_str \<Rightarrow>
               let parts = Split addr_str CHR ''.'' in
               if length parts \<noteq> 4 then Some (s, Named question r addr_str ''-'')
               else let query = ptr_query (reverse_name parts) in
                 do {
                   parsed \<leftarrow> ParseDnsQuery query;
                   case parsed of
                     None \<Rightarrow> Some (s, Named question r addr_str ''-'')
                   | Some (h, q) \<Rightarrow> Some (s, Naming question r addr_str query h q Asked)
                 }))"
| "work_step e j s (Naming question r ip query h q p) =
     (case p of
        Found result \<Rightarrow> do {
          target \<leftarrow> ExtractFirstPtrTarget (rr_response result);
          Some (s, Named question r ip
                     (case target of None \<Rightarrow> ''-'' | Some ptr_name \<Rightarrow> if ptr_name = [] then ''-'' else ptr_name))
        }
      | _ \<Rightarrow> do {
          (s, p) \<leftarrow> lookup_step e query h q s p;
          Some (s, Naming question r ip query h q p)
        })"
| "work_step e j s (Named question r ip name) =
     (case srv_logger s of
        None \<Rightarrow> Some (s, Handled True)
      | Some logger \<Rightarrow> Some (log_query e s logger ip name question r, Handled True))"
| "work_step e j s (Handled ok) = Some (s, Handled ok)"

subsection \<open>Uninterrupted, the stages are the sequential model\<close>

text \<open>The stages that are left at most.\<close>

fun progress_rank :: "progress \<Rightarrow> nat" where
  "progress_rank Asked = 4"
| "progress_rank Unlisted = 3"
| "progress_rank Missed = 2"
| "progress_rank (Fetched response upstream) = 1"
| "progress_rank (Found r) = 0"

fun stage_rank :: "stage \<Rightarrow> nat" where
  "stage_rank Received = 13"
| "stage_rank (Looking h q p) = 8 + progress_rank p"
| "stage_rank (Replied q r) = 7"
| "stage_rank (Naming q r ip query h' q' p) = 2 + progress_rank p"
| "stage_rank (Named q r ip name) = 1"
| "stage_rank (Handled ok) = 0"

lemma lookup_step_rank:
  "lookup_step e packet h q s p = Some (s', p') \<Longrightarrow> \<forall>r. p \<noteq> Found r \<Longrightarrow> progress_rank p' < progress_rank p"
  by (cases p) (auto split: option.splits prod.splits if_splits Option.bind_splits)

lemma work_step_rank:
  assumes "work_step e j s st = Some (s', st')" "\<forall>ok. st \<noteq> Handled ok"
  shows "stage_rank st' < stage_rank st"
proof (cases st)
  case (Looking h q p)
  with assms(1) show ?thesis
    by (auto dest!: lookup_step_rank split: progress.splits Option.bind_splits simp del: lookup_step.simps)
next
  case (Naming q r ip query h' q' p)
  with assms(1) show ?thesis
    by (auto dest!: lookup_step_rank split: progress.splits Option.bind_splits simp del: lookup_step.simps)
qed (use assms in \<open>auto simp: Let_def split: option.splits if_splits Option.bind_splits\<close>)

text \<open>
  A worker alone, with the environment \<open>e\<close> for the query and \<open>e'\<close> for the lookup of the client's
  name, for a number of stages.
\<close>

fun stage_env :: "query_env \<Rightarrow> query_env \<Rightarrow> stage \<Rightarrow> query_env" where
  "stage_env e e' (Naming question r ip query h q p) = e'"
| "stage_env e e' st = e"

fun alone :: "nat \<Rightarrow> query_env \<Rightarrow> query_env \<Rightarrow> job \<Rightarrow> dns_server \<times> stage \<Rightarrow> (dns_server \<times> stage) option" where
  "alone 0 e e' j c = Some c"
| "alone (Suc n) e e' j c = do { c \<leftarrow> work_step (stage_env e e' (snd c)) j (fst c) (snd c); alone n e e' j c }"

lemma alone_Handled: "alone n e e' j (s, Handled ok) = Some (s, Handled ok)"
  by (induction n) simp_all

lemma alone_more:
  "stage_rank (snd c) \<le> n \<Longrightarrow> stage_rank (snd c) \<le> m \<Longrightarrow> alone n e e' j c = alone m e e' j c"
proof (induction n arbitrary: m c)
  case 0
  obtain s st where c: "c = (s, st)" by (cases c)
  with 0 have "stage_rank st = 0" by simp
  then obtain ok where "st = Handled ok" by (cases st) simp_all
  then show ?case by (simp add: c alone_Handled)
next
  case (Suc n)
  obtain s st where c: "c = (s, st)" by (cases c)
  show ?case
  proof (cases "\<exists>ok. st = Handled ok")
    case True
    then obtain ok where "c = (s, Handled ok)" using c by blast
    then show ?thesis by (simp only: alone_Handled)
  next
    case False
    then have "0 < stage_rank st" by (cases st) simp_all
    then obtain k where k: "m = Suc k" using Suc.prems(2) c by (cases m) simp_all
    have "alone n e e' j c' = alone k e e' j c'" if "work_step (stage_env e e' st) j s st = Some c'" for c'
    proof (rule Suc.IH)
      have "stage_rank (snd c') < stage_rank st"
        using work_step_rank [of _ j s st "fst c'" "snd c'"] that False by auto
      then show "stage_rank (snd c') \<le> n" "stage_rank (snd c') \<le> k" using Suc.prems by (simp_all add: c k)
    qed
    then show ?thesis by (simp add: c k del: work_step.simps split: Option.bind_splits)
  qed
qed

definition complete :: "query_env \<Rightarrow> query_env \<Rightarrow> job \<Rightarrow> dns_server \<times> stage \<Rightarrow> (dns_server \<times> stage) option" where
  "complete e e' j c = alone 13 e e' j c"


lemma stage_rank_bound: "stage_rank st \<le> 13"
proof (cases st)
  case (Looking h q p)
  then show ?thesis by (cases p) simp_all
next
  case (Naming q r ip query h' q' p)
  then show ?thesis by (cases p) simp_all
qed simp_all

lemma complete_step:
  assumes "\<forall>ok. st \<noteq> Handled ok"
  shows "complete e e' j (s, st) = do { c \<leftarrow> work_step (stage_env e e' st) j s st; complete e e' j c }"
proof -
  have "alone 13 e e' j (s, st) = alone (Suc 13) e e' j (s, st)"
    by (rule alone_more) (simp_all add: stage_rank_bound le_SucI [of _ 13, simplified])
  then show ?thesis by (simp only: complete_def alone.simps fst_conv snd_conv)
qed

lemma complete_Handled [simp]: "complete e e' j (s, Handled ok) = Some (s, Handled ok)"
  by (simp add: complete_def alone_Handled)

lemma complete_Looking:
  "complete e e' j (s, Looking h q Asked) = do {
     (r, s) \<leftarrow> ResolveQuery e s (job_packet j) h q;
     complete e e' j (send_response s (job_client j) h r, Replied q r)
   }"
  by (auto simp: complete_step ResolveQuery_def Let_def split: option.split prod.split Option.bind_split)


lemma complete_Naming:
  "complete e e' j (s, Naming q r ip query h' q' Asked) = do {
     (result, s) \<leftarrow> ResolveQuery e' s query h' q';
     target \<leftarrow> ExtractFirstPtrTarget (rr_response result);
     complete e e' j (s, Named q r ip (case target of None \<Rightarrow> ''-''
       | Some ptr_name \<Rightarrow> if ptr_name = [] then ''-'' else ptr_name))
   }"
  by (auto simp: complete_step ResolveQuery_def Let_def split: option.split prod.split Option.bind_split)

lemma complete_Replied:
  assumes "e_ntop e' = e_ntop e"
  shows "complete e e' j (s, Replied q r) =
    (case srv_logger s of
       None \<Rightarrow> Some (s, Handled True)
     | Some logger \<Rightarrow> do {
         (name, s) \<leftarrow> ResolveClientName e' s (job_client j);
         complete e e' j (s, Named q r (case e_ntop e (job_client j) of None \<Rightarrow> ''unknown'' | Some a \<Rightarrow> a) name)
       })"
  by (auto simp: complete_step complete_Naming ResolveClientName_def assms Let_def
      split: option.split prod.split Option.bind_split)

lemma ResolveClientName_logger:
  "ResolveClientName e s client = Some (name, s') \<Longrightarrow> srv_logger s' = srv_logger s"
  by (erule ResolveClientName_cases) (auto dest!: ResolveQuery_frame simp: same_setup_def)

lemma complete_Named:
  "complete e e' j (s, Named q r ip name) =
    Some (case srv_logger s of None \<Rightarrow> s | Some logger \<Rightarrow> log_query e s logger ip name q r, Handled True)"
  by (simp add: complete_step split: option.split)

lemma complete_Received:
  assumes "e_ntop e' = e_ntop e"
  shows "complete e e' j (s, Received) =
    map_option (\<lambda>(ok, s'). (s', Handled ok)) (HandleQuery e e' s (job_packet j) (job_client j))"
  by (auto simp: complete_step complete_Looking complete_Replied [OF assms] complete_Named HandleQuery_def Let_def
      dest: ResolveClientName_logger split: option.split prod.split Option.bind_split)




subsection \<open>What a stage guarantees\<close>

definition answer_ok :: "bool \<Rightarrow> ResolveResult \<Rightarrow> bool" where
  "answer_ok protected r \<longleftrightarrow> rr_response r \<noteq> [] \<and>
     (rr_source r \<in> {RESOLVE_CACHE, RESOLVE_UPSTREAM} \<longrightarrow> good_response protected (rr_response r))"

fun progress_ok :: "bool \<Rightarrow> progress \<Rightarrow> bool" where
  "progress_ok protected (Fetched response upstream) \<longleftrightarrow>
     good_response protected response \<and> length response \<le> 2 ^ 17"
| "progress_ok protected (Found r) \<longleftrightarrow> answer_ok protected r"
| "progress_ok protected p \<longleftrightarrow> True"

fun stage_ok :: "bool \<Rightarrow> job \<Rightarrow> stage \<Rightarrow> bool" where
  "stage_ok protected j (Looking h q p) \<longleftrightarrow>
     ParseDnsQuery (job_packet j) = returns_true (h, q) \<and> progress_ok protected p"
| "stage_ok protected j (Naming q r ip query h' q' p) \<longleftrightarrow> length (qname q') \<le> 2 ^ 16 \<and> progress_ok protected p"
| "stage_ok protected j st \<longleftrightarrow> True"

lemma blocked_nonempty: "answer_blocked e h q \<noteq> []"
  using blocked_header [of e h q] by auto

lemma local_nonempty: "Resolve (Load t rs) name qt = Some (v, ty) \<Longrightarrow> answer_local e h q v ty \<noteq> []"
  using local_header [OF local_type_known, of t rs name qt v ty e h q v] by auto

lemma lookup_step_ok:
  assumes "lookup_step e packet h q s p = Some (s', p')" "server_ok s" "srv_local s = Load t rs" "env_ok e"
    and "length (qname q) \<le> 2 ^ 16" "progress_ok (rebind_protection (srv_config s)) p"
  shows "server_ok s' \<and> same_setup s s' \<and> resources (srv_net s') = resources (srv_net s) \<and>
    progress_ok (rebind_protection (srv_config s)) p'"
proof (cases p)
  case Asked
  then show ?thesis
    using assms(1-3) blocked_nonempty local_nonempty
    by (auto simp: answer_ok_def same_setup_def server_ok_def split: if_splits option.splits)
next
  case Unlisted
  obtain a s1 where l: "cache_lookup e s (MakeCacheKey (qname q) (qtype q)) = (a, s1)"
    by (cases "cache_lookup e s (MakeCacheKey (qname q) (qtype q))")
  with assms(1) Unlisted have "s' = s1" "p' = (case a of None \<Rightarrow> Missed | Some c \<Rightarrow>
      Found \<lparr>rr_response = c, rr_source = RESOLVE_CACHE, rr_upstream = []\<rparr>)"
    by (auto split: option.splits)
  with cache_lookup_result [OF l] cache_lookup_ok [OF l assms(2)] show ?thesis
    by (auto simp: answer_ok_def good_response_def split: option.splits)
next
  case Missed
  then obtain resp up s1 resp' where
    a: "ask_upstream e s packet h q = Some (resp, up, s1)" and r: "protect s1 h q resp = Some (resp', s')"
    and p': "p' = Fetched resp' up"
    using assms(1) by (auto split: Option.bind_splits)
  have "length resp \<le> 2 ^ 17" "resp \<noteq> []" using ask_upstream_length [OF a assms(4,5)] by auto
  then have "length resp' \<le> 2 ^ 17" using protect_length [OF r _ _ assms(5)] by blast
  moreover have "good_response (rebind_protection (srv_config s)) resp'"
    using upstream_answer_ok [OF a r assms(2,4,5)] by blast
  moreover have "same_setup s s' \<and> srv_cache s' = srv_cache s \<and> resources (srv_net s') = resources (srv_net s)"
    using ask_upstream_setup [OF a] protect_setup [OF r] same_setup_trans by auto
  ultimately show ?thesis using assms(2) by (auto simp: p' server_ok_def same_setup_def)
next
  case (Fetched resp up)
  let ?k = "MakeCacheKey (qname q) (qtype q)" and ?b = "rebind_protection (srv_config s)"
  have g: "good_response ?b resp" "length resp \<le> 2 ^ 17" using assms(6) Fetched by simp_all
  have s': "s' = cache_store e s ?k resp" "p' = Found \<lparr>rr_response = resp, rr_source = RESOLVE_UPSTREAM, rr_upstream = up\<rparr>"
    using assms(1) Fetched by auto
  have c: "same_setup s s'" using cache_store_simps(1) by (simp add: s')
  then have "server_ok s'"
    using cache_put_ok [OF _ g(2,1)] assms(2) by (auto simp: server_ok_def same_setup_def s')
  with c g show ?thesis by (simp add: s' answer_ok_def good_response_def)
next
  case (Found r)
  with assms show ?thesis by (simp add: same_setup_def)
qed


subsection \<open>What a stage sends\<close>

text \<open>The answers that go out with a stage, and the jobs that still wait for theirs.\<close>

type_synonym answer = "job \<times> DnsHeader \<times> DnsQuestion \<times> ResolveResult"

fun replies :: "job \<Rightarrow> stage \<Rightarrow> answer list" where
  "replies j (Looking h q (Found r)) = [(j, h, q, r)]"
| "replies j st = []"

definition datagram :: "answer \<Rightarrow> client \<times> bytes" where
  "datagram a = (case a of (j, h, q, r) \<Rightarrow> (job_client j, reply_of h r))"

definition answer_sound :: "bool \<Rightarrow> answer \<Rightarrow> bool" where
  "answer_sound protected a \<longleftrightarrow>
     (case a of (j, h, q, r) \<Rightarrow> ParseDnsQuery (job_packet j) = returns_true (h, q) \<and> answer_ok protected r)"

definition is_query :: "job \<Rightarrow> bool" where
  "is_query j \<longleftrightarrow> ParseDnsQuery (job_packet j) \<noteq> returns_false"

fun owed :: "job \<Rightarrow> stage \<Rightarrow> job multiset" where
  "owed j Received = (if is_query j then {#j#} else {#})"
| "owed j (Looking h q p) = {#j#}"
| "owed j st = {#}"

lemma send_response_sent:
  "answer_ok b r \<Longrightarrow> srv_sent (send_response s (job_client j) h r) = srv_sent s @ [datagram (j, h, q, r)]"
  by (simp add: send_response_def answer_ok_def datagram_def reply_of_def Let_def)

lemma send_response_frame:
  "server_ok (send_response s c h r) = server_ok s" "srv_local (send_response s c h r) = srv_local s"
  by (simp_all add: send_response_def server_ok_def Let_def)

definition stage_effect :: "bool \<Rightarrow> job \<Rightarrow> dns_server \<Rightarrow> stage \<Rightarrow> dns_server \<Rightarrow> stage \<Rightarrow> bool" where
  "stage_effect b j s st s' st' \<longleftrightarrow>
     server_ok s' \<and> srv_config s' = srv_config s \<and> srv_local s' = srv_local s \<and>
     resources (srv_net s') = resources (srv_net s) \<and> stage_ok b j st' \<and>
     srv_sent s' = srv_sent s @ map datagram (replies j st) \<and> list_all (answer_sound b) (replies j st) \<and>
     owed j st = mset (map fst (replies j st)) + owed j st'"

lemma lookup_effect:
  assumes "lookup_step e packet h q s p = Some (s', p')" "server_ok s" "srv_local s = Load t rs" "env_ok e"
    and "length (qname q) \<le> 2 ^ 16" "progress_ok (rebind_protection (srv_config s)) p"
    and "stage_ok b j st' \<longleftrightarrow> progress_ok (rebind_protection (srv_config s)) p'"
    and "replies j st = []" "owed j st' = owed j st"
  shows "stage_effect b j s st s' st'"
  using lookup_step_ok [OF assms(1-6)] assms(7-9) by (simp add: stage_effect_def same_setup_def)

lemma work_step_effect:
  assumes "work_step e j s st = Some (s', st')" "server_ok s" "srv_local s = Load t rs" "env_ok e"
    and "stage_ok (rebind_protection (srv_config s)) j st" "length (job_packet j) \<le> 4096"
  shows "stage_effect (rebind_protection (srv_config s)) j s st s' st'"
proof (cases st)
  case Received
  then show ?thesis
    using assms(1,2) ParseDnsQuery_safe [of "job_packet j"]
    by (auto simp: stage_effect_def is_query_def server_ok_def split: Option.bind_splits option.splits if_splits)
next
  case (Looking h q p)
  have p: "ParseDnsQuery (job_packet j) = returns_true (h, q)" "progress_ok (rebind_protection (srv_config s)) p"
    using assms(5) Looking by simp_all
  have l: "length (qname q) \<le> 2 ^ 16" using ParseDnsQuery_qname [OF p(1)] assms(6) by simp
  show ?thesis
  proof (cases "\<exists>r. p = Found r")
    case True
    then obtain r where r: "p = Found r" by blast
    then have a: "answer_ok (rebind_protection (srv_config s)) r" using p(2) by simp
    have "s' = send_response s (job_client j) h r" "st' = Replied q r" using assms(1) by (auto simp: Looking r)
    then show ?thesis
      using a assms(2) send_response_sent [OF a, of s j h q] p(1)
      by (simp add: stage_effect_def Looking r send_response_frame answer_sound_def)
  next
    case False
    then have "replies j st = []" by (cases p) (simp_all add: Looking)
    moreover obtain p' where "lookup_step e (job_packet j) h q s p = Some (s', p')" "st' = Looking h q p'"
      using assms(1) False by (cases p) (auto simp: Looking split: Option.bind_splits simp del: lookup_step.simps)
    ultimately show ?thesis using assms(2-4) l p by (auto intro!: lookup_effect simp: Looking)
  qed
next
  case (Replied q r)
  show ?thesis
  proof (cases "\<exists>ip query h' q'. st' = Naming q r ip query h' q' Asked")
    case False
    then have "st' \<in> {Handled True} \<union> range (\<lambda>(ip, name). Named q r ip name)" "s' = s"
      using assms(1) by (auto simp: Replied Let_def split: option.splits if_splits Option.bind_splits)
    then show ?thesis using assms(2) by (auto simp: stage_effect_def Replied)
  next
    case True
    then obtain a h' q' where "e_ntop e (job_client j) = Some a" "length (Split a CHR ''.'') = 4"
      "ParseDnsQuery (client_query a) = returns_true (h', q')" "s' = s"
      "st' = Naming q r a (client_query a) h' q' Asked"
      using assms(1) by (auto simp: Replied Let_def split: option.splits if_splits Option.bind_splits)
    with client_query_qname [of a h' q' e "job_client j"] assms(2,4) show ?thesis
      by (simp add: stage_effect_def Replied)
  qed
next
  case (Naming q r ip query h' q' p)
  then have p: "length (qname q') \<le> 2 ^ 16" "progress_ok (rebind_protection (srv_config s)) p"
    using assms(5) by simp_all
  show ?thesis
  proof (cases "\<exists>r. p = Found r")
    case True
    then show ?thesis
      using assms(1,2) by (auto simp: Naming stage_effect_def split: Option.bind_splits)
  next
    case False
    obtain p' where "lookup_step e query h' q' s p = Some (s', p')" "st' = Naming q r ip query h' q' p'"
      using assms(1) False by (cases p) (auto simp: Naming split: Option.bind_splits simp del: lookup_step.simps)
    with assms(2-4) p show ?thesis by (auto intro!: lookup_effect simp: Naming)
  qed
next
  case (Named q r ip name)
  then show ?thesis
    using assms(1,2) log_query_frame log_query_resources
    by (auto simp: stage_effect_def same_setup_def server_ok_def split: option.splits)
next
  case (Handled ok)
  then show ?thesis using assms(1,2) by (auto simp: stage_effect_def Handled)
qed

end
