(* ===== verification/Server_System.thy ===== *)
theory Server_System
  imports Server_Threads Worker_Pool
begin

text \<open>
  \<open>DnsServer\<close> with its threads (\<open>src/dns_server.cpp\<close>): the worker pool of theory \<open>Worker_Pool\<close>, whose
  busy workers go through the stages of theory \<open>Server_Threads\<close> on the state that they share. The
  step relation \<open>system_step\<close> interleaves the stages of the workers with the steps of the pool and
  with updates of the blocklist. The lemmas: the system follows the pool, its invariant (every answer
  sent belongs to one job, the jobs that wait for an answer are accounted for, the cache and the
  answers are clean), and a weight that every step of the threads decreases once the server stops.
\<close>

subsection \<open>The system\<close>

text \<open>
  The pool, the server that its threads share, and the stage of every busy worker. \<open>sys_answers\<close>
  records what was sent for which job; the code has no such variable.
\<close>

record system =
  sys_pool :: pool
  sys_server :: dns_server
  sys_stage :: "nat \<Rightarrow> stage"
  sys_answers :: "answer list"

definition is_busy :: "worker \<Rightarrow> bool" where
  "is_busy w = (case w of Busy j \<Rightarrow> True | _ \<Rightarrow> False)"

text \<open>A worker that is not busy before a step of the pool starts its next job at the first stage.\<close>

definition restart :: "pool \<Rightarrow> (nat \<Rightarrow> stage) \<Rightarrow> nat \<Rightarrow> stage" where
  "restart p st i = (if i < length (p_workers p) \<and> is_busy (p_workers p ! i) then st i else Received)"

text \<open>
  The steps: any step of the pool other than the end of a job, with datagrams that fit the receive
  buffer; a stage of a busy worker; the end of its job; an update of the blocklist.
\<close>

inductive system_step :: "system \<Rightarrow> system \<Rightarrow> bool" where
  threads: "pool_step (sys_pool c) p \<Longrightarrow> p_done p = p_done (sys_pool c) \<Longrightarrow>
    list_all (\<lambda>j. length (job_packet j) \<le> 4096) (p_accepted p) \<Longrightarrow>
    system_step c (c\<lparr>sys_pool := p, sys_stage := restart (sys_pool c) (sys_stage c)\<rparr>)"
| works: "i < length (p_workers (sys_pool c)) \<Longrightarrow> p_workers (sys_pool c) ! i = Busy j \<Longrightarrow> env_ok e \<Longrightarrow>
    \<forall>ok. sys_stage c i \<noteq> Handled ok \<Longrightarrow> work_step e j (sys_server c) (sys_stage c i) = Some (s, st) \<Longrightarrow>
    system_step c (c\<lparr>sys_server := s, sys_stage := (sys_stage c)(i := st),
                     sys_answers := sys_answers c @ replies j (sys_stage c i)\<rparr>)"
| finishes: "i < length (p_workers (sys_pool c)) \<Longrightarrow> p_workers (sys_pool c) ! i = Busy j \<Longrightarrow>
    sys_stage c i = Handled ok \<Longrightarrow>
    system_step c (c\<lparr>sys_pool := set_worker i Ready (finish j (sys_pool c))\<rparr>)"
| publishes: "srv_blocklist (sys_server c) = Some b \<Longrightarrow>
    system_step c (c\<lparr>sys_server := (sys_server c)\<lparr>srv_blocklist := Some (SetDomains b ds)\<rparr>\<rparr>)"

definition start_system :: "dns_server \<Rightarrow> bool \<times> bool \<times> bool \<times> bool \<Rightarrow> system" where
  "start_system s create =
     \<lparr>sys_pool = start_pool create, sys_server = s, sys_stage = (\<lambda>i. Received), sys_answers = []\<rparr>"

subsection \<open>The system follows the pool\<close>

locale stuttering =
  fixes step :: "'c \<Rightarrow> 'c \<Rightarrow> bool"
    and kept :: "'c \<Rightarrow> bool"
    and abstract_step :: "'a \<Rightarrow> 'a \<Rightarrow> bool"
    and abstraction :: "'c \<Rightarrow> 'a"
  assumes keeps: "kept c \<Longrightarrow> step c c' \<Longrightarrow> kept c'"
    and follows: "kept c \<Longrightarrow> step c c' \<Longrightarrow>
      abstract_step (abstraction c) (abstraction c') \<or> abstraction c' = abstraction c"
begin

lemma run_kept: "step\<^sup>*\<^sup>* c c' \<Longrightarrow> kept c \<Longrightarrow> kept c'"
  by (induction rule: rtranclp_induct) (auto intro: keeps)

lemma run_follows: "step\<^sup>*\<^sup>* c c' \<Longrightarrow> kept c \<Longrightarrow> abstract_step\<^sup>*\<^sup>* (abstraction c) (abstraction c')"
proof (induction rule: rtranclp_induct)
  case (step y z)
  from follows [OF run_kept [OF step.hyps(1) step.prems] step.hyps(2)] step.IH [OF step.prems]
  show ?case by (auto intro: rtranclp.rtrancl_into_rtrancl)
qed simp

end

interpretation threads_of: stuttering system_step "\<lambda>c. True" pool_step sys_pool
proof
  fix c c' assume "system_step c c'"
  then show "pool_step (sys_pool c) (sys_pool c') \<or> sys_pool c' = sys_pool c"
    by cases (auto intro: handled)
qed simp

lemma pool_run_reachable: "pool_step\<^sup>*\<^sup>* p p' \<Longrightarrow> reachable_pool p \<Longrightarrow> reachable_pool p'"
  by (induction rule: rtranclp_induct) (auto intro: after_step)

lemma pool_drained:
  assumes "pool_step\<^sup>*\<^sup>* (start_pool create) p" "StartWorkers create \<noteq> []"
  shows "(p_main p \<noteq> Returned \<longrightarrow> p_workers p \<noteq> []) \<and> (p_main p = Returned \<longrightarrow> p_queue p = [])"
  using assms(1)
proof (induction rule: rtranclp_induct)
  case base
  with assms(2) show ?case by (simp add: start_pool_def)
next
  case (step y z)
  have y: "phase_inv y" using pool_run_reachable [OF step.hyps(1) at_start] by (rule reachable_phase)
  from step.hyps(2) step.IH y show ?case
  proof cases
    case join
    then have "p_queue y = []" using step.IH y by (cases "p_workers y") (auto simp: phase_inv_def)
    with join show ?thesis by simp
  qed (auto simp: Enqueue_def begin_stop_def finish_def phase_inv_def dest: Dequeue_Takes)
qed


subsection \<open>The jobs that wait for their answer\<close>

definition due :: "worker \<Rightarrow> stage \<Rightarrow> job multiset" where
  "due w st = (case w of Busy j \<Rightarrow> owed j st | _ \<Rightarrow> {#})"

definition total_due :: "worker list \<Rightarrow> (nat \<Rightarrow> stage) \<Rightarrow> job multiset" where
  "total_due ws f = (\<Sum>i<length ws. due (ws ! i) (f i))"

lemma due_simps [simp]:
  "due Ready st = {#}" "due Sleeping st = {#}" "due Exited st = {#}" "due (Busy j) st = owed j st"
  by (simp_all add: due_def)

lemma due_not_busy: "\<not> is_busy w \<Longrightarrow> due w st = {#}"
  by (cases w) (simp_all add: is_busy_def)

lemma total_due_update:
  assumes "i < length ws"
  shows "total_due (ws[i := w]) (f(i := st)) + due (ws ! i) (f i) = total_due ws f + due w st"
proof -
  have "(\<Sum>k\<in>{..<length ws} - {i}. due (ws[i := w] ! k) ((f(i := st)) k)) =
      (\<Sum>k\<in>{..<length ws} - {i}. due (ws ! k) (f k))"
    by (rule sum.cong) auto
  with assms show ?thesis by (simp add: total_due_def sum.remove [of _ i])
qed

lemma total_due_worker:
  "i < length ws \<Longrightarrow> total_due (ws[i := w]) f + due (ws ! i) (f i) = total_due ws f + due w (f i)"
  using total_due_update [of i ws w f "f i"] by simp

lemma total_due_stage:
  "i < length ws \<Longrightarrow> total_due ws (f(i := st)) + due (ws ! i) (f i) = total_due ws f + due (ws ! i) st"
  using total_due_update [of i ws "ws ! i" f st] by simp

lemma total_due_restart: "total_due (p_workers p) (restart p f) = total_due (p_workers p) f"
  unfolding total_due_def by (rule sum.cong) (auto simp: restart_def due_not_busy)

lemma total_due_wake: "total_due (map wake ws) f = total_due ws f"
  unfolding total_due_def by (rule sum.cong) (auto simp: wake_def)

lemma total_due_exited: "set ws \<subseteq> {Exited} \<Longrightarrow> total_due ws f = {#}"
proof -
  assume "set ws \<subseteq> {Exited}"
  then have "due (ws ! i) (f i) = {#}" if "i < length ws" for i using that nth_mem by fastforce
  then show ?thesis by (simp add: total_due_def)
qed

lemma pool_step_due:
  assumes "pool_step p p'" "p_done p' = p_done p"
  shows "total_due (p_workers p') (restart p f) + mset (filter is_query (p_taken p)) =
    total_due (p_workers p) f + mset (filter is_query (p_taken p'))"
  using assms
proof (cases rule: pool_step.cases)
  case (enqueue_signal i j)
  then show ?thesis
    using total_due_worker [of i "p_workers p" Ready "restart p f"] by (simp add: Enqueue_def total_due_restart)
next
  case (join)
  then show ?thesis by (simp add: total_due_exited)
next
  case (sleep i)
  then show ?thesis
    using total_due_worker [of i "p_workers p" Sleeping "restart p f"] by (simp add: total_due_restart)
next
  case (spurious i)
  then show ?thesis
    using total_due_worker [of i "p_workers p" Ready "restart p f"] by (simp add: total_due_restart)
next
  case (take_job i j q)
  have "restart p f i = Received" using take_job by (simp add: restart_def is_busy_def)
  then show ?thesis
    using total_due_worker [of i "p_workers p" "Busy j" "restart p f"] take_job Dequeue_Takes [OF take_job(4)]
    by (auto simp: total_due_restart)
next
  case (leave i)
  then show ?thesis
    using total_due_worker [of i "p_workers p" Exited "restart p f"] by (simp add: total_due_restart)
qed (simp_all add: Enqueue_def begin_stop_def total_due_restart total_due_wake finish_def)

lemma restart_busy:
  assumes "pool_step p p'" "i < length (p_workers p')" "p_workers p' ! i = Busy j"
  shows "restart p f i = Received \<or>
    restart p f i = f i \<and> i < length (p_workers p) \<and> p_workers p ! i = Busy j"
  using assms
  by (cases rule: pool_step.cases)
    (auto simp: restart_def is_busy_def nth_list_update Enqueue_def begin_stop_def finish_def wake_def
      dest!: Dequeue_Takes split: if_splits worker.splits)


subsection \<open>The invariant of the system\<close>

definition system_inv :: "dns_server \<Rightarrow> system \<Rightarrow> bool" where
  "system_inv s0 c \<longleftrightarrow>
     (let p = sys_pool c; s = sys_server c; b = rebind_protection (srv_config s0) in
      reachable_pool p \<and> list_all (\<lambda>j. length (job_packet j) \<le> 4096) (p_accepted p) \<and>
      server_ok s \<and> srv_config s = srv_config s0 \<and> srv_local s = srv_local s0 \<and>
      resources (srv_net s) = resources (srv_net s0) \<and>
      (\<forall>i j. i < length (p_workers p) \<longrightarrow> p_workers p ! i = Busy j \<longrightarrow> stage_ok b j (sys_stage c i)) \<and>
      srv_sent s = srv_sent s0 @ map datagram (sys_answers c) \<and> list_all (answer_sound b) (sys_answers c) \<and>
      mset (map fst (sys_answers c)) + total_due (p_workers p) (sys_stage c) = mset (filter is_query (p_taken p)))"

lemma busy_fits:
  assumes "reachable_pool p" "list_all (\<lambda>j. length (job_packet j) \<le> 4096) (p_accepted p)"
    and "i < length (p_workers p)" "p_workers p ! i = Busy j"
  shows "length (job_packet j) \<le> 4096"
proof -
  have a: "p_taken p @ p_queue p = p_accepted p" "mset (p_done p) + busy_jobs (p_workers p) = mset (p_taken p)"
    using reachable_accounted [OF assms(1)] by (simp_all add: accounted_def)
  have "j \<in># busy_jobs (p_workers p)"
    using busy_jobs_update [OF assms(3), of Ready] assms(4) by (metis add_mset_add_single busy_jobs_simps(1,2,3) union_single_eq_member add.right_neutral)
  then have "j \<in> set (p_taken p)" using a(2) by (metis mset_subset_eq_add_right mset_subset_eqD set_mset_mset)
  then have "j \<in> set (p_accepted p)" using a(1) by (metis Un_iff set_append)
  with assms(2) show ?thesis by (simp add: list_all_iff)
qed

lemma due_balance: "a + d = t \<Longrightarrow> d' + t = d + t' \<Longrightarrow> a + d' = (t' :: job multiset)"
  by (metis add.assoc add.commute add_left_cancel)

lemma due_move: "d' + r = d \<Longrightarrow> a + d = t \<Longrightarrow> a + r + d' = (t :: job multiset)"
  by (auto simp: ac_simps)

lemma system_step_inv:
  assumes "system_step c c'" "system_inv s0 c" "srv_local s0 = Load t rs"
  shows "system_inv s0 c'"
  using assms(1)
proof cases
  case (threads p)
  then show ?thesis
    using assms(2) pool_step_due [OF threads(2,3), of "sys_stage c"] after_step [OF _ threads(2)]
      restart_busy [OF threads(2), of _ _ "sys_stage c"]
    by (auto simp: system_inv_def Let_def elim: due_balance) (metis stage_ok.simps(3))
next
  case (works i j e s st)
  let ?b = "rebind_protection (srv_config s0)"
  have f: "length (job_packet j) \<le> 4096"
    using busy_fits [OF _ _ works(2,3)] assms(2) by (simp add: system_inv_def Let_def)
  have "stage_effect ?b j (sys_server c) (sys_stage c i) s st"
    using work_step_effect [OF works(6) _ _ works(4) _ f, of t rs] assms(2,3) works(2,3)
    by (simp add: system_inv_def Let_def)
  then show ?thesis
    using assms(2) total_due_stage [OF works(2), of "sys_stage c" st] works(3)
    by (auto simp: works(1) system_inv_def stage_effect_def Let_def elim: due_move)
next
  case (finishes i j ok)
  have "reachable_pool (set_worker i Ready (finish j (sys_pool c)))"
    using after_step [OF _ handled [OF finishes(2,3)]] assms(2) by (simp add: system_inv_def Let_def)
  then show ?thesis
    using assms(2) total_due_worker [OF finishes(2), of Ready "sys_stage c"] finishes(2-4)
    by (auto simp: finishes(1) system_inv_def Let_def finish_def nth_list_update split: if_splits)
next
  case (publishes b ds)
  then show ?thesis using assms(2) by (auto simp: system_inv_def Let_def server_ok_def)
qed

lemma start_system_inv:
  assumes "server_ok s" shows "system_inv s (start_system s create)"
proof -
  have "p_workers (start_pool create) ! i \<noteq> Busy j" if "i < length (p_workers (start_pool create))" for i j
    using that by (cases create) (simp add: start_pool_def StartWorkers_def start_loop_workers)
  moreover have "total_due (p_workers (start_pool create)) (\<lambda>i. Received) = {#}"
    using calculation by (force simp: total_due_def due_def intro!: sum.neutral split: worker.split)
  ultimately show ?thesis
    using assms by (simp add: system_inv_def start_system_def Let_def at_start) (simp add: start_pool_def)
qed

lemma system_run_inv:
  assumes "system_step\<^sup>*\<^sup>* (start_system s create) c" "server_ok s" "srv_local s = Load t rs"
  shows "system_inv s c"
  using assms(1)
  by (induction rule: rtranclp_induct) (auto intro: start_system_inv [OF assms(2)] system_step_inv [OF _ _ assms(3)])


subsection \<open>Stopping the system\<close>

text \<open>The only reason for a stage not to end is a DNS-over-TLS server that does not answer.\<close>

lemma lookup_step_waits:
  "lookup_step e packet h q s p = None \<Longrightarrow>
   ResolveDot (e_dot e) (srv_resolver s) (srv_net s) packet ([], []) = None"
proof (cases p)
  case Missed
  assume "lookup_step e packet h q s p = None"
  then have "ask_upstream e s packet h q = None"
    by (auto simp: Missed protect_defined simp del: not_None_eq split: Option.bind_splits)
  then show ?thesis by (auto simp: ask_upstream_def split: option.splits prod.splits bool.splits)
qed simp_all

lemma work_step_waits:
  assumes "work_step e j s st = None"
  shows "\<exists>packet. ResolveDot (e_dot e) (srv_resolver s) (srv_net s) packet ([], []) = None"
proof (cases st)
  case (Looking h q p)
  then have "lookup_step e (job_packet j) h q s p = None"
    using assms by (cases p) (auto split: Option.bind_splits simp del: lookup_step.simps)
  then show ?thesis by (blast dest: lookup_step_waits)
next
  case (Naming q r ip query h' q' p)
  then have "lookup_step e query h' q' s p = None"
    using assms ExtractFirstPtrTarget_safe
    by (cases p) (auto split: Option.bind_splits simp del: lookup_step.simps)
  then show ?thesis by (blast dest: lookup_step_waits)
qed (use assms ParseDnsQuery_safe in \<open>auto simp: Let_def split: option.splits if_splits Option.bind_splits\<close>)

text \<open>An update of the blocklist; every other step is one of the server's threads.\<close>

definition publishing :: "system \<Rightarrow> system \<Rightarrow> bool" where
  "publishing c c' \<longleftrightarrow> (\<exists>b ds. srv_blocklist (sys_server c) = Some b \<and>
     c' = c\<lparr>sys_server := (sys_server c)\<lparr>srv_blocklist := Some (SetDomains b ds)\<rparr>\<rparr>)"

definition stages_left :: "worker list \<Rightarrow> (nat \<Rightarrow> stage) \<Rightarrow> nat" where
  "stages_left ws f = (\<Sum>i<length ws. if is_busy (ws ! i) then stage_rank (f i) else 0)"

definition system_weight :: "system \<Rightarrow> nat" where
  "system_weight c = 16 * weight (sys_pool c) + stages_left (p_workers (sys_pool c)) (sys_stage c)"

lemma is_busy_simps [simp]: "is_busy (Busy j)" "\<not> is_busy Ready" "\<not> is_busy Sleeping" "\<not> is_busy Exited"
  by (simp_all add: is_busy_def)

lemma stages_left_update:
  assumes "i < length ws"
  shows "stages_left (ws[i := w]) (f(i := st)) + (if is_busy (ws ! i) then stage_rank (f i) else 0) =
    stages_left ws f + (if is_busy w then stage_rank st else 0)"
proof -
  have "(\<Sum>k\<in>{..<length ws} - {i}. if is_busy (ws[i := w] ! k) then stage_rank ((f(i := st)) k) else 0) =
      (\<Sum>k\<in>{..<length ws} - {i}. if is_busy (ws ! k) then stage_rank (f k) else 0)"
    by (rule sum.cong) auto
  with assms show ?thesis by (simp add: stages_left_def sum.remove [of _ i])
qed

lemma stages_left_worker:
  "i < length ws \<Longrightarrow> stages_left (ws[i := w]) f \<le> stages_left ws f + (if is_busy w then stage_rank (f i) else 0)"
  using stages_left_update [of i ws w f "f i"] by simp

lemma stages_left_restart: "stages_left (p_workers p) (restart p f) = stages_left (p_workers p) f"
  unfolding stages_left_def by (rule sum.cong) (auto simp: restart_def)

lemma pool_step_stages_left:
  assumes "pool_step p p'"
  shows "stages_left (p_workers p') (restart p f) \<le> stages_left (p_workers p) f + 13"
  using assms
proof (cases rule: pool_step.cases)
  case stop
  have "stages_left (map wake ws) g = stages_left ws g" for ws g
    unfolding stages_left_def by (rule sum.cong) (auto simp: wake_def)
  with stop show ?thesis by (simp add: begin_stop_def stages_left_restart)
next
  case join
  then show ?thesis by (simp add: stages_left_def)
next
  case (enqueue_signal i j)
  then show ?thesis
    using stages_left_worker [of i "p_workers p" Ready "restart p f"] by (simp add: Enqueue_def stages_left_restart)
next
  case (sleep i)
  then show ?thesis
    using stages_left_worker [of i "p_workers p" Sleeping "restart p f"] by (simp add: stages_left_restart)
next
  case (spurious i)
  then show ?thesis
    using stages_left_worker [of i "p_workers p" Ready "restart p f"] by (simp add: stages_left_restart)
next
  case (take_job i j q)
  then show ?thesis
    using stages_left_worker [of i "p_workers p" "Busy j" "restart p f"] Dequeue_Takes [OF take_job(4)]
      stage_rank_bound [of "restart p f i"] by (simp add: stages_left_restart)
next
  case (handled i j)
  then show ?thesis
    using stages_left_worker [of i "p_workers p" Ready "restart p f"] by (simp add: finish_def stages_left_restart)
next
  case (leave i)
  then show ?thesis
    using stages_left_worker [of i "p_workers p" Exited "restart p f"] by (simp add: stages_left_restart)
qed (simp add: Enqueue_def stages_left_restart)

lemma system_step_weight:
  assumes "system_step c c'" "p_main (sys_pool c) \<noteq> Serving" "phase_inv (sys_pool c)"
  shows "p_main (sys_pool c') \<noteq> Serving \<and> p_accepted (sys_pool c') = p_accepted (sys_pool c) \<and>
    (publishing c c' \<or> system_weight c' < system_weight c) \<and> system_weight c' \<le> system_weight c"
  using assms(1)
proof cases
  case (threads p)
  then show ?thesis
    using joining_step [OF threads(2) assms(2,3)] pool_step_stages_left [OF threads(2), of "sys_stage c"]
    by (simp add: system_weight_def)
next
  case (works i j e s st)
  have "stage_rank st < stage_rank (sys_stage c i)" by (rule work_step_rank [OF works(6,5)])
  then show ?thesis
    using stages_left_update [OF works(2), of "Busy j" "sys_stage c" st] works(3) assms(2)
      list_update_id [of "p_workers (sys_pool c)" i]
    by (simp add: works(1) system_weight_def)
next
  case (finishes i j ok)
  have "stages_left ((p_workers (sys_pool c))[i := Ready]) (sys_stage c) \<le> stages_left (p_workers (sys_pool c)) (sys_stage c)"
    using stages_left_worker [OF finishes(2), of Ready "sys_stage c"] by simp
  with joining_step [OF handled [OF finishes(2,3)] assms(2,3)] show ?thesis
    by (simp add: finishes(1) system_weight_def finish_def)
next
  case (publishes b ds)
  then show ?thesis using assms(2) by (auto simp: publishing_def system_weight_def)
qed


text \<open>An environment in which no upstream can be reached.\<close>

definition silent_env :: query_env where
  "silent_env = (sample_query_env 0 [])\<lparr>e_dot := sample_dot_env\<lparr>d_getaddrinfo := (\<lambda>h p. None)\<rparr>\<rparr>"

lemma silent_env_ok: "env_ok silent_env"
  using sample_env_ok [of "[]" 0] by (simp add: silent_env_def env_ok_def sample_query_env_def sample_dot_env_def)

lemma silent_env_answers: "work_step silent_env j s st \<noteq> None"
proof
  assume "work_step silent_env j s st = None"
  then obtain packet where "ResolveDot (e_dot silent_env) (srv_resolver s) (srv_net s) packet ([], []) = None"
    using work_step_waits by blast
  then show False
    by (auto simp: silent_env_def ResolveDot_def ConnectTcp_def Let_def split: if_splits option.splits prod.splits)
qed

lemma publishing_same: "publishing c c' \<Longrightarrow> sys_pool c' = sys_pool c \<and> sys_stage c' = sys_stage c"
  by (auto simp: publishing_def)

lemma system_progress:
  assumes "p_main (sys_pool c) = Joining" "phase_inv (sys_pool c)"
    and "list_all (\<lambda>j. length (job_packet j) \<le> 4096) (p_accepted (sys_pool c))"
  shows "\<exists>c'. system_step c c' \<and> \<not> publishing c c'"
proof (cases "\<exists>i j. i < length (p_workers (sys_pool c)) \<and> p_workers (sys_pool c) ! i = Busy j")
  case True
  then obtain i j where b: "i < length (p_workers (sys_pool c))" "p_workers (sys_pool c) ! i = Busy j" by blast
  show ?thesis
  proof (cases "\<exists>ok. sys_stage c i = Handled ok")
    case True
    then obtain ok where h: "sys_stage c i = Handled ok" by blast
    let ?c = "c\<lparr>sys_pool := set_worker i Ready (finish j (sys_pool c))\<rparr>"
    have "p_done (sys_pool ?c) \<noteq> p_done (sys_pool c)" by (simp add: finish_def)
    then have "\<not> publishing c ?c" using publishing_same [of c ?c] by metis
    with finishes [OF b h] show ?thesis by blast
  next
    case False
    obtain s st where w: "work_step silent_env j (sys_server c) (sys_stage c i) = Some (s, st)"
      using silent_env_answers [of j "sys_server c" "sys_stage c i"] by auto
    then have "stage_rank st < stage_rank (sys_stage c i)" using False by (intro work_step_rank) auto
    then have "\<not> publishing c (c\<lparr>sys_server := s, sys_stage := (sys_stage c)(i := st),
        sys_answers := sys_answers c @ replies j (sys_stage c i)\<rparr>)"
      by (auto dest!: publishing_same dest: fun_cong [of _ _ i])
    with works [OF b silent_env_ok _ w] False show ?thesis by blast
  qed
next
  case False
  obtain p where p: "pool_step (sys_pool c) p" using joining_progress [OF assms(1,2)] by blast
  have "p_done p = p_done (sys_pool c)"
    using p False by cases (auto simp: Enqueue_def begin_stop_def dest: Dequeue_Takes)
  moreover have "weight p < weight (sys_pool c)" "p_accepted p = p_accepted (sys_pool c)"
    using joining_step [OF p _ assms(2)] assms(1) by auto
  moreover have "\<not> publishing c (c\<lparr>sys_pool := p, sys_stage := restart (sys_pool c) (sys_stage c)\<rparr>)"
    using calculation(2) by (auto dest!: publishing_same)
  ultimately show ?thesis using threads [OF p] assms(3) by auto
qed

lemma system_bound:
  assumes "p_main (sys_pool (cs 0)) \<noteq> Serving" "reachable_pool (sys_pool (cs 0))"
    and "\<forall>n<k. system_step (cs n) (cs (Suc n))"
  shows "card {n. n < k \<and> \<not> publishing (cs n) (cs (Suc n))} + system_weight (cs k) \<le> system_weight (cs 0) \<and>
    p_main (sys_pool (cs k)) \<noteq> Serving \<and> reachable_pool (sys_pool (cs k))"
  using assms(3)
proof (induction k)
  case 0
  with assms(1,2) show ?case by simp
next
  case (Suc k)
  let ?N = "{n. n < k \<and> \<not> publishing (cs n) (cs (Suc n))}"
  have IH: "card ?N + system_weight (cs k) \<le> system_weight (cs 0)" "p_main (sys_pool (cs k)) \<noteq> Serving"
    "reachable_pool (sys_pool (cs k))" and st: "system_step (cs k) (cs (Suc k))"
    using Suc by auto
  note w = system_step_weight [OF st IH(2) reachable_phase [OF IH(3)]]
  have r: "reachable_pool (sys_pool (cs (Suc k)))"
    using threads_of.follows [OF TrueI st] IH(3) after_step by metis
  show ?case
  proof (cases "publishing (cs k) (cs (Suc k))")
    case True
    then have "{n. n < Suc k \<and> \<not> publishing (cs n) (cs (Suc n))} = ?N" by (auto simp: less_Suc_eq)
    then have "card {n. n < Suc k \<and> \<not> publishing (cs n) (cs (Suc n))} = card ?N" by (simp only:)
    with w IH(1) r show ?thesis by linarith
  next
    case False
    then have "{n. n < Suc k \<and> \<not> publishing (cs n) (cs (Suc n))} = insert k ?N" by (auto simp: less_Suc_eq)
    then have "card {n. n < Suc k \<and> \<not> publishing (cs n) (cs (Suc n))} = Suc (card ?N)" by simp
    with False w IH(1) r show ?thesis by linarith
  qed
qed


text \<open>The steps of the server's own threads leave the blocklist alone.\<close>

definition serving :: "system \<Rightarrow> system \<Rightarrow> bool" where
  "serving c d \<longleftrightarrow> system_step c d \<and> srv_blocklist (sys_server d) = srv_blocklist (sys_server c)"

lemma lookup_step_setup: "lookup_step e packet h q s p = Some (s', p') \<Longrightarrow> same_setup s s'"
proof (cases p)
  case Missed
  assume "lookup_step e packet h q s p = Some (s', p')"
  then obtain resp up s1 resp' where "ask_upstream e s packet h q = Some (resp, up, s1)"
    "protect s1 h q resp = Some (resp', s')"
    by (auto simp: Missed split: Option.bind_splits)
  then show ?thesis using ask_upstream_setup protect_setup same_setup_trans by blast
next
  case Unlisted
  assume "lookup_step e packet h q s p = Some (s', p')"
  moreover obtain a s1 where l: "cache_lookup e s (MakeCacheKey (qname q) (qtype q)) = (a, s1)"
    by (cases "cache_lookup e s (MakeCacheKey (qname q) (qtype q))")
  ultimately show ?thesis using cache_lookup_result [OF l] by (auto simp: Unlisted split: option.splits)
next
  case (Fetched resp up)
  assume "lookup_step e packet h q s p = Some (s', p')"
  then show ?thesis using cache_store_simps(1) by (auto simp: Fetched)
qed (auto simp: same_setup_def split: if_splits option.splits)

lemma work_step_blocklist:
  assumes "work_step e j s st = Some (s', st')"
  shows "srv_blocklist s' = srv_blocklist s"
proof (cases st)
  case (Looking h q p)
  then show ?thesis
    using assms
    by (auto simp: same_setup_def send_response_def Let_def dest!: lookup_step_setup
        split: progress.splits Option.bind_splits simp del: lookup_step.simps)
next
  case (Naming q r ip query h' q' p)
  then show ?thesis
    using assms
    by (auto simp: same_setup_def dest!: lookup_step_setup
        split: progress.splits Option.bind_splits simp del: lookup_step.simps)
qed (use assms log_query_frame in \<open>auto simp: Let_def split: option.splits if_splits Option.bind_splits\<close>)

lemma serving_run: "serving\<^sup>*\<^sup>* c d \<Longrightarrow> system_step\<^sup>*\<^sup>* c d"
  by (erule rtranclp_mono [THEN predicate2D, rotated]) (auto simp: serving_def)

lemma threads_serving:
  "pool_step (sys_pool c) p \<Longrightarrow> p_done p = p_done (sys_pool c) \<Longrightarrow>
   list_all (\<lambda>j. length (job_packet j) \<le> 4096) (p_accepted p) \<Longrightarrow>
   serving c (c\<lparr>sys_pool := p, sys_stage := restart (sys_pool c) (sys_stage c)\<rparr>)"
  by (simp add: serving_def threads)

lemma works_serving:
  "i < length (p_workers (sys_pool c)) \<Longrightarrow> p_workers (sys_pool c) ! i = Busy j \<Longrightarrow> env_ok e \<Longrightarrow>
   \<forall>ok. sys_stage c i \<noteq> Handled ok \<Longrightarrow> work_step e j (sys_server c) (sys_stage c i) = Some (s, st) \<Longrightarrow>
   serving c (c\<lparr>sys_server := s, sys_stage := (sys_stage c)(i := st),
                sys_answers := sys_answers c @ replies j (sys_stage c i)\<rparr>)"
  by (simp add: serving_def works work_step_blocklist)

lemma finishes_serving:
  "i < length (p_workers (sys_pool c)) \<Longrightarrow> p_workers (sys_pool c) ! i = Busy j \<Longrightarrow> sys_stage c i = Handled ok \<Longrightarrow>
   serving c (c\<lparr>sys_pool := set_worker i Ready (finish j (sys_pool c))\<rparr>)"
  by (simp add: serving_def finishes)

text \<open>An uninterrupted worker is a run of the system, so what \<open>HandleQuery\<close> does can happen.\<close>

lemma alone_run:
  assumes "alone n e e' j (sys_server c, sys_stage c i) = Some (s, st)" "env_ok e" "env_ok e'"
    and "i < length (p_workers (sys_pool c))" "p_workers (sys_pool c) ! i = Busy j"
  shows "\<exists>as. serving\<^sup>*\<^sup>* c
    (c\<lparr>sys_server := s, sys_stage := (sys_stage c)(i := st), sys_answers := sys_answers c @ as\<rparr>)"
  using assms(1,4,5)
proof (induction n arbitrary: c)
  case 0
  then have "c\<lparr>sys_server := s, sys_stage := (sys_stage c)(i := st), sys_answers := sys_answers c @ []\<rparr> = c"
    by auto
  then show ?case by (metis rtranclp.rtrancl_refl)
next
  case (Suc n)
  show ?case
  proof (cases "\<exists>ok. sys_stage c i = Handled ok")
    case True
    then have "alone n e e' j (sys_server c, sys_stage c i) = Some (s, st)" using Suc.prems(1) by auto
    from Suc.IH [OF this Suc.prems(2,3)] show ?thesis .
  next
    case False
    let ?e = "stage_env e e' (sys_stage c i)"
    have ok: "env_ok ?e" using assms(2,3) by (cases "sys_stage c i") simp_all
    obtain s1 st1 where w: "work_step ?e j (sys_server c) (sys_stage c i) = Some (s1, st1)"
      and r: "alone n e e' j (s1, st1) = Some (s, st)"
      using Suc.prems(1) by (auto split: Option.bind_splits)
    obtain c1 where c1: "c1 = c\<lparr>sys_server := s1, sys_stage := (sys_stage c)(i := st1),
        sys_answers := sys_answers c @ replies j (sys_stage c i)\<rparr>" by blast
    have "serving c c1" using works_serving [OF Suc.prems(2,3) ok _ w] False by (simp add: c1)
    moreover have "alone n e e' j (sys_server c1, sys_stage c1 i) = Some (s, st)"
      "i < length (p_workers (sys_pool c1))" "p_workers (sys_pool c1) ! i = Busy j"
      using r Suc.prems(2,3) by (simp_all add: c1)
    from Suc.IH [OF this] obtain as where "serving\<^sup>*\<^sup>* c1
        (c1\<lparr>sys_server := s, sys_stage := (sys_stage c1)(i := st), sys_answers := sys_answers c1 @ as\<rparr>)"
      by blast
    ultimately have "serving\<^sup>*\<^sup>* c
        (c\<lparr>sys_server := s, sys_stage := (sys_stage c)(i := st),
           sys_answers := sys_answers c @ (replies j (sys_stage c i) @ as)\<rparr>)"
      by (simp add: c1 converse_rtranclp_into_rtranclp)
    then show ?thesis by blast
  qed
qed

subsection \<open>The main properties of the system\<close>

lemma system_answers:
  assumes "system_step\<^sup>*\<^sup>* (start_system s create) c" "server_ok s" "srv_local s = Load t rs"
  shows "mset (map fst (sys_answers c)) \<subseteq># filter_mset is_query (mset (p_accepted (sys_pool c)))"
    and "p_main (sys_pool c) = Returned \<Longrightarrow> StartWorkers create \<noteq> [] \<Longrightarrow>
      mset (map fst (sys_answers c)) = filter_mset is_query (mset (p_accepted (sys_pool c)))"
proof -
  note i = system_run_inv [OF assms]
  have r: "reachable_pool (sys_pool c)" using i by (simp add: system_inv_def Let_def)
  have a: "p_accepted (sys_pool c) = p_taken (sys_pool c) @ p_queue (sys_pool c)"
    using reachable_accounted [OF r] by (simp add: accounted_def)
  have t: "mset (map fst (sys_answers c)) + total_due (p_workers (sys_pool c)) (sys_stage c) =
      filter_mset is_query (mset (p_taken (sys_pool c)))"
    using i by (simp add: system_inv_def Let_def)
  then have "mset (map fst (sys_answers c)) \<subseteq># filter_mset is_query (mset (p_taken (sys_pool c)))"
    by (metis mset_subset_eq_add_left)
  then show "mset (map fst (sys_answers c)) \<subseteq># filter_mset is_query (mset (p_accepted (sys_pool c)))"
    by (simp add: a subset_mset.add_increasing2)
  assume m: "p_main (sys_pool c) = Returned" "StartWorkers create \<noteq> []"
  have "pool_step\<^sup>*\<^sup>* (start_pool create) (sys_pool c)"
    using threads_of.run_follows [OF assms(1) TrueI] by (simp add: start_system_def)
  from pool_drained [OF this m(2)] m(1) have "p_queue (sys_pool c) = []" by blast
  moreover have "p_workers (sys_pool c) = []" using reachable_phase [OF r] m(1) by (simp add: phase_inv_def)
  ultimately show "mset (map fst (sys_answers c)) = filter_mset is_query (mset (p_accepted (sys_pool c)))"
    using t by (simp add: a total_due_def)
qed



lemma returned_final:
  assumes "p_main (sys_pool c) = Returned" "phase_inv (sys_pool c)" "system_step c c'"
  shows "publishing c c'"
  using assms(3)
proof cases
  case (threads p)
  with returned_stuck assms(1,2) show ?thesis by blast
next
  case (publishes b ds)
  then show ?thesis by (auto simp: publishing_def)
qed (use assms(1,2) in \<open>auto simp: phase_inv_def\<close>)

subsection \<open>A run with one query\<close>

abbreviation one_thread :: "bool \<times> bool \<times> bool \<times> bool" where
  "one_thread \<equiv> (True, False, False, False)"

lemma one_query_taken:
  assumes "length (job_packet j) \<le> 4096"
  obtains c where "serving\<^sup>*\<^sup>* (start_system s one_thread) c"
    "sys_pool c = \<lparr>p_queue = [], p_running = True, p_workers = [Busy j], p_main = Serving,
       p_accepted = [j], p_taken = [j], p_done = []\<rparr>"
    "sys_server c = s" "sys_stage c 0 = Received"
proof -
  have sp: "start_pool one_thread = \<lparr>p_queue = [], p_running = True, p_workers = [Ready], p_main = Serving,
      p_accepted = [], p_taken = [], p_done = []\<rparr>"
    by (simp add: start_pool_def StartWorkers_def)
  let ?busy = "\<lparr>p_queue = [], p_running = True, p_workers = [Busy j], p_main = Serving,
      p_accepted = [j], p_taken = [j], p_done = []\<rparr>"
  let ?c0 = "start_system s one_thread"
  obtain c1 where c1: "c1 = ?c0\<lparr>sys_pool := Enqueue j (start_pool one_thread),
      sys_stage := restart (sys_pool ?c0) (sys_stage ?c0)\<rparr>" by blast
  obtain c2 where c2: "c2 = c1\<lparr>sys_pool := ?busy, sys_stage := restart (sys_pool c1) (sys_stage c1)\<rparr>" by blast
  have "pool_step (sys_pool ?c0) (Enqueue j (start_pool one_thread))"
    using enqueue_silent [of "start_pool one_thread" j] by (simp add: start_system_def sp)
  then have 1: "serving ?c0 c1"
    unfolding c1 using assms by (intro threads_serving) (simp_all add: start_system_def sp Enqueue_def)
  have "pool_step (sys_pool c1) ?busy"
    using take_job [of 0 "sys_pool c1" j] by (simp add: c1 Enqueue_def sp Dequeue_def set_worker_def)
  then have 2: "serving c1 c2"
    unfolding c2 using assms by (intro threads_serving) (simp_all add: c1 Enqueue_def sp)
  have "serving\<^sup>*\<^sup>* ?c0 c2" using 1 2 by (rule converse_rtranclp_into_rtranclp [OF _ r_into_rtranclp])
  then show thesis
    by (rule that) (simp_all add: c1 c2 start_system_def restart_def Enqueue_def sp)
qed

lemma one_query_run:
  assumes h: "HandleQuery e e' s (job_packet j) (job_client j) = Some (ok, s')"
    and "env_ok e" "env_ok e'" "e_ntop e' = e_ntop e" "length (job_packet j) \<le> 4096"
  obtains c c' where "serving\<^sup>*\<^sup>* (start_system s one_thread) c" "p_main (sys_pool c) = Joining"
    "serving\<^sup>*\<^sup>* c c'" "p_main (sys_pool c') = Returned" "sys_server c' = s'"
    "p_accepted (sys_pool c) = [j]" "p_accepted (sys_pool c') = [j]"
proof -
  let ?busy = "\<lparr>p_queue = [], p_running = True, p_workers = [Busy j], p_main = Serving,
      p_accepted = [j], p_taken = [j], p_done = []\<rparr>"
  obtain c2 where 2: "serving\<^sup>*\<^sup>* (start_system s one_thread) c2"
    and c2: "sys_pool c2 = ?busy" and q: "sys_server c2 = s" "sys_stage c2 0 = Received"
    by (rule one_query_taken [OF assms(5)])
  have "alone 13 e e' j (sys_server c2, sys_stage c2 0) = Some (s', Handled ok)"
    using complete_Received [OF assms(4), of j s] h by (simp only: q complete_def) simp
  from alone_run [OF this assms(2,3)] obtain as c3 where
    c3: "c3 = c2\<lparr>sys_server := s', sys_stage := (sys_stage c2)(0 := Handled ok), sys_answers := sys_answers c2 @ as\<rparr>"
    and 3: "serving\<^sup>*\<^sup>* c2 c3" by (auto simp: c2)
  let ?idle = "?busy\<lparr>p_workers := [Ready], p_done := [j]\<rparr>"
  obtain c4 where c4: "c4 = c3\<lparr>sys_pool := ?idle\<rparr>" by blast
  have 4: "serving c3 c4"
    using finishes_serving [of 0 c3 j ok] by (simp add: c4 c3 c2 set_worker_def finish_def)
  let ?stopped = "?idle\<lparr>p_running := False, p_main := Joining\<rparr>"
  obtain c5 where c5: "c5 = c4\<lparr>sys_pool := ?stopped, sys_stage := restart (sys_pool c4) (sys_stage c4)\<rparr>" by blast
  have "pool_step (sys_pool c4) ?stopped" using stop [of ?idle] by (simp add: c4 begin_stop_def wake_def)
  then have 5: "serving c4 c5"
    unfolding c5 using assms(5) by (intro threads_serving) (simp_all add: c4)
  obtain c6 where c6: "c6 = c5\<lparr>sys_pool := ?stopped\<lparr>p_workers := [Exited]\<rparr>,
      sys_stage := restart (sys_pool c5) (sys_stage c5)\<rparr>" by blast
  have "pool_step (sys_pool c5) (?stopped\<lparr>p_workers := [Exited]\<rparr>)"
    using leave [of 0 "sys_pool c5"] by (simp add: c5 set_worker_def Dequeue_def)
  then have 6: "serving c5 c6"
    unfolding c6 using assms(5) by (intro threads_serving) (simp_all add: c5)
  obtain c7 where c7: "c7 = c6\<lparr>sys_pool := ?stopped\<lparr>p_workers := [], p_main := Returned\<rparr>,
      sys_stage := restart (sys_pool c6) (sys_stage c6)\<rparr>" by blast
  have "pool_step (sys_pool c6) (?stopped\<lparr>p_workers := [], p_main := Returned\<rparr>)"
    using join [of "sys_pool c6"] by (simp add: c6)
  then have 7: "serving c6 c7"
    unfolding c7 using assms(5) by (intro threads_serving) (simp_all add: c6)
  note 2 also note 3
  also have "serving\<^sup>*\<^sup>* c3 c5" using 4 5 by (rule converse_rtranclp_into_rtranclp [OF _ r_into_rtranclp])
  finally have a: "serving\<^sup>*\<^sup>* (start_system s one_thread) c5" .
  have b: "serving\<^sup>*\<^sup>* c5 c7" using 6 7 by (rule converse_rtranclp_into_rtranclp [OF _ r_into_rtranclp])
  show thesis by (rule that [OF a _ b]) (simp_all add: c3 c4 c5 c6 c7)
qed

text \<open>Up to its answer, which may come from any source.\<close>

lemma lookup_alone:
  assumes r: "ResolveQuery e s (job_packet j) h q = Some (r, s')"
  shows "\<exists>n. alone n e e' j (s, Looking h q Asked) = Some (s', Looking h q (Found r))"
proof -
  let ?k = "MakeCacheKey (qname q) (qtype q)"
  have a: "alone (Suc n) e e' j (t, Looking h q p) =
      do { (t, p) \<leftarrow> lookup_step e (job_packet j) h q t p; alone n e e' j (t, Looking h q p) }"
    if "\<forall>r. p \<noteq> Found r" for n t p
    using that by (cases p) (simp_all add: case_prod_unfold del: lookup_step.simps)
  show ?thesis
  proof (cases "lookup_step e (job_packet j) h q s Asked = Some (s, Unlisted)")
    case False
    then have "alone 1 e e' j (s, Looking h q Asked) = Some (s', Looking h q (Found r))"
      using r unfolding One_nat_def by (subst a) (auto simp: ResolveQuery_def split: if_splits option.splits)
    then show ?thesis by blast
  next
    case True
    then have r1: "(case cache_lookup e s ?k of
        (Some d, s) \<Rightarrow> Some (\<lparr>rr_response = d, rr_source = RESOLVE_CACHE, rr_upstream = []\<rparr>, s)
      | (None, s) \<Rightarrow> do {
          (resp, up, s) \<leftarrow> ask_upstream e s (job_packet j) h q;
          (resp, s) \<leftarrow> protect s h q resp;
          Some (\<lparr>rr_response = resp, rr_source = RESOLVE_UPSTREAM, rr_upstream = up\<rparr>, cache_store e s ?k resp)
        }) = Some (r, s')"
      using r by (auto simp: ResolveQuery_def Let_def split: if_splits option.splits)
    obtain d s1 where l: "cache_lookup e s ?k = (d, s1)" by (cases "cache_lookup e s ?k")
    note a1 = a [of Asked, unfolded True, simplified]
    show ?thesis
    proof (cases d)
      case (Some x)
      with l r1 have "alone (Suc (Suc 0)) e e' j (s, Looking h q Asked) = Some (s', Looking h q (Found r))"
        using True by (simp add: a del: alone.simps(2) lookup_step.simps(1))
      then show ?thesis by blast
    next
      case None
      obtain resp up s2 where u: "ask_upstream e s1 (job_packet j) h q = Some (resp, up, s2)"
        using r1 l None by (auto split: Option.bind_splits)
      obtain resp' s3 where p: "protect s2 h q resp = Some (resp', s3)"
        using r1 l None u by (auto split: Option.bind_splits)
      have "alone (Suc (Suc (Suc (Suc 0)))) e e' j (s, Looking h q Asked) = Some (s', Looking h q (Found r))"
        using True r1 l None u p by (simp add: a del: alone.simps(2) lookup_step.simps(1))
      then show ?thesis by blast
    qed
  qed
qed

lemma alone_found:
  assumes "ParseDnsQuery (job_packet j) = returns_true (h, q)"
    and "ResolveQuery e (if DebugEnabled (net_log (srv_net s))
      then debug s (''Query: '' @ qname q @ '' '' @ QTypeToString (qtype q)) else s) (job_packet j) h q = Some (r, s')"
  obtains n where "alone n e e' j (s, Received) = Some (s', Looking h q (Found r))"
proof -
  let ?s = "if DebugEnabled (net_log (srv_net s))
      then debug s (''Query: '' @ qname q @ '' '' @ QTypeToString (qtype q)) else s"
  obtain n where "alone n e e' j (?s, Looking h q Asked) = Some (s', Looking h q (Found r))"
    using lookup_alone [OF assms(2)] by blast
  then have "alone (Suc n) e e' j (s, Received) = Some (s', Looking h q (Found r))" by (simp add: assms(1))
  then show thesis by (rule that)
qed

lemma one_query_answered:
  assumes "ParseDnsQuery (job_packet j) = returns_true (h, q)"
    and "ResolveQuery e (if DebugEnabled (net_log (srv_net s))
      then debug s (''Query: '' @ qname q @ '' '' @ QTypeToString (qtype q)) else s) (job_packet j) h q = Some (r, s')"
    and "env_ok e" "length (job_packet j) \<le> 4096"
  obtains c k where "serving\<^sup>*\<^sup>* (start_system s one_thread) c" "k < length (sys_answers c)"
    "sys_answers c ! k = (j, h, q, r)"
proof -
  obtain c2 where 2: "serving\<^sup>*\<^sup>* (start_system s one_thread) c2"
    and w: "0 < length (p_workers (sys_pool c2))" "p_workers (sys_pool c2) ! 0 = Busy j"
    and q: "sys_server c2 = s" "sys_stage c2 0 = Received"
    by (rule one_query_taken [OF assms(4), of s]) auto
  obtain n where "alone n e e j (s, Received) = Some (s', Looking h q (Found r))"
    by (rule alone_found [OF assms(1,2)])
  then have "alone n e e j (sys_server c2, sys_stage c2 0) = Some (s', Looking h q (Found r))" by (simp add: q)
  from alone_run [OF this assms(3,3) w] obtain as c3 where
    c3: "c3 = c2\<lparr>sys_server := s', sys_stage := (sys_stage c2)(0 := Looking h q (Found r)),
      sys_answers := sys_answers c2 @ as\<rparr>" and 3: "serving\<^sup>*\<^sup>* c2 c3" by blast
  obtain c4 where c4: "c4 = c3\<lparr>sys_server := send_response s' (job_client j) h r,
      sys_stage := (sys_stage c3)(0 := Replied q r), sys_answers := sys_answers c3 @ [(j, h, q, r)]\<rparr>" by blast
  have "serving c3 c4" using works_serving [of 0 c3 j e] w assms(3) by (simp add: c3 c4)
  then have "serving\<^sup>*\<^sup>* (start_system s one_thread) c4" using 2 3 by simp
  moreover have "length (sys_answers c3) < length (sys_answers c4)"
    "sys_answers c4 ! length (sys_answers c3) = (j, h, q, r)" by (simp_all add: c4)
  ultimately show thesis by (rule that)
qed

definition query_job :: job where
  "query_job = \<lparr>job_packet = sample_packet, job_client = ([10, 0, 0, 7], 5353)\<rparr>"

lemma query_job_query: "is_query query_job"
  by (simp add: is_query_def query_job_def sample_packet_parsed)


end
