(* ===== verification/Main_Program.thy ===== *)
theory Main_Program
  imports Server_System Controller_Logger Updater
begin

text \<open>
  The program (\<open>src/main.cpp\<close>): the command line, the start-up sequence with its error exits, what
  the parts of the server are built from, and the exit codes. Files and \<open>stat\<close>, the environment
  variable and the log directory are parameters (\<open>main_env\<close>); messages go to the process log and
  to standard error, both in \<open>log_globals\<close>.
\<close>

subsection \<open>The command line\<close>

definition JoinPath :: "string \<Rightarrow> string \<Rightarrow> string" where
  "JoinPath dir path =
     (if path = [] then dir
      else if path \<noteq> [] \<and> hd path = CHR ''/'' then path
      else if dir \<noteq> [] \<and> last dir = CHR ''/'' then dir @ path
      else dir @ ''/'' @ path)"

record options =
  opt_config_dir :: string
  opt_upstream_path :: string
  opt_forced :: bool
  opt_debug :: bool

definition default_options :: options where
  "default_options = \<lparr>opt_config_dir = ''/etc/gravastar'', opt_upstream_path = [], opt_forced = False,
     opt_debug = False\<rparr>"

text \<open>The loop over \<open>argv[1]\<close> and the following; \<open>Inl\<close> is the exit code after the usage message.\<close>

fun parse_args :: "options \<Rightarrow> string list \<Rightarrow> int + options" where
  "parse_args o1 [] = Inr o1"
| "parse_args o1 (arg # args) =
     (if arg = ''-c'' \<and> args \<noteq> [] then parse_args (o1\<lparr>opt_config_dir := hd args\<rparr>) (tl args)
      else if arg = ''-u'' \<and> args \<noteq> [] then
        parse_args (o1\<lparr>opt_upstream_path := hd args, opt_forced := True\<rparr>) (tl args)
      else if arg = ''-d'' \<or> arg = ''--debug'' then parse_args (o1\<lparr>opt_debug := True\<rparr>) args
      else if arg = ''-h'' \<or> arg = ''--help'' then Inl 0
      else Inl 1)"

subsection \<open>Start-up\<close>

record main_env =
  m_fs :: "string \<rightharpoonup> string"
  m_stat :: "string \<Rightarrow> bool"
  m_log_dir :: "string option"
  m_log :: log_os
  m_world :: log_world

definition log_directory :: "main_env \<Rightarrow> string" where
  "log_directory e =
     (case m_log_dir e of
        None \<Rightarrow> ''/var/log/gravastar''
      | Some d \<Rightarrow> if d = [] then ''/var/log/gravastar'' else d)"

text \<open>An error goes to the log and to standard error.\<close>

definition complain :: "log_globals \<Rightarrow> string \<Rightarrow> log_globals" where
  "complain g msg = (LogError g msg)\<lparr>stderr_lines := stderr_lines (LogError g msg) @ [msg @ [newline]]\<rparr>"

definition init_logging :: "main_env \<Rightarrow> options \<Rightarrow> controller_logger \<times> log_world" where
  "init_logging e opts =
     (case new_controller_logger (m_log e) (log_directory e) (100 * 1024 * 1024) (m_world e) of (c, w) \<Rightarrow>
        let g = SetControllerLogger (lw_log w) True;
            g = SetLogLevel g LOG_DEBUG;
            g = SetDebugEnabled g (opt_debug opts);
            g = (if opt_debug opts then
                   DebugLog (DebugLog g ''Debug logging enabled.'')
                     (''Using config directory: '' @ opt_config_dir opts)
                 else g)
        in (c, w\<lparr>lw_log := g\<rparr>))"

definition set_level :: "options \<Rightarrow> ServerConfig \<Rightarrow> log_globals \<Rightarrow> log_globals" where
  "set_level opts config g =
     (let g = snd (SetLogLevelFromString g (log_level_name config))
      in if opt_debug opts then SetLogLevel g LOG_DEBUG else g)"

definition upstream_config_path :: "options \<Rightarrow> string" where
  "upstream_config_path opts =
     (if opt_upstream_path opts = [] then JoinPath (opt_config_dir opts) ''upstream_blocklists.toml''
      else opt_upstream_path opts)"

record program =
  prog_server :: dns_server
  prog_updater :: "updater option"

text \<open>The server, from what the loaders returned.\<close>

definition build_server ::
    "main_env \<Rightarrow> log_world \<Rightarrow> log_globals \<Rightarrow> ServerConfig \<Rightarrow> string set \<Rightarrow> LocalRecord list \<Rightarrow>
     string list \<Rightarrow> string list \<Rightarrow> dns_server" where
  "build_server e w g config block_domains recs udp dot =
     (let g = (if dot \<noteq> [] then DebugLog g ''DoT servers configured.'' else g);
          resolver = SetDotVerify (SetDotServers (SetUdpServers new_resolver udp) dot) (dot_verify config);
          (logger, w) = new_query_logger (m_log e) (log_directory e) (100 * 1024 * 1024) (w\<lparr>lw_log := g\<rparr>)
      in new_server config (Some (SetDomains new_blocklist block_domains)) (Load no_records recs)
           (Some (new_cache (cache_size_bytes config) (cache_ttl_sec config))) resolver (Some logger)
           (initial_net\<lparr>net_log := lw_log w\<rparr>) w)"

text \<open>\<open>main\<close> between the command line and \<open>Run\<close>: an exit with code 1, or the program.\<close>

definition main_start :: "main_env \<Rightarrow> options \<Rightarrow> log_globals + program" where
  "main_start e opts =
     (case init_logging e opts of (c, w) \<Rightarrow>
      let g = lw_log w; dir = opt_config_dir opts in
      case LoadMainConfig (m_fs e) (JoinPath dir ''gravastar.toml'') of
        Inl err \<Rightarrow> Inl (complain g (''Config error: '' @ err))
      | Inr config \<Rightarrow>
      let g = set_level opts config g; upath = upstream_config_path opts in
      if \<not> m_stat e upath \<and> opt_forced opts then
        Inl (complain g (''Upstream blocklist config not found: '' @ upath))
      else
      let block_path = JoinPath dir (blocklist_file config);
          g = LogInfo g (''Loading blocklist: '' @ block_path) in
      case LoadBlocklist (m_fs e) block_path {} of
        Inl err \<Rightarrow> Inl (complain g (''Blocklist error: '' @ err))
      | Inr block_domains \<Rightarrow>
      let g = LogInfo g (''Blocklist loaded: '' @ decimal (card block_domains) @ '' domains'');
          local_path = JoinPath dir (local_records_file config);
          g = LogInfo g (''Loading local records: '' @ local_path) in
      case LoadLocalRecords (m_fs e) local_path [] of
        Inl err \<Rightarrow> Inl (complain g (''Local records error: '' @ err))
      | Inr recs \<Rightarrow>
      let upstream_path = JoinPath dir (upstreams_file config);
          g = LogInfo g (''Loading upstreams: '' @ upstream_path) in
      case LoadUpstreams (m_fs e) upstream_path [] [] of
        Inl err \<Rightarrow> Inl (complain g (''Upstreams error: '' @ err))
      | Inr (udp, dot) \<Rightarrow>
      let server = build_server e w g config block_domains recs udp dot in
      if \<not> m_stat e upath then Inr \<lparr>prog_server = server, prog_updater = None\<rparr>
      else
      case LoadUpstreamBlocklistConfig (m_fs e) upath of
        Inl err \<Rightarrow> Inl (complain (net_log (srv_net server)) (''Upstream blocklist config error: '' @ err))
      | Inr ucfg \<Rightarrow>
          Inr \<lparr>prog_server = server,
               prog_updater = Some \<lparr>upd_config = ucfg, custom_blocklist_path = block_path,
                 output_path = JoinPath (cache_dir ucfg) ''blocklist.generated.toml'',
                 upd_blocklist = srv_blocklist server\<rparr>\<rparr>)"

text \<open>
  \<open>main\<close> up to \<open>Run\<close>: the exit code and what has been logged and written, or the program. The usage
  message is written before there is a controller logger.
\<close>

definition PrintUsage :: "log_globals \<Rightarrow> string \<Rightarrow> log_globals" where
  "PrintUsage g argv0 =
     g\<lparr>stderr_lines := stderr_lines g @
         [''Usage: '' @ argv0 @ '' [-c config_dir] [-u upstream_blocklists] [-d]'' @ [newline]]\<rparr>"

definition main_begin :: "main_env \<Rightarrow> string \<Rightarrow> string list \<Rightarrow> (int \<times> log_globals) + program" where
  "main_begin e argv0 args =
     (case parse_args default_options args of
        Inl code \<Rightarrow> Inl (code, PrintUsage (lw_log (m_world e)) argv0)
      | Inr opts \<Rightarrow>
          (case main_start e opts of
             Inl g \<Rightarrow> Inl (1, g)
           | Inr p \<Rightarrow> Inr p))"

text \<open>The exit code after \<open>Run\<close>; the updater is stopped and joined on both ways.\<close>

definition main_exit :: "bool \<Rightarrow> log_globals \<Rightarrow> int \<times> log_globals" where
  "main_exit run_ok g =
     (if \<not> run_ok then (1, complain g ''Failed to start DNS server'') else (0, g))"

subsection \<open>What the program is started with\<close>

lemma build_server_parts [simp]:
  "srv_config (build_server e w g config ds recs udp dot) = config"
  "srv_blocklist (build_server e w g config ds recs udp dot) = Some (SetDomains new_blocklist ds)"
  "srv_local (build_server e w g config ds recs udp dot) = Load no_records recs"
  "srv_cache (build_server e w g config ds recs udp dot) =
     Some (new_cache (cache_size_bytes config) (cache_ttl_sec config))"
  "udp_servers (srv_resolver (build_server e w g config ds recs udp dot)) = udp"
  "dot_servers (srv_resolver (build_server e w g config ds recs udp dot)) = dot"
  "dot_verify_on (srv_resolver (build_server e w g config ds recs udp dot)) = dot_verify config"
  "srv_logger (build_server e w g config ds recs udp dot) \<noteq> None"
  "srv_sent (build_server e w g config ds recs udp dot) = []"
  "resources (srv_net (build_server e w g config ds recs udp dot)) = (0, 0, 0)"
  by (auto simp: build_server_def new_server_def SetDotVerify_def SetDotServers_def SetUdpServers_def
      new_resolver_def resources_def initial_net_def Let_def split: prod.split)

text \<open>The files that are read, and the updater that goes with them.\<close>

definition loads ::
    "main_env \<Rightarrow> options \<Rightarrow> ServerConfig \<Rightarrow> string set \<Rightarrow> LocalRecord list \<Rightarrow> string list \<times> string list \<Rightarrow> bool" where
  "loads e opts config ds recs ups \<longleftrightarrow>
     LoadMainConfig (m_fs e) (JoinPath (opt_config_dir opts) ''gravastar.toml'') = Inr config \<and>
     LoadBlocklist (m_fs e) (JoinPath (opt_config_dir opts) (blocklist_file config)) {} = Inr ds \<and>
     LoadLocalRecords (m_fs e) (JoinPath (opt_config_dir opts) (local_records_file config)) [] = Inr recs \<and>
     LoadUpstreams (m_fs e) (JoinPath (opt_config_dir opts) (upstreams_file config)) [] [] = Inr ups"

definition updater_fits :: "main_env \<Rightarrow> options \<Rightarrow> ServerConfig \<Rightarrow> dns_server \<Rightarrow> updater option \<Rightarrow> bool" where
  "updater_fits e opts config s u \<longleftrightarrow>
     (case u of
        None \<Rightarrow> \<not> m_stat e (upstream_config_path opts) \<and> \<not> opt_forced opts
      | Some u \<Rightarrow> m_stat e (upstream_config_path opts) \<and>
          LoadUpstreamBlocklistConfig (m_fs e) (upstream_config_path opts) = Inr (upd_config u) \<and>
          custom_blocklist_path u = JoinPath (opt_config_dir opts) (blocklist_file config) \<and>
          output_path u = JoinPath (cache_dir (upd_config u)) ''blocklist.generated.toml'' \<and>
          upd_blocklist u = srv_blocklist s)"

definition built ::
    "main_env \<Rightarrow> ServerConfig \<Rightarrow> string set \<Rightarrow> LocalRecord list \<Rightarrow> string list \<Rightarrow> string list \<Rightarrow> dns_server \<Rightarrow> bool" where
  "built e config ds recs udp dot s \<longleftrightarrow> (\<exists>w g. s = build_server e w g config ds recs udp dot)"

lemma builtI [simp]: "built e config ds recs udp dot (build_server e w g config ds recs udp dot)"
  by (auto simp: built_def)

lemma loads_unique: "loads e opts c d r u \<Longrightarrow> loads e opts c' d' r' u' \<Longrightarrow> c' = c \<and> d' = d \<and> r' = r \<and> u' = u"
  by (auto simp: loads_def)

lemma main_start_Inr:
  assumes "main_start e opts = Inr p"
  shows "\<exists>config ds recs udp dot. loads e opts config ds recs (udp, dot) \<and>
    built e config ds recs udp dot (prog_server p) \<and>
    updater_fits e opts config (prog_server p) (prog_updater p)"
proof -
  obtain c w where w: "init_logging e opts = (c, w)" by (cases "init_logging e opts")
  obtain config where 1: "LoadMainConfig (m_fs e) (JoinPath (opt_config_dir opts) ''gravastar.toml'') = Inr config"
    using assms by (auto simp: main_start_def w Let_def split: sum.splits)
  have 2: "m_stat e (upstream_config_path opts) \<or> \<not> opt_forced opts"
    using assms by (auto simp: main_start_def w Let_def 1 split: if_splits)
  obtain ds where 3: "LoadBlocklist (m_fs e) (JoinPath (opt_config_dir opts) (blocklist_file config)) {} = Inr ds"
    using assms 2 by (auto simp: main_start_def w Let_def 1 split: sum.splits if_splits)
  obtain recs where 4: "LoadLocalRecords (m_fs e) (JoinPath (opt_config_dir opts) (local_records_file config)) [] = Inr recs"
    using assms 2 by (auto simp: main_start_def w Let_def 1 3 split: sum.splits if_splits)
  obtain udp dot where 5: "LoadUpstreams (m_fs e) (JoinPath (opt_config_dir opts) (upstreams_file config)) [] [] = Inr (udp, dot)"
    using assms 2 by (auto simp: main_start_def w Let_def 1 3 4 split: sum.splits if_splits)
  have l: "loads e opts config ds recs (udp, dot)" using 1 3 4 5 by (simp add: loads_def)
  show ?thesis
  proof (cases "m_stat e (upstream_config_path opts)")
    case True
    then obtain ucfg where 6: "LoadUpstreamBlocklistConfig (m_fs e) (upstream_config_path opts) = Inr ucfg"
      using assms by (auto simp: main_start_def w Let_def 1 3 4 5 split: sum.splits)
    with assms True have "built e config ds recs udp dot (prog_server p) \<and>
        updater_fits e opts config (prog_server p) (prog_updater p)"
      by (auto simp: main_start_def w Let_def 1 3 4 5 updater_fits_def)
    with l show ?thesis by blast
  next
    case False
    with assms 2 have "built e config ds recs udp dot (prog_server p) \<and>
        updater_fits e opts config (prog_server p) (prog_updater p)"
      by (auto simp: main_start_def w Let_def 1 3 4 5 updater_fits_def)
    with l show ?thesis by blast
  qed
qed

lemma main_start_iff:
  "(\<exists>p. main_start e opts = Inr p) \<longleftrightarrow>
   (\<exists>config ds recs ups. loads e opts config ds recs ups) \<and>
   (if m_stat e (upstream_config_path opts)
    then \<exists>u. LoadUpstreamBlocklistConfig (m_fs e) (upstream_config_path opts) = Inr u
    else \<not> opt_forced opts)"
proof
  assume "\<exists>p. main_start e opts = Inr p"
  then obtain p where "main_start e opts = Inr p" by blast
  from main_start_Inr [OF this] show "(\<exists>config ds recs ups. loads e opts config ds recs ups) \<and>
      (if m_stat e (upstream_config_path opts)
       then \<exists>u. LoadUpstreamBlocklistConfig (m_fs e) (upstream_config_path opts) = Inr u
       else \<not> opt_forced opts)"
    unfolding updater_fits_def by (cases "prog_updater p") (auto simp del: split_paired_Ex)
next
  obtain c w where w: "init_logging e opts = (c, w)" by (cases "init_logging e opts")
  assume "(\<exists>config ds recs ups. loads e opts config ds recs ups) \<and>
      (if m_stat e (upstream_config_path opts)
       then \<exists>u. LoadUpstreamBlocklistConfig (m_fs e) (upstream_config_path opts) = Inr u
       else \<not> opt_forced opts)"
  then show "\<exists>p. main_start e opts = Inr p"
    by (auto simp: loads_def main_start_def w Let_def split: if_splits)
qed

text \<open>What the start-up needs from the files, and from \<open>stat\<close>.\<close>

definition can_start :: "main_env \<Rightarrow> options \<Rightarrow> bool" where
  "can_start e opts \<longleftrightarrow>
     (\<exists>config ds recs ups. loads e opts config ds recs ups) \<and>
     (if m_stat e (upstream_config_path opts)
      then \<exists>u. LoadUpstreamBlocklistConfig (m_fs e) (upstream_config_path opts) = Inr u
      else \<not> opt_forced opts)"

lemma complain_stderr [simp]: "stderr_lines (complain g msg) \<noteq> []"
  by (simp add: complain_def)

lemma main_start_Inl: "main_start e opts = Inl g \<Longrightarrow> stderr_lines g \<noteq> []"
  by (auto simp: main_start_def Let_def split: prod.splits sum.splits if_splits)

lemma parse_args_code: "parse_args o1 args = Inl code \<Longrightarrow> code = 0 \<or> code = 1"
  by (induction o1 args rule: parse_args.induct) (auto split: if_splits)


lemma main_start_server:
  assumes "main_start e opts = Inr p" "loads e opts config ds recs ups"
  shows "built e config ds recs (fst ups) (snd ups) (prog_server p) \<and>
    updater_fits e opts config (prog_server p) (prog_updater p)"
proof -
  from main_start_Inr [OF assms(1)] obtain config' ds' recs' udp dot where
    c: "loads e opts config' ds' recs' (udp, dot)" "built e config' ds' recs' udp dot (prog_server p)"
    "updater_fits e opts config' (prog_server p) (prog_updater p)" by blast
  have "config' = config" "ds' = ds" "recs' = recs" "ups = (udp, dot)"
    using loads_unique [OF assms(2) c(1)] by simp_all
  with c(2,3) show ?thesis by simp
qed

lemma built_simps:
  assumes "built e config ds recs udp dot s"
  shows "srv_config s = config" "srv_blocklist s = Some (SetDomains new_blocklist ds)"
    "srv_local s = Load no_records recs"
    "srv_cache s = Some (new_cache (cache_size_bytes config) (cache_ttl_sec config))"
    "udp_servers (srv_resolver s) = udp" "dot_servers (srv_resolver s) = dot"
    "dot_verify_on (srv_resolver s) = dot_verify config" "srv_sent s = []" "resources (srv_net s) = (0, 0, 0)"
  using assms by (auto simp: built_def)

text \<open>
  C38: The program that starts is the configured one. Its server answers from the loaded blocklist
  and records, has the configured cache limits, servers and protections, an empty outbox and no
  socket open; there is an updater exactly when the upstream blocklist configuration exists, and it
  publishes to the server's blocklist and rebuilds from the same custom list.
\<close>

theorem started_as_configured:
  assumes "main_start e opts = Inr p" "loads e opts config ds recs ups"
  shows "let s = prog_server p in
    srv_config s = config \<and> srv_blocklist s = Some (SetDomains new_blocklist ds) \<and>
    srv_local s = Load no_records recs \<and>
    srv_cache s = Some (new_cache (cache_size_bytes config) (cache_ttl_sec config)) \<and>
    ups = (udp_servers (srv_resolver s), dot_servers (srv_resolver s)) \<and>
    dot_verify_on (srv_resolver s) = dot_verify config \<and> srv_sent s = [] \<and>
    resources (srv_net s) = (0, 0, 0) \<and>
    (case prog_updater p of
       None \<Rightarrow> \<not> m_stat e (upstream_config_path opts)
     | Some u \<Rightarrow> m_stat e (upstream_config_path opts) \<and> upd_blocklist u = srv_blocklist s \<and>
         custom_blocklist_path u = JoinPath (opt_config_dir opts) (blocklist_file config))"
  using main_start_server [OF assms] built_simps [of e config ds recs "fst ups" "snd ups" "prog_server p"]
  by (auto simp: updater_fits_def Let_def split: option.splits)

text \<open>A configuration with a blocklist and nothing else.\<close>

definition sample_files :: "string \<rightharpoonup> string" where
  "sample_files path =
     (if path = ''/etc/gravastar/blocklist.toml'' then Some (file_text [''domains = [`ads.example`]'']) else Some [])"

definition sample_main :: main_env where
  "sample_main = \<lparr>m_fs = sample_files, m_stat = (\<lambda>p. False), m_log_dir = None, m_log = sample_log_os 7,
     m_world = empty_log_world\<rparr>"

lemma sample_loads: "loads sample_main default_options default_config {''ads.example''} [] ([], [])"
proof -
  have "LoadMainConfig sample_files ''/etc/gravastar/gravastar.toml'' = Inr default_config"
    "LoadBlocklist sample_files ''/etc/gravastar/blocklist.toml'' {} = Inr {''ads.example''}"
    "LoadLocalRecords sample_files ''/etc/gravastar/local_records.toml'' [] = Inr []"
    "LoadUpstreams sample_files ''/etc/gravastar/upstreams.toml'' [] [] = Inr ([], [])"
    by code_simp+
  then show ?thesis
    by (simp add: loads_def sample_main_def default_options_def default_config_def JoinPath_def)
qed

lemma sample_started: "\<exists>p. main_start sample_main default_options = Inr p"
  using sample_loads main_start_iff [of sample_main default_options]
  by (auto simp: sample_main_def default_options_def)

theorem started_as_configured_witness:
  "\<exists>p. main_start sample_main default_options = Inr p \<and> prog_updater p = None \<and>
     srv_blocklist (prog_server p) = Some (SetDomains new_blocklist {''ads.example''})"
proof -
  obtain p where p: "main_start sample_main default_options = Inr p" using sample_started by blast
  have "\<not> m_stat sample_main (upstream_config_path default_options)" by (simp add: sample_main_def)
  with started_as_configured [OF p sample_loads] p show ?thesis
    by (cases "prog_updater p") (auto simp: Let_def)
qed

end
