(* ===== verification/Program_Run.thy ===== *)
theory Program_Run
  imports Main_Program
begin

text \<open>
  The running program (\<open>src/main.cpp\<close> from \<open>updater->Start()\<close> to the return of \<open>server.Run()\<close>): the
  system of the server's threads and the updater thread, which share one \<open>Blocklist\<close> object. A run
  of the program is a run of the system and a run of the updater; the two agree on the blocklist,
  and no update takes a name of the custom list away.
\<close>

subsection \<open>The threads of the program\<close>

record running_program =
  run_system :: system
  run_updater :: "updater_thread option"

definition with_blocklist :: "blocklist option \<Rightarrow> system \<Rightarrow> system" where
  "with_blocklist b c = c\<lparr>sys_server := (sys_server c)\<lparr>srv_blocklist := b\<rparr>\<rparr>"

text \<open>
  A step of the server's threads, which only read the blocklist, or of the updater, whose blocklist is
  the server's.
\<close>

inductive program_step :: "running_program \<Rightarrow> running_program \<Rightarrow> bool" where
  serves: "serving (run_system c) d \<Longrightarrow> program_step c (c\<lparr>run_system := d\<rparr>)"
| updates: "run_updater c = Some u \<Longrightarrow> updater_step u u' \<Longrightarrow>
    program_step c (c\<lparr>run_system := with_blocklist (upd_blocklist (upd u')) (run_system c),
                     run_updater := Some u'\<rparr>)"

definition start_program :: "program \<Rightarrow> world \<Rightarrow> bool \<times> bool \<times> bool \<times> bool \<Rightarrow> running_program" where
  "start_program p w create =
     \<lparr>run_system = start_system (prog_server p) create,
      run_updater = map_option (\<lambda>u. idle_thread u w) (prog_updater p)\<rparr>"

definition same_blocklist :: "running_program \<Rightarrow> bool" where
  "same_blocklist c \<longleftrightarrow>
     (\<forall>u. run_updater c = Some u \<longrightarrow> upd_blocklist (upd u) = srv_blocklist (sys_server (run_system c)))"

subsection \<open>What an update does to the blocklist\<close>

lemma UpdateOnce_blocklist:
  "UpdateOnce c os u w = (ok, u', w') \<Longrightarrow>
   u' = u \<or> (\<exists>ds. u' = u\<lparr>upd_blocklist := map_option (\<lambda>b. SetDomains b ds) (upd_blocklist u)\<rparr>)"
  by (auto simp: UpdateOnce_def Let_def split: prod.splits sum.splits option.splits if_splits)

lemma updater_step_blocklist:
  assumes "updater_step u u'"
  shows "upd_blocklist (upd u') = upd_blocklist (upd u) \<or>
    (\<exists>b ds. upd_blocklist (upd u) = Some b \<and> upd_blocklist (upd u') = Some (SetDomains b ds))"
  using assms
proof cases
  case (Update c os ok v w)
  from UpdateOnce_blocklist [OF Update(3)] show ?thesis
    by (cases "upd_blocklist (upd u)") (auto simp: Update(1))
qed auto

subsection \<open>A run of the program is a run of each part\<close>

lemma with_blocklist_same: "srv_blocklist (sys_server c) = b \<Longrightarrow> with_blocklist b c = c"
  by (auto simp: with_blocklist_def)

interpretation system_of: stuttering program_step same_blocklist system_step run_system
proof
  fix c c' assume s: "program_step c c'" and k: "same_blocklist c"
  from s show "same_blocklist c'"
    by cases (use k in \<open>auto simp: same_blocklist_def with_blocklist_def serving_def\<close>)
  from s show "system_step (run_system c) (run_system c') \<or> run_system c' = run_system c"
  proof cases
    case (updates u u')
    have b: "upd_blocklist (upd u) = srv_blocklist (sys_server (run_system c))"
      using k updates(2) by (simp add: same_blocklist_def)
    from updater_step_blocklist [OF updates(3)] show ?thesis
    proof (elim disjE exE conjE)
      assume "upd_blocklist (upd u') = upd_blocklist (upd u)"
      then show ?thesis using b by (simp add: updates(1) with_blocklist_same)
    next
      fix l ds assume "upd_blocklist (upd u) = Some l" "upd_blocklist (upd u') = Some (SetDomains l ds)"
      then show ?thesis
        using publishes [of "run_system c" l ds] b by (simp add: updates(1) with_blocklist_def)
    qed
  qed (simp add: serving_def)
qed

definition updater_or_none :: "updater_thread option \<Rightarrow> updater_thread option \<Rightarrow> bool" where
  "updater_or_none a b \<longleftrightarrow> (\<exists>u u'. a = Some u \<and> b = Some u' \<and> updater_step u u')"

interpretation updater_of: stuttering program_step "\<lambda>c. True" updater_or_none run_updater
proof
  fix c c' assume "program_step c c'"
  then show "updater_or_none (run_updater c) (run_updater c') \<or> run_updater c' = run_updater c"
    by cases (auto simp: updater_or_none_def)
qed simp

lemma updater_run_reachable:
  "updater_or_none\<^sup>*\<^sup>* (Some (idle_thread u w)) a \<Longrightarrow> \<exists>t. a = Some t \<and> updater_reachable u w t"
  by (induction rule: rtranclp_induct)
    (auto simp: updater_or_none_def intro: updater_reachable.intros)

lemma start_same_blocklist:
  assumes "main_start e opts = Inr p"
  shows "same_blocklist (start_program p w create)"
proof -
  obtain config ds recs ups where "loads e opts config ds recs ups"
    using main_start_Inr [OF assms] by blast
  from main_start_server [OF assms this] show ?thesis
    by (auto simp: same_blocklist_def start_program_def start_system_def idle_thread_def updater_fits_def
        split: option.splits)
qed

lemma program_run_system:
  assumes "main_start e opts = Inr p" "program_step\<^sup>*\<^sup>* (start_program p w create) c"
  shows "system_step\<^sup>*\<^sup>* (start_system (prog_server p) create) (run_system c)"
  using system_of.run_follows [OF assms(2) start_same_blocklist [OF assms(1)]]
  by (simp add: start_program_def)

lemma serving_program_run:
  assumes "serving\<^sup>*\<^sup>* (start_system (prog_server p) create) c"
  shows "\<exists>d. program_step\<^sup>*\<^sup>* (start_program p w create) d \<and> run_system d = c"
  using assms
proof (induction rule: rtranclp_induct)
  case base
  have "run_system (start_program p w create) = start_system (prog_server p) create"
    by (simp add: start_program_def)
  then show ?case by blast
next
  case (step y z)
  then obtain d where "program_step\<^sup>*\<^sup>* (start_program p w create) d" "run_system d = y" by blast
  with step.hyps(2) serves [of d z] have "program_step\<^sup>*\<^sup>* (start_program p w create) (d\<lparr>run_system := z\<rparr>)" by simp
  then show ?case by force
qed

subsection \<open>The custom list\<close>

text \<open>What the updater has published, if anything, holds the names of the custom list.\<close>

definition keeps_custom :: "updater \<Rightarrow> world \<Rightarrow> string set \<Rightarrow> updater_thread \<Rightarrow> bool" where
  "keeps_custom u w custom t \<longleftrightarrow>
     files (sys t) (custom_blocklist_path u) = files w (custom_blocklist_path u) \<and>
     (\<exists>es. upd t = publish u es \<and> custom \<subseteq> es)"

lemma keeps_custom_step:
  assumes "updater_step t t'" "keeps_custom u w custom t" "paths_apart u" "load_custom u w = Inr custom"
  shows "keeps_custom u w custom t'"
  using assms(1)
proof cases
  case (Update c os ok v w')
  obtain es where es: "upd t = publish u es" "custom \<subseteq> es" using assms(2) by (auto simp: keeps_custom_def)
  have apart: "paths_apart (upd t)" using assms(3) by (simp add: es(1) publish_spec)
  note cs = update_once_cases [OF apart Update(3)]
  have f: "files (sys t) (custom_blocklist_path u) = files w (custom_blocklist_path u)"
    using assms(2) by (simp add: keeps_custom_def)
  have "load_custom (upd t) (sys t) = load_custom u w"
    using load_custom_cong [of "sys t" u w, OF f] by (simp add: es(1) publish_spec)
  then have "custom \<subseteq> update_domains c (upd t) (sys t)" by (simp add: update_domains_def assms(4))
  moreover have "v = publish u (update_domains c (upd t) (sys t)) \<or> v = publish u es"
    using cs es(1) by (auto simp: publish_spec split: if_splits)
  moreover have "files w' (custom_blocklist_path u) = files w (custom_blocklist_path u)"
    using cs f by (simp add: es(1) split: if_splits)
  ultimately show ?thesis using es(2) by (auto simp: Update(1) keeps_custom_def)
qed (use assms(2) in \<open>auto simp: keeps_custom_def\<close>)

lemma keeps_custom_reachable:
  assumes "updater_reachable u w t" "paths_apart u" "load_custom u w = Inr custom"
    and "upd_blocklist u = Some (SetDomains new_blocklist custom)"
  shows "keeps_custom u w custom t"
  using assms(1)
proof induction
  case idle
  have "u = publish u custom" using assms(4) by (simp add: publish_def SetDomains_def)
  then show ?case by (auto simp: keeps_custom_def idle_thread_def)
qed (use keeps_custom_step assms(2,3) in blast)


text \<open>
  In every state of the running program the server blocks what the configured blocklist file
  lists.
\<close>

lemma program_blocklist:
  assumes "main_start e opts = Inr p" "loads e opts config ds recs ups"
    and "program_step\<^sup>*\<^sup>* (start_program p w create) c"
    and "\<And>u. prog_updater p = Some u \<Longrightarrow> paths_apart u \<and> custom_blocklist_path u \<noteq> [] \<and>
      files w (custom_blocklist_path u) = m_fs e (custom_blocklist_path u)"
  obtains es where "srv_blocklist (sys_server (run_system c)) = Some (SetDomains new_blocklist es)" "ds \<subseteq> es"
proof (cases "prog_updater p")
  case None
  have "run_updater c = None \<and> srv_blocklist (sys_server (run_system c)) = srv_blocklist (prog_server p)"
    using assms(3)
  proof (induction rule: rtranclp_induct)
    case (step y z)
    from step.hyps(2) show ?case by cases (use step.IH in \<open>auto simp: serving_def\<close>)
  qed (simp add: start_program_def start_system_def None)
  moreover have "srv_blocklist (prog_server p) = Some (SetDomains new_blocklist ds)"
    using main_start_server [OF assms(1,2)] built_simps(2) by blast
  ultimately show ?thesis using that [of ds] by simp
next
  case (Some u)
  have u: "upd_blocklist u = Some (SetDomains new_blocklist ds)"
    "custom_blocklist_path u = JoinPath (opt_config_dir opts) (blocklist_file config)"
    using main_start_server [OF assms(1,2)] built_simps(2) Some by (auto simp: updater_fits_def)
  have "load_custom u w = Inr ds"
    using assms(2) assms(4) [OF Some] u(2) by (simp add: load_custom_def loads_def LoadBlocklist_def)
  moreover have "updater_or_none\<^sup>*\<^sup>* (Some (idle_thread u w)) (run_updater c)"
    using updater_of.run_follows [OF assms(3) TrueI] by (simp add: start_program_def Some)
  then obtain t where t: "run_updater c = Some t" "updater_reachable u w t"
    using updater_run_reachable by blast
  ultimately obtain es where es: "upd t = publish u es" "ds \<subseteq> es"
    using keeps_custom_reachable [OF t(2) _ _ u(1)] assms(4) [OF Some] by (auto simp: keeps_custom_def)
  have "same_blocklist c" by (rule system_of.run_kept [OF assms(3) start_same_blocklist [OF assms(1)]])
  then have "srv_blocklist (sys_server (run_system c)) = upd_blocklist (upd t)"
    using t(1) by (simp add: same_blocklist_def)
  also have "\<dots> = Some (SetDomains new_blocklist es)" by (simp add: es(1) publish_def u(1) SetDomains_def)
  finally show ?thesis using es(2) by (rule that)
qed


subsection \<open>A program with an updater\<close>

definition updating_files :: "string \<rightharpoonup> string" where
  "updating_files path =
     (if path = ''/etc/gravastar/upstream_blocklists.toml'' then
        Some (file_text [''cache_dir = `/c`'', ''urls = [`u1`]''])
      else sample_files path)"

definition updating_main :: main_env where
  "updating_main = sample_main\<lparr>m_fs := updating_files, m_stat := (\<lambda>p. True)\<rparr>"

definition updating_world :: world where
  "updating_world = empty_world\<lparr>files := updating_files\<rparr>"

lemma updating_loads: "loads updating_main default_options default_config {''ads.example''} [] ([], [])"
proof -
  have "LoadMainConfig updating_files ''/etc/gravastar/gravastar.toml'' = Inr default_config"
    "LoadBlocklist updating_files ''/etc/gravastar/blocklist.toml'' {} = Inr {''ads.example''}"
    "LoadLocalRecords updating_files ''/etc/gravastar/local_records.toml'' [] = Inr []"
    "LoadUpstreams updating_files ''/etc/gravastar/upstreams.toml'' [] [] = Inr ([], [])"
    by code_simp+
  then show ?thesis
    by (simp add: loads_def updating_main_def default_options_def default_config_def JoinPath_def)
qed

lemma updating_config:
  "LoadUpstreamBlocklistConfig updating_files ''/etc/gravastar/upstream_blocklists.toml'' =
     Inr \<lparr>urls = [''u1''], update_interval_sec = 3600, cache_dir = ''/c''\<rparr>"
  by code_simp

lemma updating_paths:
  "upstream_config_path default_options = ''/etc/gravastar/upstream_blocklists.toml''"
  "JoinPath (opt_config_dir default_options) (blocklist_file default_config) = ''/etc/gravastar/blocklist.toml''"
  "JoinPath ''/c'' ''blocklist.generated.toml'' = ''/c/blocklist.generated.toml''"
  by (simp_all add: upstream_config_path_def default_options_def default_config_def JoinPath_def)

lemma updating_program:
  obtains p u where "main_start updating_main default_options = Inr p" "prog_updater p = Some u"
    "paths_apart u" "custom_blocklist_path u = ''/etc/gravastar/blocklist.toml''"
proof -
  have "\<exists>p. main_start updating_main default_options = Inr p"
    using updating_loads updating_config main_start_iff [of updating_main default_options]
    by (auto simp: updating_main_def updating_paths)
  then obtain p where p: "main_start updating_main default_options = Inr p" by blast
  have f: "updater_fits updating_main default_options default_config (prog_server p) (prog_updater p)"
    using main_start_server [OF p updating_loads] by blast
  then obtain u where u: "prog_updater p = Some u"
    by (auto simp: updater_fits_def updating_main_def split: option.splits)
  have c: "upd_config u = \<lparr>urls = [''u1''], update_interval_sec = 3600, cache_dir = ''/c''\<rparr>"
    using f u by (auto simp: updater_fits_def updating_main_def updating_config updating_paths)
  have d: "custom_blocklist_path u = ''/etc/gravastar/blocklist.toml''" "output_path u = ''/c/blocklist.generated.toml''"
    using f u by (auto simp: updater_fits_def updating_main_def updating_config updating_paths c)
  have "paths_apart u" by (simp add: paths_apart_def cached_paths_def CachePathForUrl_def c d)
  with p u show thesis using d(1) by (rule that)
qed

text \<open>Its first update, whatever comes of it.\<close>

lemma updating_run:
  assumes "prog_updater p = Some u"
  shows "\<exists>d t. program_step\<^sup>*\<^sup>* (start_program p w one_thread) d \<and> run_updater d = Some t \<and>
    pc t = Checking \<and> started t = 1"
proof -
  let ?c0 = "start_program p w one_thread"
  have u: "run_updater ?c0 = Some (idle_thread u w)" by (simp add: start_program_def assms)
  obtain t1 where t1: "updater_step (idle_thread u w) t1" "pc t1 = Updating" "started t1 = 1"
    using updater_step.Start [of "idle_thread u w"] by (force simp: idle_thread_def)
  obtain d1 where d1: "program_step ?c0 d1" "run_updater d1 = Some t1" using updates [OF u t1(1)] by force
  obtain ok v w' where o: "UpdateOnce sample_curl sample_os (upd t1) (sys t1) = (ok, v, w')"
    by (cases "UpdateOnce sample_curl sample_os (upd t1) (sys t1)")
  from Update [OF t1(2) o] obtain t2 where t2: "updater_step t1 t2" "pc t2 = Checking" "started t2 = 1"
    using t1(3) by force
  from updates [OF d1(2) t2(1)] obtain d2 where "program_step d1 d2" "run_updater d2 = Some t2" by force
  with d1(1) t2(2,3) show ?thesis by (intro exI [of _ d2]) (auto intro: converse_rtranclp_into_rtranclp)
qed

end
