(* ===== verification/Spec2Isabelle.thy ===== *)
theory Spec2Isabelle
  imports Dns_Rebind Dns_Responses Cache_Laws Updater Local_Records Resolver_Laws Query_Logger
    Controller_Logger Server_Lookups Dns_Run Program_Run
begin

text \<open>
  Gravastar is a filtering DNS forwarder. One process reads its configuration, opens a UDP socket,
  and answers each query from the first of these that has an answer: the blocklist, the local
  records, the response cache, a DNS-over-TLS upstream, a UDP upstream. A second thread updates the
  blocklist from remote lists. This development models the program (\<open>src/src\<close>; the theories name
  its files as \<open>src/<file>\<close>) function by function and proves what makes each part, and their
  composition, correct.

  The parts and where they are modelled.

  \<^item> Theory \<open>Prelude\<close> has the byte type, checked buffer access (\<open>byte_at\<close>, \<open>slice\<close>) and list
    lemmas; \<open>CLib\<close> the C and C++ library functions on strings that the code calls (\<open>strtoul\<close>,
    \<open>isspace\<close>, extraction from streams, \<open>getline\<close>), with their widths and wrap-around; \<open>Util\<close>
    is \<open>util.cpp\<close>: string helpers, and the logging front end over the record \<open>log_globals\<close>.

  \<^item> \<open>dns_packet.cpp\<close>: \<open>Dns_Wire\<close> has integers and names on the wire (\<open>ReadU16\<close>, \<open>ParseQName\<close>,
    \<open>WriteQName\<close>, \<open>ReadName\<close>), \<open>Dns_Packet\<close> the parser of queries and the response builders,
    \<open>Dns_Rebind\<close> the rewriting of private addresses. \<open>Dns_Layout\<close> is the abstract view: the list
    of records of a packet and the encoding that every builder produces. \<open>Dns_Responses\<close> states
    what a reader finds in the packets.

  \<^item> \<open>cache.cpp\<close>: \<open>Cache\<close> has the map with its intrusive LRU list, where an iterator is the
    identity of a list node, and the abstract cache (a list of entries in eviction order);
    \<open>Cache_Laws\<close> interprets the contract \<open>response_store\<close> on it.

  \<^item> \<open>config.cpp\<close>: \<open>Config\<close> has the four loaders, \<open>Config_Laws\<close> their guarantees and round trips.

  \<^item> \<open>blocklist.cpp\<close>: \<open>Blocklist\<close>, with the contract \<open>domain_filter\<close>. \<open>local_records.cpp\<close>:
    \<open>Local_Records\<close>, whose keys satisfy the contract \<open>lookup_key\<close>, as do those of the cache.

  \<^item> \<open>upstream_blocklist.cpp\<close>: \<open>Upstream_Blocklist\<close> (configuration, list parser, download or
    cached copy, generated file), \<open>Blocklist_Files\<close> (the grammar of the lists and the round trip of
    the file) and \<open>Updater\<close> (\<open>UpdateOnce\<close>, and the thread with \<open>Start\<close> and \<open>Stop\<close> as the step
    relation \<open>updater_step\<close>).

  \<^item> \<open>upstream_resolver.cpp\<close>: \<open>Upstream_Resolver\<close> and \<open>Resolver_Laws\<close>: server addresses, the UDP
    lookup, the DNS-over-TLS lookup with its loops over partial reads and writes, and the
    certificate settings.

  \<^item> \<open>query_logger.cpp\<close> and \<open>controller_logger.cpp\<close>: \<open>Log_Files\<close> has the rotating log files of the
    query logger, and the contract \<open>line_log\<close> of a log of lines with rotation; \<open>Query_Logger\<close> has the
    class with its two logs, \<open>Controller_Logger\<close> the other class, whose own file handling is shown to
    agree; together three interpretations of the contract.

  \<^item> \<open>dns_server.cpp\<close>: \<open>Dns_Server\<close> has one query from its datagram to its reply (\<open>ResolveQuery\<close>,
    \<open>HandleQuery\<close>, \<open>ResolveClientName\<close>); \<open>Server_Laws\<close>, \<open>Server_Answers\<close> and \<open>Server_Lookups\<close> its
    properties; \<open>Worker_Pool\<close> is the job queue with its mutex, condition variable and threads
    (\<open>pool_step\<close>), with the contract \<open>fifo\<close> of the queue; \<open>Server_Threads\<close> cuts a query into the
    stages between which a worker holds no lock (\<open>lookup_step\<close>, \<open>work_step\<close>); \<open>Server_System\<close> puts
    these into the pool, so that the stages of all workers, the receiving thread and blocklist updates
    interleave (\<open>system_step\<close>), and follows the pool in the sense of the contract \<open>stuttering\<close>;
    \<open>Dns_Run\<close> is the main thread in \<open>Run\<close>: the listening socket, the receive loop until a signal,
    and the order of shutting down.

  \<^item> \<open>main.cpp\<close>: \<open>Main_Program\<close> has the command line, the start-up sequence with each error exit
    (\<open>main_start\<close>, and \<open>main_begin\<close> with the command line), what the server is built from, and the exit code. \<open>Program_Run\<close> lets the server's
    threads and the updater run side by side on the shared blocklist (\<open>program_step\<close>); a run of the
    program is a run of \<open>system_step\<close> and one of \<open>updater_step\<close> (two more interpretations of
    \<open>stuttering\<close>).

  How the code is represented. A class is a record and each public operation a function from the
  old state to the new one. Machine integers keep their width where the code's result depends on it:
  \<open>size_t\<close> and \<open>uint16_t\<close> values are words, the offsets within a packet are natural numbers. Errors
  are values: \<open>Inl\<close> a message where the code fills \<open>*err\<close>; \<open>None\<close> for a read outside a buffer, in
  the functions that index one; a log record for what the code only reports. Operations that hold a
  lock for their whole body are one step, and threads are step relations over these steps. The
  operating system, \<open>libcurl\<close>, \<open>libtls\<close>, \<open>gzip\<close>, the clock and the directory order are
  parameters: records (\<open>os\<close>, \<open>curl\<close>, \<open>udp_env\<close>, \<open>dot_env\<close>, \<open>log_os\<close>, \<open>query_env\<close>, \<open>run_env\<close>,
  \<open>main_env\<close>) that say what each call returns, and the properties hold for all their values unless a
  hypothesis names documented behaviour of theirs.

  What the lemmas show, from the bytes up. Every packet walk stays inside the packet and ends, also
  on cyclic compression pointers; what the builders write is what the parsers read; a successful
  rebind rewrite zeroes exactly the private addresses of the packet's address records. The cache
  refines its abstract specification, keeps its size count and its list in step with its map, and
  returns only what was stored within the lifetime. Names match the blocklist exactly when one of
  their suffixes is listed; a written configuration, record file or generated blocklist is read
  back; one update either installs the union of its sources in the file and in memory or leaves the
  list in memory as it was. A lookup releases every socket and TLS object it opened, and the framing
  of DNS-over-TLS survives every way of cutting the stream. The query is answered by the first
  source that has an answer, a reply goes to the client with its transaction id, and what a cache or
  upstream contributes has no private address when protection is on, also when lookups interleave.
  Accepted jobs are taken once and in order and no wakeup is lost. In every interleaving each
  received query has at most one reply, and stopping ends after boundedly many steps with a reply to
  each. The logs hold one line per request, without interference between them. The program starts exactly when
  its command line is accepted and its configuration loads, and then with the configured parts; while it runs, no update takes a name
  of the configured blocklist away.

  Bounds. No function has fuel. \<open>ReadName\<close> ends because the code counts its pointer jumps; the
  other loops are structural or have a measure. The results of successive \<open>tls_read\<close>
  and \<open>tls_write\<close> calls are a finite list; when it ends before the loop of a lookup does, the
  lookup returns \<open>None\<close>, which means that it is still waiting and never that it failed. The bound
  \<open>2 ^ 17\<close> in the hypotheses of the cache is above every message the server stores (a DNS-over-TLS
  message has at most 65535 bytes, a UDP one 4096, a generated one is bounded by its name), so the
  64-bit size count cannot wrap before eviction.

  Not modelled.

  \<^item> Asynchronous signals: a signal is a mark on the round of \<open>select\<close> during which it arrives, and
    \<open>HandleSignal\<close> is its effect on \<open>g_running\<close>.
  \<^item> \<open>WaitForSocket\<close>, \<open>PathExists\<close> and \<open>IsDir\<close> of the resolver, which only wrap \<open>select\<close> and \<open>stat\<close>:
    their results are part of the environment records. Socket options, memory management and the
    initialisation of mutexes have no counterpart.
  \<^item> What a failing loader leaves in its output parameters; its callers give up then.
  \<^item> Data races: the interleavings are those of the critical sections as the code locks them.
  \<^item> \<open>tests/\<close>, \<open>scripts/\<close>, packaging and build files.

  This theory has the properties that span the whole program.
\<close>

section \<open>Properties that span the program\<close>

text \<open>
  C3: What the blocklist file lists is blocked, always. In every state of the running program, before,
  during and after any update of the upstream lists (whose files are apart from the custom list and
  from each other), every question for a name of the configured blocklist file or a subdomain of one
  is answered from the blocklist: with the address 0.0.0.0, with ::1, or with no record, according to
  its type; it reaches no upstream and does not touch the cache, and neither a local record nor a
  cached answer can override it.
\<close>

theorem configured_blocking:
  assumes "main_start e opts = Inr p" "loads e opts config ds recs ups"
    and "program_step\<^sup>*\<^sup>* (start_program p w create) c"
    and "\<And>u. prog_updater p = Some u \<Longrightarrow> paths_apart u \<and> custom_blocklist_path u \<noteq> [] \<and>
      files w (custom_blocklist_path u) = m_fs e (custom_blocklist_path u)"
    and "k < length (Split (canonical (qname q)) CHR ''.'')"
    and "join_with CHR ''.'' (drop k (Split (canonical (qname q)) CHR ''.'')) \<in> ds"
  shows "\<exists>r s'. ResolveQuery qe (sys_server (run_system c)) packet h q = Some (r, s') \<and>
    rr_source r = RESOLVE_BLOCKLIST \<and>
    rr_response r =
      (if qtype q = DNS_TYPE_A then BuildAResponse (e_pton4 qe) h q ''0.0.0.0''
       else if qtype q = DNS_TYPE_AAAA then BuildAAAAResponse (e_pton6 qe) h q ''::1''
       else BuildEmptyResponse h q) \<and>
    udp_sent (srv_net s') = udp_sent (srv_net (sys_server (run_system c))) \<and>
    dot_sent (srv_net s') = dot_sent (srv_net (sys_server (run_system c))) \<and>
    srv_cache s' = srv_cache (sys_server (run_system c))"
proof -
  obtain es where es: "srv_blocklist (sys_server (run_system c)) = Some (SetDomains new_blocklist es)" "ds \<subseteq> es"
    using program_blocklist [OF assms(1-4)] by blast
  have "matches ds (qname q)"
    using assms(5,6) by (auto simp: matches_def suffixes_of_def Let_def)
  then have "IsBlocked (SetDomains new_blocklist ds) (qname q)" by (simp add: bl.blocked_after_set)
  then have "IsBlocked (SetDomains new_blocklist es) (qname q)" by (rule bl.blocked_mono [OF es(2)])
  then show ?thesis by (simp add: ResolveQuery_def es(1) answer_blocked_def)
qed

theorem configured_blocking_witness:
  "\<exists>p d t r s'. main_start updating_main default_options = Inr p \<and>
     program_step\<^sup>*\<^sup>* (start_program p updating_world one_thread) d \<and>
     run_updater d = Some t \<and> started t = 1 \<and> pc t = Checking \<and>
     ResolveQuery (sample_query_env 5 []) (sys_server (run_system d)) [] lookup_header (ask_for ''www.Ads.Example.'') =
       Some (r, s') \<and>
     rr_source r = RESOLVE_BLOCKLIST"
proof -
  let ?q = "ask_for ''www.Ads.Example.''"
  obtain p u where p: "main_start updating_main default_options = Inr p" and u: "prog_updater p = Some u"
    "paths_apart u" "custom_blocklist_path u = ''/etc/gravastar/blocklist.toml''"
    by (rule updating_program)
  obtain d t where d: "program_step\<^sup>*\<^sup>* (start_program p updating_world one_thread) d"
    "run_updater d = Some t" "pc t = Checking" "started t = 1"
    using updating_run [OF u(1)] by blast
  have apart: "paths_apart v \<and> custom_blocklist_path v \<noteq> [] \<and>
      files updating_world (custom_blocklist_path v) = m_fs updating_main (custom_blocklist_path v)"
    if "prog_updater p = Some v" for v
    using that u by (simp add: updating_world_def updating_main_def)
  have "Split (canonical (qname ?q)) CHR ''.'' = [''www'', ''ads'', ''example'']" by code_simp
  then have "1 < length (Split (canonical (qname ?q)) CHR ''.'')"
    "join_with CHR ''.'' (drop 1 (Split (canonical (qname ?q)) CHR ''.'')) \<in> {''ads.example''}"
    by simp_all
  from configured_blocking [OF p updating_loads d(1) apart this] p d show ?thesis by blast
qed

text \<open>
  The program that starts has a server in a good state, and what its threads do is a run of the
  system of theory \<open>Server_System\<close>.
\<close>

lemma program_server:
  assumes "main_start e opts = Inr p" "loads e opts config ds recs ups"
    and "unat (cache_size_bytes config) + 2 ^ 17 < 2 ^ 64"
  shows "server_ok (prog_server p)" "srv_local (prog_server p) = Load no_records recs"
    "srv_config (prog_server p) = config" "srv_sent (prog_server p) = []"
    "resources (srv_net (prog_server p)) = (0, 0, 0)"
proof -
  have b: "built e config ds recs (fst ups) (snd ups) (prog_server p)"
    using main_start_server [OF assms(1,2)] by blast
  show "server_ok (prog_server p)"
    using new_cache_ok [OF assms(3)] by (simp add: server_ok_def built_simps [OF b])
  show "srv_local (prog_server p) = Load no_records recs" "srv_config (prog_server p) = config"
    "srv_sent (prog_server p) = []" "resources (srv_net (prog_server p)) = (0, 0, 0)"
    by (simp_all add: built_simps [OF b])
qed

text \<open>
  C1: Every query is answered, once. In the program that starts (with a cache limit that leaves room
  for one message below \<open>2 ^ 64\<close>), whatever the interleaving of the receiving thread, the workers and
  the blocklist updater, and whatever the upstreams do: each datagram sent is the reply to one
  received query, goes to the client it came from and is not empty; no query has two replies and
  nothing else is replied to; no lookup leaves a socket or TLS object open; and when the server has
  stopped, and had a worker, every query that was received has its reply.
\<close>

theorem every_query_answered:
  assumes "main_start e opts = Inr p" "loads e opts config ds recs ups"
    and "unat (cache_size_bytes config) + 2 ^ 17 < 2 ^ 64"
    and "program_step\<^sup>*\<^sup>* (start_program p w create) d"
  shows "let c = run_system d in
    srv_sent (sys_server c) = map (\<lambda>(j, h, q, r). (job_client j, reply_of h r)) (sys_answers c) \<and>
    (\<forall>(j, h, q, r)\<in>set (sys_answers c). ParseDnsQuery (job_packet j) = returns_true (h, q) \<and> rr_response r \<noteq> []) \<and>
    mset (map fst (sys_answers c)) \<subseteq># filter_mset is_query (mset (p_accepted (sys_pool c))) \<and>
    resources (srv_net (sys_server c)) = (0, 0, 0) \<and>
    (p_main (sys_pool c) = Returned \<and> StartWorkers create \<noteq> [] \<longrightarrow>
      mset (map fst (sys_answers c)) = filter_mset is_query (mset (p_accepted (sys_pool c))))"
proof -
  obtain c where c: "c = run_system d" by blast
  note s = program_server [OF assms(1-3)]
  have run: "system_step\<^sup>*\<^sup>* (start_system (prog_server p) create) c"
    using program_run_system [OF assms(1,4)] by (simp add: c)
  note a = system_answers [OF run s(1,2)]
  have i: "system_inv (prog_server p) c" by (rule system_run_inv [OF run s(1,2)])
  then have "list_all (answer_sound (rebind_protection config)) (sys_answers c)"
    by (simp add: system_inv_def Let_def s)
  then have "\<forall>(j, h, q, r)\<in>set (sys_answers c). ParseDnsQuery (job_packet j) = returns_true (h, q) \<and> rr_response r \<noteq> []"
    by (auto simp: list_all_iff answer_sound_def answer_ok_def)
  moreover have "srv_sent (sys_server c) = map (\<lambda>(j, h, q, r). (job_client j, reply_of h r)) (sys_answers c)"
    using i by (simp add: system_inv_def Let_def s datagram_def)
  moreover have "resources (srv_net (sys_server c)) = (0, 0, 0)" using i by (simp add: system_inv_def Let_def s)
  ultimately show ?thesis using a unfolding Let_def c [symmetric] by blast
qed

text \<open>A blocked query to the sample program, with a client that has no printable address.\<close>

definition blocked_query :: job where
  "blocked_query = \<lparr>job_packet = [0, 7, 1, 0, 0, 1, 0, 0, 0, 0, 0, 0, 3, 97, 100, 115, 7, 101, 120, 97, 109, 112, 108, 101, 0, 0, 1, 0, 1],
     job_client = ([10, 0, 0, 7], 5353)\<rparr>"

definition nameless_env :: query_env where
  "nameless_env = (sample_query_env 0 [])\<lparr>e_ntop := (\<lambda>c. None)\<rparr>"

lemma nameless_env_ok: "env_ok nameless_env"
  using sample_env_ok [of "[]" 0] by (simp add: nameless_env_def env_ok_def sample_query_env_def)

definition blocked_question :: DnsQuestion where
  "blocked_question = (ask_for ''ads.example'')\<lparr>raw_length := 17\<rparr>"

lemma blocked_query_parsed:
  "ParseDnsQuery (job_packet blocked_query) = returns_true (lookup_header, blocked_question)"
  by code_simp

lemma blocked_query_handled:
  assumes "main_start sample_main default_options = Inr p"
  shows "\<exists>s'. HandleQuery nameless_env nameless_env (prog_server p) (job_packet blocked_query)
    (job_client blocked_query) = Some (True, s')"
proof -
  have b: "srv_blocklist (prog_server p) = Some (SetDomains new_blocklist {''ads.example''})"
    using main_start_server [OF assms sample_loads] built_simps(2) by blast
  have m: "IsBlocked (SetDomains new_blocklist {''ads.example''}) (qname blocked_question)" by code_simp
  let ?s = "if DebugEnabled (net_log (srv_net (prog_server p)))
    then debug (prog_server p) (''Query: '' @ qname blocked_question @ '' '' @
      QTypeToString (qtype blocked_question)) else prog_server p"
  have "srv_blocklist ?s = Some (SetDomains new_blocklist {''ads.example''})" by (simp add: b)
  then obtain r s1 where r: "ResolveQuery nameless_env ?s (job_packet blocked_query) lookup_header
      blocked_question = Some (r, s1)"
    using m by (simp add: ResolveQuery_def del: if_split)
  have n: "ResolveClientName nameless_env t (job_client blocked_query) = Some (''-'', t)" for t
    by (simp add: ResolveClientName_def nameless_env_def)
  show ?thesis by (simp add: HandleQuery_def blocked_query_parsed r n Let_def split: option.split)
qed

theorem every_query_answered_witness:
  "\<exists>p d c. main_start sample_main default_options = Inr p \<and>
     program_step\<^sup>*\<^sup>* (start_program p empty_world one_thread) d \<and> c = run_system d \<and> p_main (sys_pool c) = Returned \<and>
     mset (map fst (sys_answers c)) = {#blocked_query#} \<and> map fst (srv_sent (sys_server c)) = [([10, 0, 0, 7], 5353)]"
proof -
  obtain p where p: "main_start sample_main default_options = Inr p" using sample_started by blast
  obtain s' where h: "HandleQuery nameless_env nameless_env (prog_server p) (job_packet blocked_query)
      (job_client blocked_query) = Some (True, s')"
    using blocked_query_handled [OF p] by blast
  have l: "length (job_packet blocked_query) \<le> 4096" by (simp add: blocked_query_def)
  obtain c0 c where run: "serving\<^sup>*\<^sup>* (start_system (prog_server p) one_thread) c0" "serving\<^sup>*\<^sup>* c0 c"
    and c: "p_main (sys_pool c) = Returned" "p_accepted (sys_pool c) = [blocked_query]"
    by (rule one_query_run [OF h nameless_env_ok nameless_env_ok refl l])
  obtain d where r: "program_step\<^sup>*\<^sup>* (start_program p empty_world one_thread) d" and d: "run_system d = c"
    using serving_program_run [OF rtranclp_trans [OF run]] by blast
  have z: "unat (cache_size_bytes default_config) + 2 ^ 17 < 2 ^ 64" by (simp add: default_config_def)
  have q: "is_query blocked_query" by (simp add: is_query_def blocked_query_parsed)
  note e = every_query_answered [OF p sample_loads z r, unfolded Let_def d]
  have "StartWorkers one_thread \<noteq> []" by (simp add: StartWorkers_def)
  then have m: "mset (map fst (sys_answers c)) = {#blocked_query#}" using e c q by simp
  then have "map fst (sys_answers c) = [blocked_query]" by (simp only: mset_single_iff)
  then have "map fst (srv_sent (sys_server c)) = [job_client blocked_query]"
    using e by (cases "sys_answers c") (auto simp: case_prod_unfold)
  with p r d c(1) m show ?thesis by (auto simp: blocked_query_def)
qed

lemma unlisted_unserved:
  assumes "cached_answer e s q = None" "dot_servers (srv_resolver s) = []" "udp_servers (srv_resolver s) = []"
    and "\<not> (case srv_blocklist s of None \<Rightarrow> False | Some b \<Rightarrow> IsBlocked b (qname q))"
    and "Resolve (srv_local s) (qname q) (qtype q) = None"
  shows "\<exists>r s'. ResolveQuery e s packet h q = Some (r, s') \<and> rr_source r = RESOLVE_UPSTREAM"
proof -
  obtain a s1 where l: "cache_lookup e s (MakeCacheKey (qname q) (qtype q)) = (a, s1)"
    by (cases "cache_lookup e s (MakeCacheKey (qname q) (qtype q))")
  note c = cache_lookup_result [OF l]
  then obtain resp up s2 where u: "ask_upstream e s1 packet h q = Some (resp, up, s2)"
    using assms(2,3) by (simp add: ask_upstream_def ResolveDot_def ResolveUdp_def same_setup_def)
  obtain resp' s3 where p: "protect s2 h q resp = Some (resp', s3)"
    using protect_defined [of s2 h q resp] by auto
  show ?thesis using assms(1,4,5) c l u p by (simp add: ResolveQuery_def)
qed

text \<open>
  C2: Rebind protection from start-up on. If the configuration that was loaded turns rebind
  protection on (and the cache limit leaves room for one message below \<open>2 ^ 64\<close>), then whatever the
  interleaving of the threads with each other and with updates of the blocklist, and whatever the
  upstreams send, every datagram that is sent with an answer from the cache or an upstream is a
  non-empty message without a private address.
\<close>

theorem program_answers_clean:
  assumes "main_start e opts = Inr p" "loads e opts config ds recs ups"
    and "rebind_protection config" "unat (cache_size_bytes config) + 2 ^ 17 < 2 ^ 64"
    and "program_step\<^sup>*\<^sup>* (start_program p w create) d"
    and "k < length (sys_answers (run_system d))" "sys_answers (run_system d) ! k = (j, h, q, r)"
    and "rr_source r \<in> {RESOLVE_CACHE, RESOLVE_UPSTREAM}"
  shows "srv_sent (sys_server (run_system d)) ! k = (job_client j, reply_of h r) \<and>
    reply_of h r \<noteq> [] \<and> rebind_clean (reply_of h r)"
proof -
  obtain c where c: "c = run_system d" by blast
  note s = program_server [OF assms(1,2,4)]
  have run: "system_step\<^sup>*\<^sup>* (start_system (prog_server p) create) c"
    using program_run_system [OF assms(1,5)] by (simp add: c)
  have i: "system_inv (prog_server p) c" by (rule system_run_inv [OF run s(1,2)])
  have "answer_sound True (j, h, q, r)"
    using i assms(3,6,7) unfolding c [symmetric] by (auto simp: system_inv_def Let_def s list_all_length)
  then have r: "rr_response r \<noteq> []" "rebind_clean (rr_response r)"
    using assms(8) by (auto simp: answer_sound_def answer_ok_def good_response_def)
  then have "rebind_clean (reply_of h r)" by (simp add: reply_of_def PatchResponseId_clean)
  moreover have "reply_of h r \<noteq> []" using r(1) by (auto simp: reply_of_def PatchResponseId_def)
  moreover have "srv_sent (sys_server c) ! k = (job_client j, reply_of h r)"
    using i assms(6,7) unfolding c [symmetric] by (simp add: system_inv_def Let_def s datagram_def)
  ultimately show ?thesis by (simp add: c)
qed

theorem program_answers_clean_witness:
  "\<exists>p d c k r. main_start sample_main default_options = Inr p \<and>
     program_step\<^sup>*\<^sup>* (start_program p empty_world one_thread) d \<and> c = run_system d \<and> rr_source r = RESOLVE_UPSTREAM \<and>
     sys_answers c ! k = (query_job, lookup_header, ask_for ''ab.c'', r) \<and>
     srv_sent (sys_server c) ! k = (job_client query_job, reply_of lookup_header r) \<and>
     rebind_clean (reply_of lookup_header r)"
proof -
  let ?e = "sample_query_env 100 []" and ?q = "ask_for ''ab.c''"
  obtain p where p: "main_start sample_main default_options = Inr p" using sample_started by blast
  let ?s = "if DebugEnabled (net_log (srv_net (prog_server p)))
    then debug (prog_server p) (''Query: '' @ qname ?q @ '' '' @ QTypeToString (qtype ?q)) else prog_server p"
  have b: "built sample_main default_config {''ads.example''} [] [] [] (prog_server p)"
    using main_start_server [OF p sample_loads] by simp
  have c: "\<not> IsBlocked (SetDomains new_blocklist {''ads.example''}) (qname ?q)"
    "Resolve (Load no_records []) (qname ?q) (qtype ?q) = None"
    "fst (cache_get (e_get_time ?e) (new_cache (cache_size_bytes default_config) (cache_ttl_sec default_config))
       (MakeCacheKey (qname ?q) (qtype ?q))) = None"
    by code_simp+
  have t: "srv_blocklist ?s = Some (SetDomains new_blocklist {''ads.example''})" "srv_local ?s = Load no_records []"
    "cached_answer ?e ?s ?q = None" "dot_servers (srv_resolver ?s) = []" "udp_servers (srv_resolver ?s) = []"
    using c(3) by (simp_all add: built_simps [OF b] cached_answer_def)
  obtain r s' where r: "ResolveQuery ?e ?s (job_packet query_job) lookup_header ?q = Some (r, s')"
    and u: "rr_source r = RESOLVE_UPSTREAM"
    using unlisted_unserved [OF t(3-5), of "job_packet query_job" lookup_header] c(1,2) t(1,2) by auto
  have pk: "ParseDnsQuery (job_packet query_job) = returns_true (lookup_header, ?q)"
    by (simp add: query_job_def sample_packet_parsed)
  have l: "length (job_packet query_job) \<le> 4096" by (simp add: query_job_def sample_packet_def)
  obtain c k where sv: "serving\<^sup>*\<^sup>* (start_system (prog_server p) one_thread) c"
    and run: "k < length (sys_answers c)" "sys_answers c ! k = (query_job, lookup_header, ?q, r)"
    by (rule one_query_answered [OF pk r sample_envs(2) l])
  have z: "rebind_protection default_config" "unat (cache_size_bytes default_config) + 2 ^ 17 < 2 ^ 64"
    by (simp_all add: default_config_def)
  obtain d where d: "program_step\<^sup>*\<^sup>* (start_program p empty_world one_thread) d" "run_system d = c"
    using serving_program_run [OF sv] by blast
  from program_answers_clean [OF p sample_loads z d(1), unfolded d(2), OF run] u p run d show ?thesis by blast
qed

end
